(* ===== verification/Zicade_Prelude.thy ===== *)
theory Zicade_Prelude
  imports Main "HOL-Library.Word" "HOL-Library.Sublist" "HOL-Library.Char_ord"
    "HOL-Library.List_Lexorder" "HOL-Library.Code_Target_Nat"
begin

text \<open>
  The vocabulary the component theories share: machine integers, results, and the
  operations of Rust's \<^verbatim>\<open>str\<close>, \<^verbatim>\<open>String\<close> and
  integer parsing that the sources use.

  A model string is a HOL \<open>string\<close> read as a sequence of code points up to U+00FF: every
  Rust string whose characters lie in that range is represented, and every operation
  below agrees with Rust on those strings. Time is a \<open>nat\<close> in milliseconds; an
  \<^verbatim>\<open>Instant\<close> is such a number, and \<open>-\<close> on \<open>nat\<close> is Rust's saturating
  subtraction of instants and durations. A fallible operation returns
  \<open>'e + 'a\<close>, with \<open>Inl\<close> for \<^verbatim>\<open>Err\<close> and \<open>Inr\<close> for \<^verbatim>\<open>Ok\<close>.
\<close>

named_theorems text_simps \<open>rewrites of the text operations on concrete shapes\<close>
named_theorems step_defs \<open>the operations of a component, for case analysis on a step\<close>

type_synonym u8 = "8 word"
type_synonym u16 = "16 word"
type_synonym u64 = "64 word"
type_synonym bytes = "char list"
type_synonym millis = nat

subsection \<open>Results\<close>

definition and_then :: "'e + 'a \<Rightarrow> ('a \<Rightarrow> 'e + 'b) \<Rightarrow> 'e + 'b" where
  "and_then r f = (case r of Inl e \<Rightarrow> Inl e | Inr a \<Rightarrow> f a)"

definition is_ok :: "'e + 'a \<Rightarrow> bool" where
  "is_ok r = (case r of Inl _ \<Rightarrow> False | Inr _ \<Rightarrow> True)"

lemma and_then_simps [simp]:
  "and_then (Inl e) f = Inl e"
  "and_then (Inr a) f = f a"
  by (simp_all add: and_then_def)

lemma and_then_Inr_iff: "and_then r f = Inr b \<longleftrightarrow> (\<exists>a. r = Inr a \<and> f a = Inr b)"
  by (cases r) auto

lemma is_ok_simps [simp]: "\<not> is_ok (Inl e)" "is_ok (Inr a)"
  by (simp_all add: is_ok_def)

subsection \<open>Characters\<close>

definition is_ws :: "char \<Rightarrow> bool" where
  "is_ws c \<longleftrightarrow> c \<in> {CHR '' '', CHR 0x09, CHR 0x0A, CHR 0x0B, CHR 0x0C, CHR 0x0D, CHR 0x85, CHR 0xA0}"

definition code_of :: "char \<Rightarrow> int" where
  "code_of c = of_char c"

definition is_digit :: "char \<Rightarrow> bool" where
  "is_digit c \<longleftrightarrow> 48 \<le> code_of c \<and> code_of c \<le> 57"

definition is_upper :: "char \<Rightarrow> bool" where
  "is_upper c \<longleftrightarrow> 65 \<le> code_of c \<and> code_of c \<le> 90"

definition is_lower :: "char \<Rightarrow> bool" where
  "is_lower c \<longleftrightarrow> 97 \<le> code_of c \<and> code_of c \<le> 122"

definition is_alphanumeric :: "char \<Rightarrow> bool" where
  "is_alphanumeric c \<longleftrightarrow> is_digit c \<or> is_upper c \<or> is_lower c"

definition to_lower_char :: "char \<Rightarrow> char" where
  "to_lower_char c = (if is_upper c then char_of (code_of c + 32) else c)"

definition to_upper_char :: "char \<Rightarrow> char" where
  "to_upper_char c = (if is_lower c then char_of (code_of c - 32) else c)"

definition to_ascii_lowercase :: "string \<Rightarrow> string" where
  "to_ascii_lowercase s = map to_lower_char s"

text \<open>
  \<^verbatim>\<open>to_lowercase\<close> of the code points below U+0100: the letters from U+00C0 to
  U+00DE have their lower case 32 further on, except the multiplication sign U+00D7.\<close>

definition to_lowercase :: "string \<Rightarrow> string" where
  "to_lowercase s =
     map (\<lambda>c. if 192 \<le> code_of c \<and> code_of c \<le> 222 \<and> code_of c \<noteq> 215
              then char_of (code_of c + 32) else to_lower_char c) s"

definition to_ascii_uppercase :: "string \<Rightarrow> string" where
  "to_ascii_uppercase s = map to_upper_char s"

definition eq_ignore_ascii_case :: "string \<Rightarrow> string \<Rightarrow> bool" where
  "eq_ignore_ascii_case a b \<longleftrightarrow> to_ascii_lowercase a = to_ascii_lowercase b"

lemma code_of_char_of [simp]: "0 \<le> n \<Longrightarrow> n < 256 \<Longrightarrow> code_of (char_of n) = n"
  by (simp add: code_of_def)

lemma char_of_code_of [simp]: "char_of (code_of c) = c"
  by (simp add: code_of_def)

lemma code_of_inject [simp]: "code_of c = code_of d \<longleftrightarrow> c = d"
  by (simp add: code_of_def)

lemma code_of_less [simp]: "code_of c < 256" and code_of_nonneg [simp]: "0 \<le> code_of c"
  unfolding code_of_def using of_char_mod_256 [of c, where 'a = int]
  by (metis pos_mod_bound zero_less_numeral, metis pos_mod_sign zero_less_numeral)

lemma to_lower_char_idem [simp]: "to_lower_char (to_lower_char c) = to_lower_char c"
  by (auto simp: to_lower_char_def is_upper_def)

lemma to_ascii_lowercase_idem [simp]:
  "to_ascii_lowercase (to_ascii_lowercase s) = to_ascii_lowercase s"
  by (simp add: to_ascii_lowercase_def)

lemma length_to_ascii_lowercase [simp]: "length (to_ascii_lowercase s) = length s"
  by (simp add: to_ascii_lowercase_def)

lemma to_ascii_lowercase_append [simp]:
  "to_ascii_lowercase (a @ b) = to_ascii_lowercase a @ to_ascii_lowercase b"
  by (simp add: to_ascii_lowercase_def)

lemma to_ascii_lowercase_eq_Nil [simp]: "to_ascii_lowercase s = [] \<longleftrightarrow> s = []"
  by (simp add: to_ascii_lowercase_def)

subsection \<open>Trimming and splitting\<close>

definition trim_start_matches :: "(char \<Rightarrow> bool) \<Rightarrow> string \<Rightarrow> string" where
  "trim_start_matches p s = dropWhile p s"

definition trim_end_matches :: "(char \<Rightarrow> bool) \<Rightarrow> string \<Rightarrow> string" where
  "trim_end_matches p s = rev (dropWhile p (rev s))"

definition trim_matches :: "(char \<Rightarrow> bool) \<Rightarrow> string \<Rightarrow> string" where
  "trim_matches p s = trim_end_matches p (trim_start_matches p s)"

definition trim :: "string \<Rightarrow> string" where
  "trim s = trim_matches is_ws s"

text \<open>\<open>split_on p s\<close> is \<^verbatim>\<open>s.split(p)\<close>: one piece more than there are separators.\<close>

fun split_on :: "(char \<Rightarrow> bool) \<Rightarrow> string \<Rightarrow> string list" where
  "split_on p [] = [[]]"
| "split_on p (c # cs) =
     (if p c then [] # split_on p cs
      else (case split_on p cs of [] \<Rightarrow> [[c]] | w # ws \<Rightarrow> (c # w) # ws))"

definition split_whitespace :: "string \<Rightarrow> string list" where
  "split_whitespace s = filter (\<lambda>w. w \<noteq> []) (split_on is_ws s)"

text \<open>\<open>split_once\<close> and \<open>rsplit_once\<close> cut at the first, respectively last, match.\<close>

definition split_once :: "(char \<Rightarrow> bool) \<Rightarrow> string \<Rightarrow> (string \<times> string) option" where
  "split_once p s =
     (case dropWhile (\<lambda>c. \<not> p c) s of [] \<Rightarrow> None
      | _ # rest \<Rightarrow> Some (takeWhile (\<lambda>c. \<not> p c) s, rest))"

definition rsplit_once :: "(char \<Rightarrow> bool) \<Rightarrow> string \<Rightarrow> (string \<times> string) option" where
  "rsplit_once p s = map_option (\<lambda>(a, b). (rev b, rev a)) (split_once p (rev s))"

definition strip_prefix :: "string \<Rightarrow> string \<Rightarrow> string option" where
  "strip_prefix p s = (if prefix p s then Some (drop (length p) s) else None)"

fun join :: "string \<Rightarrow> string list \<Rightarrow> string" where
  "join sep [] = []"
| "join sep [w] = w"
| "join sep (w # ws) = w @ sep @ join sep ws"

fun contains :: "string \<Rightarrow> string \<Rightarrow> bool" where
  "contains needle [] = (needle = [])"
| "contains needle (c # cs) = (prefix needle (c # cs) \<or> contains needle cs)"


subsection \<open>Laws of trimming\<close>

lemma trim_Nil [simp]: "trim [] = []"
  by (simp add: trim_def trim_matches_def trim_end_matches_def trim_start_matches_def)

lemma set_trim_matches: "set (trim_matches p s) \<subseteq> set s"
  unfolding trim_matches_def trim_end_matches_def trim_start_matches_def
  by (auto dest!: set_dropWhileD)

lemma set_trim: "set (trim s) \<subseteq> set s"
  unfolding trim_def by (rule set_trim_matches)

lemma trim_matches_hd:
  assumes "trim_matches p s \<noteq> []"
  shows "\<not> p (hd (trim_matches p s))"
proof -
  let ?d = "dropWhile p s"
  obtain t where t: "rev ?d = takeWhile p (rev ?d) @ dropWhile p (rev ?d)"
    by (metis takeWhile_dropWhile_id)
  have "?d = rev (dropWhile p (rev ?d)) @ rev (takeWhile p (rev ?d))"
    by (metis rev_append rev_rev_ident t)
  moreover have ne: "rev (dropWhile p (rev ?d)) \<noteq> []"
    using assms by (simp add: trim_matches_def trim_end_matches_def trim_start_matches_def)
  ultimately have "hd ?d = hd (rev (dropWhile p (rev ?d)))" and "?d \<noteq> []"
    by (metis hd_append2, metis append_is_Nil_conv)
  then show ?thesis
    by (metis hd_dropWhile trim_matches_def trim_end_matches_def trim_start_matches_def)
qed

lemma trim_matches_last:
  assumes "trim_matches p s \<noteq> []"
  shows "\<not> p (last (trim_matches p s))"
  using assms unfolding trim_matches_def trim_end_matches_def
  by (metis hd_dropWhile last_rev rev_is_Nil_conv)

lemma trim_matches_id:
  assumes "s \<noteq> [] \<Longrightarrow> \<not> p (hd s) \<and> \<not> p (last s)"
  shows "trim_matches p s = s"
proof (cases "s = []")
  case True
  then show ?thesis
    by (simp add: trim_matches_def trim_end_matches_def trim_start_matches_def)
next
  case False
  then have "dropWhile p s = s" and "dropWhile p (rev s) = rev s"
    using assms by (auto simp: dropWhile_eq_self_iff hd_rev)
  then show ?thesis
    by (simp add: trim_matches_def trim_end_matches_def trim_start_matches_def)
qed

lemma trim_id: "(s \<noteq> [] \<Longrightarrow> \<not> is_ws (hd s) \<and> \<not> is_ws (last s)) \<Longrightarrow> trim s = s"
  unfolding trim_def by (rule trim_matches_id)

lemma trim_no_ws: "(\<forall>c \<in> set s. \<not> is_ws c) \<Longrightarrow> trim s = s"
  by (rule trim_id) (simp add: hd_in_set last_in_set)

lemma trim_trim [simp]: "trim (trim s) = trim s"
  by (rule trim_id) (simp add: trim_def trim_matches_hd trim_matches_last)

subsection \<open>Laws of splitting and joining\<close>

lemma split_on_not_Nil [simp]: "split_on p s \<noteq> []"
  by (cases s) (auto split: list.split)

lemma split_on_no_sep: "(\<forall>c \<in> set s. \<not> p c) \<Longrightarrow> split_on p s = [s]"
  by (induction s) auto

lemma split_on_append_sep:
  "p c \<Longrightarrow> split_on p (a @ c # b) = split_on p a @ split_on p b"
  by (induction a) (auto split: list.splits)

lemma split_on_all_pieces: "\<forall>w \<in> set (split_on p s). \<forall>c \<in> set w. \<not> p c"
proof (induction s)
  case (Cons x xs)
  then show ?case
    by (cases "split_on p xs") auto
qed simp

lemma split_on_pieces: "w \<in> set (split_on p s) \<Longrightarrow> c \<in> set w \<Longrightarrow> \<not> p c"
  using split_on_all_pieces by blast

lemma split_on_set: "w \<in> set (split_on p s) \<Longrightarrow> set w \<subseteq> set s"
proof (induction s arbitrary: w)
  case Nil
  then show ?case by simp
next
  case (Cons x xs)
  show ?case
  proof (cases "split_on p xs")
    case Nil
    then show ?thesis by simp
  next
    case (Cons v vs)
    then have "set v \<subseteq> set xs" and "\<And>u. u \<in> set vs \<Longrightarrow> set u \<subseteq> set xs"
      using Cons.IH by auto
    with Cons Cons.prems show ?thesis by (auto split: if_splits)
  qed
qed

lemma split_on_join:
  assumes "p c" and "ws \<noteq> []" and "\<forall>w \<in> set ws. \<forall>x \<in> set w. \<not> p x"
  shows "split_on p (join [c] ws) = ws"
  using assms(2,3)
proof (induction ws)
  case Nil
  then show ?case by simp
next
  case (Cons w ws)
  then show ?case using assms(1)
    by (cases ws) (simp_all add: split_on_append_sep split_on_no_sep)
qed

lemma join_split_on: "join [c] (split_on (\<lambda>x. x = c) s) = s"
proof (induction s)
  case Nil
  then show ?case by simp
next
  case (Cons x xs)
  then show ?case
    by (cases "split_on (\<lambda>x. x = c) xs" rule: list.exhaust; cases "tl (split_on (\<lambda>x. x = c) xs)") auto
qed

lemma split_whitespace_word:
  assumes "w \<noteq> []" and "\<forall>c \<in> set w. \<not> is_ws c"
  shows "split_whitespace w = [w]"
  using assms by (simp add: split_whitespace_def split_on_no_sep)

lemma split_whitespace_space:
  assumes "is_ws c"
  shows "split_whitespace (a @ c # b) = split_whitespace a @ split_whitespace b"
  using assms by (simp add: split_whitespace_def split_on_append_sep)

lemma split_whitespace_pieces:
  assumes "w \<in> set (split_whitespace s)"
  shows "w \<noteq> []" and "\<forall>c \<in> set w. \<not> is_ws c" and "set w \<subseteq> set s"
  using assms split_on_pieces [of w is_ws s] split_on_set [of w is_ws s]
  by (auto simp: split_whitespace_def)

lemma split_once_found:
  assumes "p c" and "\<forall>x \<in> set a. \<not> p x"
  shows "split_once p (a @ c # b) = Some (a, b)"
  using assms by (simp add: split_once_def takeWhile_append2)

lemma split_once_None: "split_once p s = None \<longleftrightarrow> (\<forall>x \<in> set s. \<not> p x)"
proof (cases "dropWhile (\<lambda>c. \<not> p c) s")
  case Nil
  moreover from Nil have "\<forall>x \<in> set s. \<not> p x" by (simp add: dropWhile_eq_Nil_conv)
  ultimately show ?thesis unfolding split_once_def by (simp only: list.case) auto
next
  case (Cons y ys)
  then have "y \<in> set s" and "p y"
    by (metis list.set_intros(1) set_dropWhileD, metis hd_dropWhile list.discI list.sel(1))
  with Cons show ?thesis unfolding split_once_def by auto
qed

lemma split_once_Some:
  assumes "split_once p s = Some (a, b)"
  obtains c where "s = a @ c # b" and "p c" and "\<forall>x \<in> set a. \<not> p x"
proof -
  from assms obtain c where c: "dropWhile (\<lambda>c. \<not> p c) s = c # b"
    and a: "a = takeWhile (\<lambda>c. \<not> p c) s"
    by (auto simp: split_once_def split: list.splits)
  then have "s = a @ c # b" by (metis takeWhile_dropWhile_id)
  moreover have "p c" using c by (metis hd_dropWhile list.discI list.sel(1))
  moreover have "\<forall>x \<in> set a. \<not> p x" using a by (auto dest: set_takeWhileD)
  ultimately show ?thesis by (rule that)
qed

lemma rsplit_once_found:
  assumes "p c" and "\<forall>x \<in> set b. \<not> p x"
  shows "rsplit_once p (a @ c # b) = Some (a, b)"
  using split_once_found [of p c "rev b" "rev a"] assms by (simp add: rsplit_once_def)

lemma rsplit_once_None: "rsplit_once p s = None \<longleftrightarrow> (\<forall>x \<in> set s. \<not> p x)"
  by (simp add: rsplit_once_def split_once_None)

lemma rsplit_once_Some:
  assumes "rsplit_once p s = Some (a, b)"
  obtains c where "s = a @ c # b" and "p c" and "\<forall>x \<in> set b. \<not> p x"
proof -
  from assms have "split_once p (rev s) = Some (rev b, rev a)"
    by (auto simp: rsplit_once_def)
  then obtain c where "rev s = rev b @ c # rev a" and c: "p c" and b: "\<forall>x \<in> set (rev b). \<not> p x"
    by (rule split_once_Some)
  then have "s = a @ c # b"
    by (metis append_Cons append_Nil append_assoc rev.simps(2) rev_append rev_rev_ident)
  with c b show ?thesis by (intro that) auto
qed

subsection \<open>Decimal and hexadecimal integers\<close>

text \<open>
  \<open>parse_uint b s\<close> is \<^verbatim>\<open>s.parse::<uN>()\<close> for an unsigned type with \<open>b\<close>
  values: an optional plus sign, at least one digit, nothing else, no overflow.
\<close>

fun digits_value :: "int \<Rightarrow> string \<Rightarrow> int option" where
  "digits_value acc [] = Some acc"
| "digits_value acc (c # cs) =
     (if is_digit c then digits_value (10 * acc + (code_of c - 48)) cs else None)"

definition strip_plus :: "string \<Rightarrow> string" where
  "strip_plus s = (case s of c # cs \<Rightarrow> (if c = CHR ''+'' then cs else s) | [] \<Rightarrow> [])"

definition parse_uint :: "int \<Rightarrow> string \<Rightarrow> int option" where
  "parse_uint b s =
     (if strip_plus s = [] then None
      else (case digits_value 0 (strip_plus s) of None \<Rightarrow> None
            | Some n \<Rightarrow> if n < b then Some n else None))"

definition parse_u16 :: "string \<Rightarrow> u16 option" where
  "parse_u16 s = map_option of_int (parse_uint 65536 s)"

definition parse_u64 :: "string \<Rightarrow> u64 option" where
  "parse_u64 s = map_option of_int (parse_uint 18446744073709551616 s)"

text \<open>\<open>usize\<close> has 64 bits on the targets of the application.\<close>

definition parse_usize :: "string \<Rightarrow> nat option" where
  "parse_usize s = map_option nat (parse_uint 18446744073709551616 s)"

function show_int :: "int \<Rightarrow> string" where
  "show_int n =
     (if n < 10 then [char_of (n + 48)] else show_int (n div 10) @ [char_of (n mod 10 + 48)])"
  by auto
termination by (relation "measure nat") auto

declare show_int.simps [simp del]

text \<open>\<open>to_string\<close> of an unsigned integer.\<close>

definition show_nat :: "nat \<Rightarrow> string" where
  "show_nat n = show_int (int n)"

definition show_word :: "'a::len word \<Rightarrow> string" where
  "show_word w = show_int (uint w)"

definition hex_digit :: "char \<Rightarrow> int option" where
  "hex_digit c =
     (if is_digit c then Some (code_of c - 48)
      else if 97 \<le> code_of c \<and> code_of c \<le> 102 then Some (code_of c - 87)
      else if 65 \<le> code_of c \<and> code_of c \<le> 70 then Some (code_of c - 55)
      else None)"

fun hex_value :: "int \<Rightarrow> string \<Rightarrow> int option" where
  "hex_value acc [] = Some acc"
| "hex_value acc (c # cs) =
     (case hex_digit c of None \<Rightarrow> None | Some d \<Rightarrow> hex_value (16 * acc + d) cs)"

text \<open>\<open>usize::from_str_radix(s, 16)\<close> on a 64-bit target.\<close>

definition parse_hex_usize :: "string \<Rightarrow> nat option" where
  "parse_hex_usize s =
     (if strip_plus s = [] then None
      else (case hex_value 0 (strip_plus s) of None \<Rightarrow> None
            | Some n \<Rightarrow> if n < 18446744073709551616 then Some (nat n) else None))"

lemma digits_value_append:
  "digits_value acc (a @ b) = Option.bind (digits_value acc a) (\<lambda>n. digits_value n b)"
  by (induction a arbitrary: acc) auto

lemma is_digit_char_of [simp]: "0 \<le> n \<Longrightarrow> n < 10 \<Longrightarrow> is_digit (char_of (n + 48 :: int))"
  by (simp add: is_digit_def)

lemma digits_value_show_int: "0 \<le> n \<Longrightarrow> digits_value 0 (show_int n) = Some n"
proof (induction n rule: show_int.induct)
  case (1 n)
  show ?case
  proof (cases "n < 10")
    case True
    with 1 show ?thesis by (simp add: show_int.simps [of n])
  next
    case False
    with 1 show ?thesis
      by (simp add: show_int.simps [of n] digits_value_append)
  qed
qed

lemma show_int_not_Nil [simp]: "show_int n \<noteq> []"
  by (simp add: show_int.simps [of n])

lemma show_int_digits: "0 \<le> n \<Longrightarrow> c \<in> set (show_int n) \<Longrightarrow> is_digit c"
proof (induction n rule: show_int.induct)
  case (1 n)
  then show ?case
    by (cases "n < 10") (auto simp: show_int.simps [of n])
qed

lemma is_digit_not_ws: "is_digit c \<Longrightarrow> \<not> is_ws c"
  by (auto simp: is_digit_def is_ws_def code_of_def)

lemma show_int_no_ws: "0 \<le> n \<Longrightarrow> \<forall>c \<in> set (show_int n). \<not> is_ws c"
  using show_int_digits is_digit_not_ws by blast

lemma trim_show_int [simp]: "0 \<le> n \<Longrightarrow> trim (show_int n) = show_int n"
  by (rule trim_no_ws) (rule show_int_no_ws)

lemma is_digit_neqs:
  "is_digit c \<Longrightarrow> c \<noteq> CHR ''+''" "is_digit c \<Longrightarrow> c \<noteq> CHR '':''"
  "is_digit c \<Longrightarrow> c \<noteq> CHR '';''" "is_digit c \<Longrightarrow> c \<noteq> CHR ''=''"
  "is_digit c \<Longrightarrow> c \<noteq> CHR '',''" "is_digit c \<Longrightarrow> c \<noteq> CHR 0x0A"
  by (auto simp: is_digit_def code_of_def)

lemma strip_plus_show_int [simp]: "0 \<le> n \<Longrightarrow> strip_plus (show_int n) = show_int n"
proof (cases "show_int n")
  case (Cons c cs)
  assume "0 \<le> n"
  then have "is_digit c" using show_int_digits [of n c] Cons by simp
  then have "c \<noteq> CHR ''+''" by (rule is_digit_neqs)
  with Cons show ?thesis by (simp add: strip_plus_def)
qed simp

lemma parse_show_int: "0 \<le> n \<Longrightarrow> n < b \<Longrightarrow> parse_uint b (show_int n) = Some n"
  by (simp add: parse_uint_def digits_value_show_int)

lemma parse_u16_show_word [simp]: "parse_u16 (show_word (w :: u16)) = Some w"
proof -
  have "uint w < 65536" using unsigned_less [of w, where 'a = int] by simp
  then show ?thesis by (simp add: parse_u16_def show_word_def parse_show_int)
qed

lemma parse_u64_show_word [simp]: "parse_u64 (show_word (w :: u64)) = Some w"
proof -
  have "uint w < 18446744073709551616" using unsigned_less [of w, where 'a = int] by simp
  then show ?thesis by (simp add: parse_u64_def show_word_def parse_show_int)
qed

lemma parse_usize_show_nat [simp]: "n < 2 ^ 64 \<Longrightarrow> parse_usize (show_nat n) = Some n"
  by (simp add: parse_usize_def show_nat_def parse_show_int)

lemma parse_uint_bound: "parse_uint b s = Some n \<Longrightarrow> n < b"
  by (auto simp: parse_uint_def split: option.splits if_splits)

lemma show_word_not_Nil [simp]: "show_word w \<noteq> []" and show_nat_not_Nil [simp]: "show_nat n \<noteq> []"
  by (simp_all add: show_word_def show_nat_def)

lemma show_word_digits: "c \<in> set (show_word w) \<Longrightarrow> is_digit c"
  using show_int_digits [of "uint w" c] by (simp add: show_word_def)

lemma show_nat_digits: "c \<in> set (show_nat n) \<Longrightarrow> is_digit c"
  using show_int_digits [of "int n" c] by (simp add: show_nat_def)

lemma trim_show_word [simp]: "trim (show_word w) = show_word w"
  by (simp add: show_word_def)

lemma trim_show_nat [simp]: "trim (show_nat n) = show_nat n"
  by (simp add: show_nat_def)

end
