(* ===== verification/Machine.thy ===== *)
theory Machine
  imports Zicade_Prelude
begin

text \<open>
  The contracts that stateful components share. \<open>run\<close> feeds a component a sequence of
  operations; the locales state what a component promises of a single operation and prove
  once what follows for every sequence. Each component interprets the ones it satisfies on
  its own model. Also here: bounded rings, which four components of the application keep,
  and the I/O errors that cross component boundaries.
\<close>

subsection \<open>Sequences of operations\<close>

fun run :: "('s \<Rightarrow> 'i \<Rightarrow> 's \<times> 'o) \<Rightarrow> 's \<Rightarrow> 'i list \<Rightarrow> 's \<times> 'o list" where
  "run step s [] = (s, [])"
| "run step s (i # is) =
     (case step s i of (s', x) \<Rightarrow> case run step s' is of (s'', xs) \<Rightarrow> (s'', x # xs))"

lemma run_append:
  "run step s (is @ js) =
     (case run step s is of (s', xs) \<Rightarrow> case run step s' js of (s'', ys) \<Rightarrow> (s'', xs @ ys))"
  by (induction "is" arbitrary: s) (auto split: prod.split)

lemma run_length: "run step s is = (s', os) \<Longrightarrow> length os = length is"
  by (induction "is" arbitrary: s s' os) (auto split: prod.splits)

lemma run_snoc:
  "run step s (is @ [i]) = (case run step s is of (s', xs) \<Rightarrow> case step s' i of (s'', x) \<Rightarrow> (s'', xs @ [x]))"
  by (simp add: run_append split: prod.split)

lemma run_fst_Cons: "fst (run step s (i # is)) = fst (run step (fst (step s i)) is)"
  by (simp split: prod.split)

lemma run_ConsE:
  assumes "run step s (i # is) = (s', xs)"
  obtains t x ys where "step s i = (t, x)" and "run step t is = (s', ys)" and "xs = x # ys"
  using assms by (auto split: prod.splits)

text \<open>A component whose every operation keeps an invariant.\<close>

locale preserving =
  fixes step :: "'s \<Rightarrow> 'i \<Rightarrow> 's \<times> 'o"
    and inv :: "'s \<Rightarrow> bool"
  assumes step_keeps: "inv s \<Longrightarrow> step s i = (s', x) \<Longrightarrow> inv s'"
begin

lemma run_keeps: "inv s \<Longrightarrow> run step s is = (s', xs) \<Longrightarrow> inv s'"
  by (induction "is" arbitrary: s xs) (auto split: prod.splits dest: step_keeps)

lemma run_keeps_fst: "inv s \<Longrightarrow> inv (fst (run step s is))"
  using run_keeps by (metis prod.collapse)

end

text \<open>Moreover each operation's answer satisfies a postcondition on the state it ran in.\<close>

locale answering = preserving step inv
  for step :: "'s \<Rightarrow> 'i \<Rightarrow> 's \<times> 'o" and inv :: "'s \<Rightarrow> bool" +
  fixes good :: "'o \<Rightarrow> bool"
  assumes step_good: "inv s \<Longrightarrow> step s i = (s', x) \<Longrightarrow> good x"
begin

lemma run_good: "inv s \<Longrightarrow> run step s is = (s', xs) \<Longrightarrow> x \<in> set xs \<Longrightarrow> good x"
proof (induction "is" arbitrary: s xs)
  case (Cons i "is")
  from Cons.prems(2) obtain t y ys where
    "step s i = (t, y)" "run step t is = (s', ys)" "xs = y # ys" by (rule run_ConsE)
  moreover from this Cons.prems have "inv t" and "good y" using step_keeps step_good by blast+
  ultimately show ?case using Cons.IH Cons.prems(3) by auto
qed simp

end

text \<open>A component with a meter that counts some of its answers, up to a fixed cap.\<close>

locale metered = preserving step inv
  for step :: "'s \<Rightarrow> 'i \<Rightarrow> 's \<times> 'o" and inv :: "'s \<Rightarrow> bool" +
  fixes meter :: "'s \<Rightarrow> nat"
    and hit :: "'o \<Rightarrow> bool"
    and cap :: "'s \<Rightarrow> nat"
  assumes step_meter: "inv s \<Longrightarrow> step s i = (s', x) \<Longrightarrow> meter s' = meter s + (if hit x then 1 else 0)"
    and step_cap: "inv s \<Longrightarrow> step s i = (s', x) \<Longrightarrow> cap s' = cap s"
    and meter_cap: "inv s \<Longrightarrow> meter s \<le> cap s"
begin

lemma run_meter:
  "inv s \<Longrightarrow> run step s is = (s', xs) \<Longrightarrow>
     meter s' = meter s + length (filter hit xs) \<and> cap s' = cap s \<and> inv s'"
proof (induction "is" arbitrary: s xs)
  case Nil
  then show ?case by simp
next
  case (Cons i "is")
  from Cons.prems(2) obtain t x ys where
    t: "step s i = (t, x)" and ys: "run step t is = (s', ys)" and xs: "xs = x # ys"
    by (rule run_ConsE)
  have "inv t" using step_keeps [OF Cons.prems(1) t] .
  from Cons.IH [OF this ys] step_meter [OF Cons.prems(1) t] step_cap [OF Cons.prems(1) t] xs
  show ?case by simp
qed

lemma run_hits_bounded:
  "inv s \<Longrightarrow> run step s is = (s', xs) \<Longrightarrow> meter s + length (filter hit xs) \<le> cap s"
  using run_meter meter_cap by metis

end

text \<open>
  A component that implements an abstract one: each detailed operation is the abstract
  operation on the abstraction of the state, with the same answer.
\<close>

locale implements = preserving step inv
  for step :: "'s \<Rightarrow> 'i \<Rightarrow> 's \<times> 'o" and inv :: "'s \<Rightarrow> bool" +
  fixes abs :: "'s \<Rightarrow> 'a"
    and astep :: "'a \<Rightarrow> 'i \<Rightarrow> 'a \<times> 'o"
  assumes step_abs: "inv s \<Longrightarrow> step s i = (s', x) \<Longrightarrow> astep (abs s) i = (abs s', x)"
begin

lemma run_abs: "inv s \<Longrightarrow> run step s is = (s', xs) \<Longrightarrow> run astep (abs s) is = (abs s', xs)"
proof (induction "is" arbitrary: s xs)
  case (Cons i "is")
  from Cons.prems(2) obtain t y ys where
    "step s i = (t, y)" "run step t is = (s', ys)" "xs = y # ys" by (rule run_ConsE)
  with Cons show ?case using step_keeps step_abs by simp
qed simp

end

text \<open>The operations of the part that a sequence of operations of the whole amounts to.\<close>

fun ops_along :: "('s \<Rightarrow> 'i \<Rightarrow> 's \<times> 'o) \<Rightarrow> ('s \<Rightarrow> 'i \<Rightarrow> 'j option) \<Rightarrow> 's \<Rightarrow> 'i list \<Rightarrow> 'j list" where
  "ops_along step op_of s [] = []"
| "ops_along step op_of s (i # is) =
     (case op_of s i of Some j \<Rightarrow> [j] | None \<Rightarrow> []) @ ops_along step op_of (fst (step s i)) is"

text \<open>
  A component part of which is another one: each operation either leaves that part alone and
  answers nothing, or is one operation of the part, chosen by the state, with its answer.
\<close>

locale stutters = preserving step inv
  for step :: "'s \<Rightarrow> 'i \<Rightarrow> 's \<times> 'o" and inv :: "'s \<Rightarrow> bool" +
  fixes abs :: "'s \<Rightarrow> 'a"
    and astep :: "'a \<Rightarrow> 'j \<Rightarrow> 'a \<times> 'o"
    and op_of :: "'s \<Rightarrow> 'i \<Rightarrow> 'j option"
    and quiet :: 'o
  assumes step_silent: "inv s \<Longrightarrow> step s i = (s', x) \<Longrightarrow> op_of s i = None \<Longrightarrow> abs s' = abs s \<and> x = quiet"
    and step_op: "inv s \<Longrightarrow> step s i = (s', x) \<Longrightarrow> op_of s i = Some j \<Longrightarrow> astep (abs s) j = (abs s', x)"
begin

lemma run_stutters:
  "inv s \<Longrightarrow> run step s is = (s', xs) \<Longrightarrow>
     \<exists>ys. run astep (abs s) (ops_along step op_of s is) = (abs s', ys) \<and>
       filter (\<lambda>y. y \<noteq> quiet) ys = filter (\<lambda>x. x \<noteq> quiet) xs"
proof (induction "is" arbitrary: s xs)
  case Nil
  then show ?case by simp
next
  case (Cons i "is")
  from Cons.prems(2) obtain t x zs where
    t: "step s i = (t, x)" and zs: "run step t is = (s', zs)" and xs: "xs = x # zs"
    by (rule run_ConsE)
  have "inv t" using step_keeps [OF Cons.prems(1) t] .
  from Cons.IH [OF this zs] obtain ys where
    js: "run astep (abs t) (ops_along step op_of t is) = (abs s', ys)"
      "filter (\<lambda>y. y \<noteq> quiet) ys = filter (\<lambda>x. x \<noteq> quiet) zs" by blast
  show ?case
  proof (cases "op_of s i")
    case None
    then show ?thesis using step_silent [OF Cons.prems(1) t] js xs t by auto
  next
    case (Some j)
    from step_op [OF Cons.prems(1) t this] have "run astep (abs s) (j # ops_along step op_of t is) = (abs s', x # ys)"
      using js(1) by simp
    then show ?thesis using js(2) xs t Some by (intro exI [of _ "x # ys"]) simp
  qed
qed

end

subsection \<open>Bounded rings\<close>

text \<open>
  The newest \<open>n\<close> elements of a list, oldest first: what a ring of capacity \<open>n\<close> holds after
  the pushes of the list.
\<close>

definition newest :: "nat \<Rightarrow> 'a list \<Rightarrow> 'a list" where
  "newest n xs = drop (length xs - n) xs"

lemma newest_length: "length (newest n xs) = min n (length xs)"
  by (simp add: newest_def)

lemma newest_all [simp]: "length xs \<le> n \<Longrightarrow> newest n xs = xs"
  by (simp add: newest_def)

lemma newest_0 [simp]: "newest 0 xs = []"
  by (simp add: newest_def)

lemma newest_set: "set (newest n xs) \<subseteq> set xs"
  by (simp add: newest_def set_drop_subset)

lemma newest_newest_snoc: "newest n (newest n xs @ [x]) = newest n (xs @ [x])"
  by (cases "n \<le> length xs") (auto simp: newest_def Suc_diff_le)

lemma newest_newest_append: "newest n (newest n xs @ ys) = newest n (xs @ ys)"
proof (induction ys rule: rev_induct)
  case Nil
  then show ?case by (simp add: newest_length)
next
  case (snoc y ys)
  then show ?case
    using newest_newest_snoc [of n "newest n xs @ ys" y] newest_newest_snoc [of n "xs @ ys" y] by simp
qed

lemma newest_map: "newest n (map f xs) = map f (newest n xs)"
  by (simp add: newest_def drop_map)

lemma sorted_wrt_newest: "sorted_wrt P xs \<Longrightarrow> sorted_wrt P (newest n xs)"
  by (simp add: newest_def sorted_wrt_drop)

text \<open>
  The interface of a ring: one push operation, the elements oldest first, a capacity. A push
  appends and, when the ring overflows, forgets the oldest.
\<close>

locale bounded_ring =
  fixes push :: "'r \<Rightarrow> 'a \<Rightarrow> 'r"
    and items :: "'r \<Rightarrow> 'a list"
    and limit :: "'r \<Rightarrow> nat"
    and ok :: "'r \<Rightarrow> bool"
  assumes push_ok: "ok r \<Longrightarrow> ok (push r x)"
    and push_limit: "ok r \<Longrightarrow> limit (push r x) = limit r"
    and push_items: "ok r \<Longrightarrow> items (push r x) = newest (limit r) (items r @ [x])"
    and items_fit: "ok r \<Longrightarrow> length (items r) \<le> limit r"
begin

lemma pushes_ok: "ok r \<Longrightarrow> ok (foldl push r xs) \<and> limit (foldl push r xs) = limit r"
  by (induction xs arbitrary: r) (auto simp: push_ok push_limit)

lemma pushes_items: "ok r \<Longrightarrow> items (foldl push r xs) = newest (limit r) (items r @ xs)"
proof (induction xs rule: rev_induct)
  case Nil
  then show ?case by (simp add: items_fit)
next
  case (snoc x xs)
  have ok: "ok (foldl push r xs)" and lim: "limit (foldl push r xs) = limit r"
    using pushes_ok snoc.prems by blast+
  have "items (foldl push r (xs @ [x])) = newest (limit r) (items (foldl push r xs) @ [x])"
    using push_items [OF ok] lim by simp
  also have "\<dots> = newest (limit r) ((items r @ xs) @ [x])"
    using snoc by (simp add: newest_newest_snoc del: append_assoc)
  finally show ?case by simp
qed

lemma pushes_bounded: "ok r \<Longrightarrow> length (items (foldl push r xs)) \<le> limit r"
  using pushes_ok [of r xs] items_fit [of "foldl push r xs"] by simp

end

subsection \<open>I/O errors\<close>

datatype io_kind =
    KUnexpectedEof | KTimedOut | KOther | KWouldBlock
  | KConnectionReset | KConnectionAborted | KConnectionRefused
  | KBrokenPipe | KNotConnected | KInvalidInput | KInvalidData | KAddrInUse | KOs nat

datatype io_error = IoError io_kind string

definition io_other :: "string \<Rightarrow> io_error" where
  "io_other msg = IoError KOther msg"

fun kind_of :: "io_error \<Rightarrow> io_kind" where
  "kind_of (IoError k _) = k"

fun io_message :: "io_error \<Rightarrow> string" where
  "io_message (IoError _ m) = m"

subsection \<open>Codes of the system\<close>

definition hex_char :: "32 word \<Rightarrow> char" where
  "hex_char d = ''0123456789abcdef'' ! unat (take_bit 4 d)"

text \<open>\<^verbatim>\<open>{:08x}\<close> of a 32-bit code.\<close>

definition hex8 :: "32 word \<Rightarrow> string" where
  "hex8 code = map (\<lambda>i. hex_char (drop_bit (4 * i) code)) [7, 6, 5, 4, 3, 2, 1, 0]"

end
