(* ===== verification/Auth.thy ===== *)
theory Auth
  imports Machine
begin

text \<open>
  \<^verbatim>\<open>crates/zicade-auth\<close>: the sans-I/O Negotiate handshake
  (\<^verbatim>\<open>handshake.rs\<close>), the proxy-authentication headers (\<^verbatim>\<open>header.rs\<close>)
  and the errors (\<^verbatim>\<open>error.rs\<close>). An \<^verbatim>\<open>UpstreamAuthenticator\<close> is a
  state \<open>'a\<close> with a step function, which is an argument: the implementation is SSPI. The
  base64 engine is an argument too; \<open>base64_laws\<close> states what the code relies on.
  The lemmas bound the tokens of a handshake, show when it ends, and that the headers
  round-trip.
\<close>

datatype auth_error = TooManyLegs nat | AuthRejected | AuthenticatorFailed string

text \<open>\<^verbatim>\<open>UpstreamAuthenticator::step\<close>.\<close>

type_synonym 'a authenticator = "'a \<Rightarrow> bytes option \<Rightarrow> (auth_error + bytes) \<times> 'a"

subsection \<open>The handshake\<close>

definition default_max_legs :: nat where
  "default_max_legs = 10"

datatype upstream_response = ProxyAuthRequired "bytes option" | RespSuccess | RespOther u16

datatype handshake_step = SendToken bytes | Complete

record 'a handshake =
  hs_auth :: 'a
  hs_legs :: nat
  hs_max_legs :: nat
  hs_started :: bool
  hs_done :: bool

definition hs_new :: "'a \<Rightarrow> 'a handshake" where
  "hs_new a = \<lparr>hs_auth = a, hs_legs = 0, hs_max_legs = default_max_legs,
               hs_started = False, hs_done = False\<rparr>"

definition with_max_legs :: "nat \<Rightarrow> 'a handshake \<Rightarrow> 'a handshake" where
  "with_max_legs m h = h\<lparr>hs_max_legs := m\<rparr>"

definition hs_advance ::
    "'a authenticator \<Rightarrow> 'a handshake \<Rightarrow> bytes option \<Rightarrow> 'a handshake \<times> (auth_error + handshake_step)" where
  "hs_advance astep h challenge =
     (if hs_started h \<and> challenge = None then (h, Inl AuthRejected)
      else if hs_legs h \<ge> hs_max_legs h then (h, Inl (TooManyLegs (hs_max_legs h)))
      else (case astep (hs_auth h) challenge of
              (Inl e, a') \<Rightarrow> (h\<lparr>hs_auth := a'\<rparr>, Inl e)
            | (Inr token, a') \<Rightarrow>
                (h\<lparr>hs_auth := a', hs_legs := hs_legs h + 1, hs_started := True\<rparr>, Inr (SendToken token))))"

definition on_response ::
    "'a authenticator \<Rightarrow> 'a handshake \<Rightarrow> upstream_response \<Rightarrow> 'a handshake \<times> (auth_error + handshake_step)" where
  "on_response astep h response =
     (if hs_done h then (h, Inr Complete)
      else (case response of
              RespSuccess \<Rightarrow> (h\<lparr>hs_done := True\<rparr>, Inr Complete)
            | RespOther _ \<Rightarrow> (h\<lparr>hs_done := True\<rparr>, Inr Complete)
            | ProxyAuthRequired challenge \<Rightarrow> hs_advance astep h challenge))"

lemmas handshake_defs = on_response_def hs_advance_def

subsection \<open>Bounds of the handshake\<close>

definition hs_ok :: "'a handshake \<Rightarrow> bool" where
  "hs_ok h \<longleftrightarrow> hs_legs h \<le> hs_max_legs h \<and> (hs_started h \<longleftrightarrow> hs_legs h \<noteq> 0)"

definition is_token :: "auth_error + handshake_step \<Rightarrow> bool" where
  "is_token r = (case r of Inr (SendToken _) \<Rightarrow> True | _ \<Rightarrow> False)"

lemma is_token_simps [simp]:
  "\<not> is_token (Inl e)" "\<not> is_token (Inr Complete)" "is_token (Inr (SendToken t))"
  by (simp_all add: is_token_def)

lemma hs_new_ok [simp]: "hs_ok (hs_new a)"
  by (simp add: hs_ok_def hs_new_def)

lemma with_max_legs_ok [simp]: "hs_ok (with_max_legs m (hs_new a))"
  by (simp add: hs_ok_def hs_new_def with_max_legs_def)

lemma on_response_cases:
  assumes "on_response astep h r = (h', x)"
  obtains "\<not> is_token x" and "hs_legs h' = hs_legs h" and "hs_started h' = hs_started h"
      and "hs_max_legs h' = hs_max_legs h"
    | token where "x = Inr (SendToken token)" and "hs_legs h' = Suc (hs_legs h)" and "hs_started h'"
      and "hs_max_legs h' = hs_max_legs h" and "hs_legs h < hs_max_legs h"
  using assms by (fastforce simp: handshake_defs split: if_splits upstream_response.splits sum.splits prod.splits)

interpretation hs: metered "on_response astep" hs_ok hs_legs is_token hs_max_legs for astep
proof unfold_locales
  fix h :: "'a handshake" and r h' x
  assume ok: "hs_ok h" and "on_response astep h r = (h', x)"
  then show "hs_ok h'" "hs_legs h' = hs_legs h + (if is_token x then 1 else 0)"
    "hs_max_legs h' = hs_max_legs h"
    by (auto elim!: on_response_cases simp: hs_ok_def)
qed (auto simp: hs_ok_def)

text \<open>
  However an upstream answers, a handshake asks the authenticator for at most
  \<open>max_legs\<close> tokens: over every sequence of responses the number of tokens it hands out is
  the increase of its leg counter, and the counter never passes the cap, so a looping or
  hostile upstream cannot keep it going.\<close>

theorem handshake_tokens_bounded:
  "case run (on_response astep) (with_max_legs m (hs_new a)) responses of
     (h', steps) \<Rightarrow> hs_legs h' = length (filter is_token steps) \<and> hs_legs h' \<le> m"
proof (cases "run (on_response astep) (with_max_legs m (hs_new a)) responses")
  case (Pair h' steps)
  then have "hs_legs h' = length (filter is_token steps)" and "hs_max_legs h' = m" and "hs_ok h'"
    using hs.run_meter [OF with_max_legs_ok Pair] by (simp_all add: with_max_legs_def hs_new_def)
  then show ?thesis using Pair by (simp add: hs_ok_def)
qed

text \<open>A finished handshake answers every further response with \<open>Complete\<close>.\<close>

lemma done_absorbing:
  assumes "hs_done h"
  shows "run (on_response astep) h rs = (h, map (\<lambda>_. Inr Complete) rs)"
  using assms by (induction rs) (simp_all add: on_response_def)

lemma refusal_after_token:
  "hs_started h \<Longrightarrow> \<not> hs_done h \<Longrightarrow>
     on_response astep h (ProxyAuthRequired None) = (h, Inl AuthRejected)"
  by (simp add: handshake_defs)

subsection \<open>Headers\<close>

datatype auth_scheme = SchemeNegotiate | SchemeNtlm

fun keyword :: "auth_scheme \<Rightarrow> string" where
  "keyword SchemeNegotiate = ''Negotiate''"
| "keyword SchemeNtlm = ''NTLM''"

datatype negotiate_offer_t = NotOffered | Offered auth_scheme | Challenge auth_scheme bytes

fun offer_scheme :: "negotiate_offer_t \<Rightarrow> auth_scheme option" where
  "offer_scheme NotOffered = None"
| "offer_scheme (Offered s) = Some s"
| "offer_scheme (Challenge s _) = Some s"

fun offer_challenge :: "negotiate_offer_t \<Rightarrow> bytes option" where
  "offer_challenge (Challenge _ b) = Some b"
| "offer_challenge (Offered _) = None"
| "offer_challenge NotOffered = None"

text \<open>The base64 engine: \<open>enc\<close> is \<^verbatim>\<open>STANDARD.encode\<close>, \<open>dec\<close> is \<^verbatim>\<open>STANDARD.decode(..).ok()\<close>.\<close>

type_synonym b64_encode = "bytes \<Rightarrow> string"
type_synonym b64_decode = "string \<Rightarrow> bytes option"

definition scheme_of_word :: "string \<Rightarrow> auth_scheme option" where
  "scheme_of_word w =
     (if eq_ignore_ascii_case w ''negotiate'' then Some SchemeNegotiate
      else if eq_ignore_ascii_case w ''ntlm'' then Some SchemeNtlm
      else None)"

definition parse_proxy_authenticate :: "b64_decode \<Rightarrow> string \<Rightarrow> negotiate_offer_t" where
  "parse_proxy_authenticate dec value =
     (let v = trim value;
          (first, rest) = (case split_once is_ws v of None \<Rightarrow> (v, None) | Some (a, b) \<Rightarrow> (a, Some b))
      in case scheme_of_word first of
           None \<Rightarrow> NotOffered
         | Some scheme \<Rightarrow>
             (case rest of
                None \<Rightarrow> Offered scheme
              | Some r \<Rightarrow>
                  if trim r = [] then Offered scheme
                  else (case dec (trim r) of Some b \<Rightarrow> Challenge scheme b | None \<Rightarrow> Offered scheme)))"

definition build_proxy_authorization :: "b64_encode \<Rightarrow> auth_scheme \<Rightarrow> bytes \<Rightarrow> string" where
  "build_proxy_authorization enc scheme token = keyword scheme @ '' '' @ enc token"

definition build_basic_authorization :: "b64_encode \<Rightarrow> string \<Rightarrow> string \<Rightarrow> string" where
  "build_basic_authorization enc username password = ''Basic '' @ enc (username @ '':'' @ password)"

text \<open>
  What the code relies on of the base64 engine, which RFC 4648 documents: decoding inverts
  encoding, the encoding of a non-empty string is not empty, and its alphabet has no white
  space.\<close>

definition base64_laws :: "b64_encode \<Rightarrow> b64_decode \<Rightarrow> bool" where
  "base64_laws enc dec \<longleftrightarrow>
     (\<forall>x. dec (enc x) = Some x) \<and> (\<forall>x. x \<noteq> [] \<longrightarrow> enc x \<noteq> []) \<and>
     (\<forall>x. \<forall>c \<in> set (enc x). \<not> is_ws c)"

text \<open>A concrete codec with these laws: two letters for each byte, the high half first.\<close>

definition nibble_char :: "int \<Rightarrow> char" where
  "nibble_char n = char_of (n + 65)"

definition nibble_enc :: b64_encode where
  "nibble_enc x = concat (map (\<lambda>c. [nibble_char (code_of c div 16), nibble_char (code_of c mod 16)]) x)"

fun nibble_dec :: b64_decode where
  "nibble_dec [] = Some []"
| "nibble_dec [_] = None"
| "nibble_dec (a # b # cs) =
     map_option ((#) (char_of ((code_of a - 65) * 16 + (code_of b - 65)))) (nibble_dec cs)"

lemma code_of_halves:
  "0 \<le> code_of c div 16" "code_of c div 16 < 16" "0 \<le> code_of c mod 16" "code_of c mod 16 < 16"
proof -
  have "0 \<le> code_of c" and "code_of c < 256" by simp_all
  then show "0 \<le> code_of c div 16" "code_of c div 16 < 16" "0 \<le> code_of c mod 16" "code_of c mod 16 < 16"
    by presburger+
qed

lemma nibble_char_code: "0 \<le> n \<Longrightarrow> n < 16 \<Longrightarrow> code_of (nibble_char n) = n + 65"
  by (simp add: nibble_char_def)

lemma nibble_char_not_ws: "0 \<le> n \<Longrightarrow> n < 16 \<Longrightarrow> \<not> is_ws (nibble_char n)"
  using nibble_char_code [of n] by (auto simp: is_ws_def code_of_def)

lemma nibble_dec_enc: "nibble_dec (nibble_enc x) = Some x"
proof (induction x)
  case (Cons c x)
  have "char_of ((code_of (nibble_char (code_of c div 16)) - 65) * 16
      + (code_of (nibble_char (code_of c mod 16)) - 65)) = c"
    by (simp add: nibble_char_code code_of_halves)
  with Cons show ?case by (simp add: nibble_enc_def)
qed (simp add: nibble_enc_def)

lemma nibble_laws: "base64_laws nibble_enc nibble_dec"
  unfolding base64_laws_def
proof (intro conjI allI impI ballI)
  fix x c
  assume "c \<in> set (nibble_enc x)"
  then obtain d where "c = nibble_char (code_of d div 16) \<or> c = nibble_char (code_of d mod 16)"
    by (auto simp: nibble_enc_def)
  then show "\<not> is_ws c"
    by (elim disjE) (simp_all add: nibble_char_not_ws code_of_halves)
next
  show "nibble_dec (nibble_enc x) = Some x" for x by (rule nibble_dec_enc)
next
  show "nibble_enc x \<noteq> []" if "x \<noteq> []" for x using that by (auto simp: nibble_enc_def neq_Nil_conv)
qed

lemma scheme_of_keyword [simp]: "scheme_of_word (keyword s) = Some s"
proof -
  have "scheme_of_word (keyword SchemeNegotiate) = Some SchemeNegotiate"
    and "scheme_of_word (keyword SchemeNtlm) = Some SchemeNtlm" by code_simp+
  then show ?thesis by (cases s) simp_all
qed

lemma keyword_plain: "\<forall>c \<in> set (keyword s). \<not> is_ws c"
  by (cases s) (simp_all add: is_ws_def)

lemma keyword_not_Nil [simp]: "keyword s \<noteq> []"
  by (cases s) auto

text \<open>The header of a scheme, with optional surrounding white space around its token.\<close>

lemma parse_offer_token:
  assumes "scheme_of_word w = Some s" and "\<forall>c \<in> set w. \<not> is_ws c" and "w \<noteq> []"
    and "t \<noteq> []" and "\<forall>c \<in> set t. \<not> is_ws c"
  shows "parse_proxy_authenticate dec (w @ '' '' @ t) =
     (case dec t of Some b \<Rightarrow> Challenge s b | None \<Rightarrow> Offered s)"
proof -
  have "trim (w @ '' '' @ t) = w @ '' '' @ t"
    using assms by (intro trim_id) (auto simp: hd_append)
  moreover have "split_once is_ws (w @ '' '' @ t) = Some (w, t)"
    unfolding append_Cons append_Nil by (rule split_once_found) (use assms in \<open>auto simp: is_ws_def\<close>)
  moreover have "trim t = t" by (rule trim_no_ws) (rule assms(5))
  ultimately show ?thesis using assms by (simp add: parse_proxy_authenticate_def)
qed

lemma parse_offer_bare:
  assumes "\<forall>c \<in> set w. \<not> is_ws c"
  shows "parse_proxy_authenticate dec w =
     (case scheme_of_word w of None \<Rightarrow> NotOffered | Some s \<Rightarrow> Offered s)"
  using assms
  by (cases "scheme_of_word w") (simp_all add: parse_proxy_authenticate_def trim_no_ws split_once_None [THEN iffD2])

text \<open>
  A token survives the header it travels in: the value the proxy builds for a scheme and a
  non-empty token, read as the upstream's challenge header, is that scheme with that very
  token.\<close>

theorem authorization_roundtrip:
  assumes "base64_laws enc dec" and "token \<noteq> []"
  shows "parse_proxy_authenticate dec (build_proxy_authorization enc scheme token) = Challenge scheme token"
  unfolding build_proxy_authorization_def
  using assms by (subst parse_offer_token [where s = scheme])
    (auto simp: base64_laws_def keyword_plain)

lemma authorization_roundtrip_witness:
  "parse_proxy_authenticate nibble_dec ''NTLM GBGC'' = Challenge SchemeNtlm ''ab''"
proof -
  have "build_proxy_authorization nibble_enc SchemeNtlm ''ab'' = ''NTLM GBGC''" by code_simp
  then show ?thesis
    using authorization_roundtrip [OF nibble_laws, of "''ab''" SchemeNtlm] by simp
qed

end
