(* ===== verification/Upstream_Auth.thy ===== *)
theory Upstream_Auth
  imports Auth
begin

text \<open>
  The per-connection authentication driver of
  \<^verbatim>\<open>crates/zicade-proxy/src/upstream/auth.rs\<close>, and the
  \<^verbatim>\<open>UpstreamAuth\<close> of \<^verbatim>\<open>upstream.rs\<close> it is built from. An
  \<^verbatim>\<open>AuthFactory\<close> is a value \<open>'f\<close> that an argument \<open>mk\<close> turns into a fresh
  authenticator. The warning log of a SPNEGO token under NTLM is its condition
  \<open>spnego_under_ntlm\<close>; logging itself has no effect on the result.
  The lemmas show which challenge is answered, that the keyword of the first leg is kept,
  and how many answers each mode ever gives.
\<close>

type_synonym header_list = "(string \<times> string) list"

datatype 'f upstream_auth = UaNone | UaBasic string | UaNegotiate 'f

datatype 'a auth_state =
    AsNone
  | AsBasic string bool
  | AsNegotiate "'a handshake" "auth_scheme option"

definition auth_state_new :: "('f \<Rightarrow> 'a) \<Rightarrow> 'f upstream_auth \<Rightarrow> 'a auth_state" where
  "auth_state_new mk a =
     (case a of
        UaNone \<Rightarrow> AsNone
      | UaBasic credentials \<Rightarrow> AsBasic credentials False
      | UaNegotiate factory \<Rightarrow> AsNegotiate (hs_new (mk factory)) None)"

fun initial_header :: "'a auth_state \<Rightarrow> 'a auth_state \<times> string option" where
  "initial_header (AsBasic credentials sent) = (AsBasic credentials True, Some credentials)"
| "initial_header AsNone = (AsNone, None)"
| "initial_header (AsNegotiate h s) = (AsNegotiate h s, None)"

subsection \<open>Challenges in a response's headers\<close>

definition is_tchar :: "char \<Rightarrow> bool" where
  "is_tchar c \<longleftrightarrow> is_alphanumeric c \<or> c \<in> set (''!#$%&'' @ [CHR 0x27] @ ''*+-.^_`|~'')"

definition scheme_name :: "string \<Rightarrow> string" where
  "scheme_name challenge = (case split_whitespace challenge of [] \<Rightarrow> [] | w # _ \<Rightarrow> w)"

definition value_challenges :: "string \<Rightarrow> string list" where
  "value_challenges v =
     filter (\<lambda>piece. scheme_name piece \<noteq> [] \<and> list_all is_tchar (scheme_name piece))
       (map trim (split_on (\<lambda>c. c = CHR '','') v))"

definition challenges :: "header_list \<Rightarrow> string list" where
  "challenges headers =
     concat (map (\<lambda>(k, v). value_challenges v) (filter (\<lambda>(k, v). k = ''proxy-authenticate'') headers))"

definition negotiate_offer :: "b64_decode \<Rightarrow> header_list \<Rightarrow> negotiate_offer_t" where
  "negotiate_offer dec headers =
     (case find (\<lambda>offer. offer \<noteq> NotOffered) (map (parse_proxy_authenticate dec) (challenges headers)) of
        Some offer \<Rightarrow> offer
      | None \<Rightarrow> NotOffered)"

definition first_leg_scheme :: "header_list \<Rightarrow> negotiate_offer_t \<Rightarrow> io_error + auth_scheme" where
  "first_leg_scheme headers offer =
     (case offer_scheme offer of
        Some advertised \<Rightarrow> Inr advertised
      | None \<Rightarrow>
          (let offered = map scheme_name (challenges headers) in
           if offered = [] then Inr SchemeNegotiate
           else Inl (io_other (''upstream offers no Negotiate/NTLM proxy auth (offered: ''
                               @ join '', '' offered @ '')''))))"

subsection \<open>Answering a 407\<close>

definition ntlmssp_signature :: bytes where
  "ntlmssp_signature = ''NTLMSSP'' @ [CHR 0x00]"

definition spnego_under_ntlm :: "auth_scheme \<Rightarrow> bytes \<Rightarrow> bool" where
  "spnego_under_ntlm scheme token \<longleftrightarrow> scheme = SchemeNtlm \<and> \<not> prefix ntlmssp_signature token"

fun show_auth_error :: "auth_error \<Rightarrow> string" where
  "show_auth_error (TooManyLegs m) = ''negotiate handshake exceeded '' @ show_nat m @ '' legs''"
| "show_auth_error AuthRejected = ''upstream rejected the negotiate credentials''"
| "show_auth_error (AuthenticatorFailed e) = ''authenticator failed: '' @ e"

definition auth_io_err :: "auth_error \<Rightarrow> io_error" where
  "auth_io_err e = io_other (''upstream negotiate handshake failed: '' @ show_auth_error e)"

definition advance_handshake ::
    "'a authenticator \<Rightarrow> 'a handshake \<Rightarrow> bytes option \<Rightarrow> 'a handshake \<times> (io_error + bytes)" where
  "advance_handshake astep h challenge =
     (case on_response astep h (ProxyAuthRequired challenge) of
        (h', Inl e) \<Rightarrow> (h', Inl (auth_io_err e))
      | (h', Inr (SendToken token)) \<Rightarrow> (h', Inr token)
      | (h', Inr Complete) \<Rightarrow>
          (h', Inl (io_other ''handshake completed while upstream still demanded auth'')))"

definition negotiate_leg ::
    "b64_encode \<Rightarrow> b64_decode \<Rightarrow> 'a authenticator \<Rightarrow> 'a handshake \<Rightarrow> auth_scheme option \<Rightarrow> header_list
     \<Rightarrow> ('a handshake \<times> auth_scheme option) \<times> (io_error + string)" where
  "negotiate_leg enc dec astep h scheme headers =
     (let offer = negotiate_offer dec headers in
      case (case scheme of Some learned \<Rightarrow> Inr learned | None \<Rightarrow> first_leg_scheme headers offer) of
        Inl e \<Rightarrow> ((h, scheme), Inl e)
      | Inr kw \<Rightarrow>
          (case advance_handshake astep h (offer_challenge offer) of
             (h', Inl e) \<Rightarrow> ((h', Some kw), Inl e)
           | (h', Inr token) \<Rightarrow> ((h', Some kw), Inr (build_proxy_authorization enc kw token))))"

fun on_challenge ::
    "b64_encode \<Rightarrow> b64_decode \<Rightarrow> 'a authenticator \<Rightarrow> 'a auth_state \<Rightarrow> header_list
     \<Rightarrow> 'a auth_state \<times> (io_error + string)" where
  "on_challenge enc dec astep AsNone headers =
     (AsNone, Inl (io_other ''upstream demanded proxy auth but none is configured''))"
| "on_challenge enc dec astep (AsBasic credentials sent) headers =
     (if sent then (AsBasic credentials sent, Inl (io_other ''upstream rejected Basic proxy credentials''))
      else (AsBasic credentials True, Inr credentials))"
| "on_challenge enc dec astep (AsNegotiate h scheme) headers =
     (case negotiate_leg enc dec astep h scheme headers of
        ((h', scheme'), r) \<Rightarrow> (AsNegotiate h' scheme', r))"

subsection \<open>How many answers a connection gives\<close>

text \<open>The answers given so far, and the most there can be.\<close>

fun answers :: "'a auth_state \<Rightarrow> nat" where
  "answers AsNone = 0"
| "answers (AsBasic _ sent) = (if sent then 1 else 0)"
| "answers (AsNegotiate h _) = hs_legs h"

fun answer_cap :: "'a auth_state \<Rightarrow> nat" where
  "answer_cap AsNone = 0"
| "answer_cap (AsBasic _ _) = 1"
| "answer_cap (AsNegotiate h _) = hs_max_legs h"

fun auth_ok :: "'a auth_state \<Rightarrow> bool" where
  "auth_ok (AsNegotiate h _) = hs_ok h"
| "auth_ok _ = True"

lemma auth_state_new_ok [simp]: "auth_ok (auth_state_new mk a)"
  by (cases a) (simp_all add: auth_state_new_def)

lemma initial_header_ok [simp]: "auth_ok (fst (initial_header s)) = auth_ok s"
  by (cases s) simp_all

lemma advance_handshake_ok:
  assumes "hs_ok h" and "advance_handshake astep h c = (h', x)"
  shows "hs_ok h' \<and> hs_legs h' = hs_legs h + (if is_ok x then 1 else 0) \<and> hs_max_legs h' = hs_max_legs h"
proof -
  obtain y where y: "on_response astep h (ProxyAuthRequired c) = (h', y)"
    using assms(2) by (auto simp: advance_handshake_def split: prod.splits sum.splits handshake_step.splits)
  then have "is_ok x = is_token y"
    using assms(2) by (auto simp: advance_handshake_def split: sum.splits handshake_step.splits)
  moreover have "hs_ok h'" and "hs_legs h' = hs_legs h + (if is_token y then 1 else 0)"
    and "hs_max_legs h' = hs_max_legs h"
    using hs.step_keeps [OF assms(1) y] hs.step_meter [OF assms(1) y] hs.step_cap [OF assms(1) y] by simp_all
  ultimately show ?thesis by simp
qed

lemma negotiate_leg_ok:
  assumes "hs_ok h" and "negotiate_leg enc dec astep h s hdrs = ((h', s'), x)"
  shows "hs_ok h' \<and> hs_legs h' = hs_legs h + (if is_ok x then 1 else 0) \<and> hs_max_legs h' = hs_max_legs h"
  using assms advance_handshake_ok [OF assms(1)]
  by (auto simp: negotiate_leg_def Let_def split: sum.splits prod.splits option.splits)

interpretation challenge_answers: metered "on_challenge enc dec astep" auth_ok answers is_ok answer_cap
  for enc dec and astep
proof unfold_locales
  fix s :: "'a auth_state" and hdrs s' x
  assume ok: "auth_ok s" and step: "on_challenge enc dec astep s hdrs = (s', x)"
  show "auth_ok s'" "answers s' = answers s + (if is_ok x then 1 else 0)" "answer_cap s' = answer_cap s"
    using ok step negotiate_leg_ok [of _ enc dec astep]
    by (cases s; fastforce split: if_splits prod.splits)+
next
  show "answers s \<le> answer_cap s" if "auth_ok s" for s :: "'a auth_state"
    using that by (cases s) (auto simp: hs_ok_def)
qed

text \<open>The most challenges a fresh connection answers after its preemptive header.\<close>

fun max_answers :: "'f upstream_auth \<Rightarrow> nat" where
  "max_answers UaNone = 0"
| "max_answers (UaBasic _) = 0"
| "max_answers (UaNegotiate _) = 10"

lemma answers_bounded_run:
  assumes "run (on_challenge enc dec astep) (fst (initial_header (auth_state_new mk a))) legs = (s', xs)"
  shows "length (filter is_ok xs) \<le> max_answers a"
proof -
  let ?s = "fst (initial_header (auth_state_new mk a))"
  have "auth_ok ?s" by simp
  then have "answers ?s + length (filter is_ok xs) \<le> answer_cap ?s"
    using assms by (rule challenge_answers.run_hits_bounded)
  then show ?thesis
    by (cases a) (simp_all add: auth_state_new_def hs_new_def default_max_legs_def)
qed

text \<open>
  Whatever challenges an upstream sends on one connection, the proxy answers at most ten of
  them under Negotiate/NTLM and none under Basic (whose credentials went out with the first
  request) or without authentication: rejected credentials are never sent a second time and
  no handshake loops.\<close>

theorem challenge_answers_bounded:
  "length (filter is_ok (snd (run (on_challenge enc dec astep)
      (fst (initial_header (auth_state_new mk a))) legs))) \<le> max_answers a"
  using answers_bounded_run [where s' = "fst _" and xs = "snd _"] by (metis prod.collapse)

subsection \<open>The keyword of a connection\<close>

definition under_keyword :: "b64_encode \<Rightarrow> auth_scheme \<Rightarrow> io_error + string \<Rightarrow> bool" where
  "under_keyword enc kw r = (\<forall>v. r = Inr v \<longrightarrow> (\<exists>token. v = build_proxy_authorization enc kw token))"

definition learned :: "auth_scheme \<Rightarrow> 'a auth_state \<Rightarrow> bool" where
  "learned kw s = (\<exists>h. s = AsNegotiate h (Some kw))"

lemma negotiate_leg_learned:
  assumes "negotiate_leg enc dec astep h scheme hdrs = ((h', s'), x)"
    and "scheme = Some kw \<or> scheme = None \<and> first_leg_scheme hdrs (negotiate_offer dec hdrs) = Inr kw"
  shows "s' = Some kw \<and> under_keyword enc kw x"
  using assms
  by (auto simp: negotiate_leg_def Let_def under_keyword_def split: sum.splits prod.splits option.splits)

interpretation keyword_kept: answering "on_challenge enc dec astep" "learned kw" "under_keyword enc kw"
  for enc dec and astep and kw
proof unfold_locales
  fix s :: "'a auth_state" and hdrs s' x
  assume "learned kw s" and step: "on_challenge enc dec astep s hdrs = (s', x)"
  then obtain h where s: "s = AsNegotiate h (Some kw)" by (auto simp: learned_def)
  obtain h' sc where leg: "negotiate_leg enc dec astep h (Some kw) hdrs = ((h', sc), x)"
    and s': "s' = AsNegotiate h' sc"
    using step s by (auto split: prod.splits)
  from negotiate_leg_learned [OF leg] s' show "learned kw s'" "under_keyword enc kw x"
    by (auto simp: learned_def)
qed

text \<open>
  Every answer of one connection is a token under the same keyword, the one the first 407
  advertised (Negotiate where it advertised nothing), whatever later 407s name: the proxy
  never switches keywords in the middle of a handshake.\<close>

theorem keyword_stable:
  assumes "first_leg_scheme hdrs (negotiate_offer dec hdrs) = Inr kw"
    and "run (on_challenge enc dec astep) (AsNegotiate h None) (hdrs # later) = (s', xs)"
    and "Inr v \<in> set xs"
  shows "\<exists>token. v = build_proxy_authorization enc kw token"
proof -
  from assms(2) obtain t x ys where
    step: "on_challenge enc dec astep (AsNegotiate h None) hdrs = (t, x)"
    and rest: "run (on_challenge enc dec astep) t later = (s', ys)" and xs: "xs = x # ys"
    by (rule run_ConsE)
  obtain h' sc where leg: "negotiate_leg enc dec astep h None hdrs = ((h', sc), x)" and t: "t = AsNegotiate h' sc"
    using step by (auto split: prod.splits)
  from negotiate_leg_learned [OF leg] assms(1) t have "learned kw t" and x: "under_keyword enc kw x"
    by (auto simp: learned_def)
  then have "\<forall>y \<in> set ys. under_keyword enc kw y"
    using keyword_kept.run_good [OF _ rest] by blast
  with x xs assms(3) show ?thesis by (auto simp: under_keyword_def)
qed

text \<open>Two legs against a gateway that names NTLM first and Negotiate second.\<close>

definition counting_auth :: "nat authenticator" where
  "counting_auth n challenge = (Inr (replicate (Suc n) (CHR ''t'')), Suc n)"

lemma keyword_stable_witness:
  "\<exists>token. ''NTLM HEHE'' = build_proxy_authorization nibble_enc SchemeNtlm token"
proof (rule keyword_stable)
  let ?hdrs = "[(''proxy-authenticate'', ''Basic realm=x, NTLM'')]"
  let ?later = "[[(''proxy-authenticate'', ''Negotiate GBGC'')]]"
  show "first_leg_scheme ?hdrs (negotiate_offer nibble_dec ?hdrs) = Inr SchemeNtlm" by code_simp
  show "run (on_challenge nibble_enc nibble_dec counting_auth) (AsNegotiate (hs_new 0) None) (?hdrs # ?later)
      = (AsNegotiate \<lparr>hs_auth = 2, hs_legs = 2, hs_max_legs = 10, hs_started = True, hs_done = False\<rparr>
           (Some SchemeNtlm), [Inr ''NTLM HE'', Inr ''NTLM HEHE''])"
    by code_simp
qed simp

subsection \<open>No offer is masked\<close>

text \<open>Every Negotiate/NTLM offer in the headers, read without looking at what else they hold.\<close>

definition all_offers :: "b64_decode \<Rightarrow> header_list \<Rightarrow> negotiate_offer_t list" where
  "all_offers dec headers =
     filter (\<lambda>offer. offer \<noteq> NotOffered)
       (map (parse_proxy_authenticate dec)
         (concat (map (\<lambda>(k, v). split_on (\<lambda>c. c = CHR '','') v)
           (filter (\<lambda>(k, v). k = ''proxy-authenticate'') headers))))"

lemma trim_head_not_ws: "trim s \<noteq> [] \<Longrightarrow> \<not> is_ws (hd (trim s))"
  unfolding trim_def by (rule trim_matches_hd)

text \<open>The first word, as the two ways of the code to cut it off see it.\<close>

lemma first_word:
  assumes "trim s \<noteq> []"
  shows "(case split_once is_ws (trim s) of None \<Rightarrow> trim s | Some (a, b) \<Rightarrow> a) = scheme_name (trim s)"
proof (cases "split_once is_ws (trim s)")
  case None
  then have "\<forall>c \<in> set (trim s). \<not> is_ws c" by (simp add: split_once_None)
  then show ?thesis using None assms by (simp add: scheme_name_def split_whitespace_word)
next
  case (Some ab)
  obtain a b where ab: "ab = (a, b)" by fastforce
  with Some obtain c where t: "trim s = a @ c # b" and c: "is_ws c" and a: "\<forall>x \<in> set a. \<not> is_ws x"
    by (auto elim: split_once_Some)
  then have "a \<noteq> []" using trim_head_not_ws [OF assms] by (cases a) auto
  then have "split_whitespace (trim s) = a # split_whitespace b"
    unfolding t using a c by (simp add: split_whitespace_space split_whitespace_word)
  then show ?thesis using Some ab by (simp add: scheme_name_def)
qed

lemma lowercase_letter_tchar: "is_lower (to_lower_char c) \<Longrightarrow> is_tchar c"
  by (auto simp: to_lower_char_def is_tchar_def is_alphanumeric_def split: if_splits)

lemma scheme_word_tchar:
  assumes "scheme_of_word w = Some s"
  shows "w \<noteq> [] \<and> list_all is_tchar w"
proof -
  have "\<forall>c \<in> set ''negotiate''. is_lower c" and "\<forall>c \<in> set ''ntlm''. is_lower c" by code_simp+
  moreover have "to_ascii_lowercase w = ''negotiate'' \<or> to_ascii_lowercase w = ''ntlm''"
    using assms by (auto simp: scheme_of_word_def eq_ignore_ascii_case_def to_ascii_lowercase_def
        to_lower_char_def is_upper_def code_of_def split: if_splits)
  ultimately have "\<forall>c \<in> set (to_ascii_lowercase w). is_lower c" and "w \<noteq> []"
    by (auto, simp_all add: to_ascii_lowercase_def)
  then show ?thesis
    by (auto simp: list_all_iff to_ascii_lowercase_def intro: lowercase_letter_tchar)
qed

lemma offer_not_filtered:
  assumes "parse_proxy_authenticate dec p \<noteq> NotOffered"
  shows "scheme_name (trim p) \<noteq> [] \<and> list_all is_tchar (scheme_name (trim p))"
proof -
  have "trim p \<noteq> []"
  proof
    assume "trim p = []"
    moreover have "scheme_of_word [] = None" by code_simp
    ultimately show False
      using assms by (simp add: parse_proxy_authenticate_def split_once_def)
  qed
  note w = first_word [OF this]
  obtain s where "scheme_of_word (scheme_name (trim p)) = Some s"
    using assms unfolding parse_proxy_authenticate_def Let_def w [symmetric]
    by (auto split: option.splits prod.splits if_splits)
  then show ?thesis by (rule scheme_word_tchar)
qed

lemma parse_trim [simp]: "parse_proxy_authenticate dec (trim p) = parse_proxy_authenticate dec p"
  by (simp add: parse_proxy_authenticate_def)

lemma value_challenges_offers:
  "filter (\<lambda>x. x \<noteq> NotOffered) (map (parse_proxy_authenticate dec) (value_challenges v)) =
   filter (\<lambda>x. x \<noteq> NotOffered) (map (parse_proxy_authenticate dec) (split_on (\<lambda>c. c = CHR '','') v))"
proof -
  have "filter (\<lambda>x. x \<noteq> NotOffered) (map (parse_proxy_authenticate dec)
      (filter (\<lambda>piece. scheme_name piece \<noteq> [] \<and> list_all is_tchar (scheme_name piece)) (map trim ps))) =
    filter (\<lambda>x. x \<noteq> NotOffered) (map (parse_proxy_authenticate dec) ps)" for ps
    by (induction ps) (use offer_not_filtered in auto)
  then show ?thesis by (simp add: value_challenges_def)
qed

lemma find_filter_hd: "find P xs = (case filter P xs of [] \<Rightarrow> None | x # _ \<Rightarrow> Some x)"
  by (induction xs) auto

text \<open>
  The scheme the proxy can answer is never masked by one it cannot: the offer it acts on is
  the first Negotiate or NTLM challenge of all the proxy-authenticate values, wherever it
  stands among other schemes and their parameters, in one comma-separated value or several
  headers, and it finds none only where there is none.\<close>

theorem offer_not_masked:
  "negotiate_offer dec headers =
     (case all_offers dec headers of [] \<Rightarrow> NotOffered | offer # _ \<Rightarrow> offer)"
proof -
  have "filter (\<lambda>x. x \<noteq> NotOffered) (map (parse_proxy_authenticate dec) (challenges headers)) = all_offers dec headers"
    by (simp add: challenges_def all_offers_def map_concat filter_concat comp_def case_prod_unfold
        value_challenges_offers)
  then show ?thesis
    by (simp add: negotiate_offer_def find_filter_hd split: list.split)
qed

text \<open>
  Commas inside a quoted parameter separate pieces too, so the text of a Basic realm can
  pass for an NTLM offer.\<close>

lemma quoted_comma_offer:
  "offer_scheme (negotiate_offer dec [(''proxy-authenticate'', ''Basic realm=\"a, NTLM b\"'')]) = Some SchemeNtlm"
proof -
  have "challenges [(''proxy-authenticate'', ''Basic realm=\"a, NTLM b\"'')] = [''Basic realm=\"a'', ''NTLM b\"'']"
    by code_simp
  moreover have "parse_proxy_authenticate dec ''Basic realm=\"a'' = NotOffered"
    using parse_offer_token [of "''Basic''" _ "''realm=''" dec] by code_simp
  moreover have "scheme_of_word ''NTLM'' = Some SchemeNtlm" by code_simp
  then have "parse_proxy_authenticate dec (''NTLM'' @ '' '' @ ''b\"'') =
      (case dec ''b\"'' of Some b \<Rightarrow> Challenge SchemeNtlm b | None \<Rightarrow> Offered SchemeNtlm)"
    by (rule parse_offer_token) (simp_all add: is_ws_def)
  ultimately show ?thesis by (simp add: negotiate_offer_def split: option.split)
qed

end
