(* ===== verification/Wire.thy ===== *)
theory Wire
  imports Upstream_Auth
begin

text \<open>
  The raw HTTP/1.1 helpers of \<^verbatim>\<open>crates/zicade-proxy/src/upstream/wire.rs\<close>, on a
  model of the \<^verbatim>\<open>TcpStream\<close> they read: the segments the peer will deliver, and
  what follows the last one (end of stream, an error, or silence until the caller's
  deadline). A theorem for every \<open>socket\<close> is one for every peer and every way the network
  splits its bytes. Bytes are characters; a response head is read as the sources' lossy
  UTF-8 reads it on ASCII heads.
  The lemmas show that each helper consumes exactly the bytes of its message, whatever the
  segmentation, and the limits it stops at.
\<close>

subsection \<open>Sockets\<close>

datatype rx_end = EndEof | EndErr io_error | EndStall

record socket =
  sk_segs :: "bytes list"
  sk_end :: rx_end
  sk_writes :: "io_error option list"
  sk_sent :: "bytes list"

text \<open>
  The outcome of an asynchronous operation: a value, an error, or no progress before the
  deadline that the caller of the whole conversation sets.\<close>

datatype 'a outcome = Done 'a | Failed io_error | Stalled

fun bind_io :: "'a outcome \<times> socket \<Rightarrow> ('a \<Rightarrow> socket \<Rightarrow> 'b outcome \<times> socket) \<Rightarrow> 'b outcome \<times> socket" where
  "bind_io (Done a, s) f = f a s"
| "bind_io (Failed e, s) f = (Failed e, s)"
| "bind_io (Stalled, s) f = (Stalled, s)"

definition rx_bytes :: "socket \<Rightarrow> bytes" where
  "rx_bytes s = concat (sk_segs s)"

text \<open>
  \<open>read k\<close> is one \<^verbatim>\<open>stream.read\<close> into a buffer of \<open>k > 0\<close> bytes: part of the first
  segment that is not empty, or nothing at the end of the stream.\<close>

fun skip_empty :: "bytes list \<Rightarrow> bytes list" where
  "skip_empty [] = []"
| "skip_empty (w # ws) = (if w = [] then skip_empty ws else w # ws)"

definition read :: "nat \<Rightarrow> socket \<Rightarrow> bytes outcome \<times> socket" where
  "read k s =
     (case skip_empty (sk_segs s) of
        w # ws \<Rightarrow> (Done (take k w), s\<lparr>sk_segs := (if length w \<le> k then ws else drop k w # ws)\<rparr>)
      | [] \<Rightarrow> ((case sk_end s of EndEof \<Rightarrow> Done [] | EndErr e \<Rightarrow> Failed e | EndStall \<Rightarrow> Stalled),
               s\<lparr>sk_segs := []\<rparr>))"

definition eof_error :: "string \<Rightarrow> io_error" where
  "eof_error msg = IoError KUnexpectedEof msg"

text \<open>\<open>write_all\<close> records what was sent; the head of \<open>sk_writes\<close> is the fate of the next write.\<close>

definition write_all :: "socket \<Rightarrow> bytes \<Rightarrow> unit outcome \<times> socket" where
  "write_all s b =
     (case sk_writes s of
        Some e # ws \<Rightarrow> (Failed e, s\<lparr>sk_writes := ws, sk_sent := sk_sent s @ [b]\<rparr>)
      | None # ws \<Rightarrow> (Done (), s\<lparr>sk_writes := ws, sk_sent := sk_sent s @ [b]\<rparr>)
      | [] \<Rightarrow> (Done (), s\<lparr>sk_sent := sk_sent s @ [b]\<rparr>))"

text \<open>
  What \<^verbatim>\<open>try_read\<close> answers depends on what has arrived by then, which a \<open>socket\<close> does not
  say: it is all that the peer will ever send. So the answer, the number of bytes read or an
  error, is the argument; one that would block leaves open what the peer sends later.\<close>

type_synonym try_read = "io_error + nat"

definition is_idle_and_open :: "try_read \<Rightarrow> bool" where
  "is_idle_and_open answer \<longleftrightarrow> (case answer of Inl e \<Rightarrow> kind_of e = KWouldBlock | Inr _ \<Rightarrow> False)"

text \<open>\<open>await_response\<close> peeks: it consumes nothing.\<close>

definition await_response :: "socket \<Rightarrow> unit outcome \<times> socket" where
  "await_response s =
     (case skip_empty (sk_segs s) of
        w # ws \<Rightarrow> (Done (), s)
      | [] \<Rightarrow> ((case sk_end s of
                  EndEof \<Rightarrow> Failed (eof_error ''upstream closed before responding'')
                | EndErr e \<Rightarrow> Failed e | EndStall \<Rightarrow> Stalled), s))"

lemma concat_skip_empty [simp]: "concat (skip_empty ws) = concat ws"
  by (induction ws) auto

lemma skip_empty_Nil: "skip_empty ws = [] \<longleftrightarrow> concat ws = []"
  by (induction ws) auto

lemma skip_empty_Cons: "skip_empty ws = w # vs \<Longrightarrow> w \<noteq> [] \<and> concat ws = w @ concat vs"
  by (induction ws) (auto split: if_splits)

text \<open>What a read does to the byte stream, whatever its segments.\<close>

lemma read_cases:
  assumes "read k s = (r, s')" and "0 < k"
  obtains (Data) b where "r = Done b" and "b \<noteq> []" and "length b \<le> k"
      and "rx_bytes s = b @ rx_bytes s'"
      and "sk_end s' = sk_end s" and "sk_sent s' = sk_sent s" and "sk_writes s' = sk_writes s"
    | (Quiet) "rx_bytes s = []" and "rx_bytes s' = []"
      and "r = (case sk_end s of EndEof \<Rightarrow> Done [] | EndErr e \<Rightarrow> Failed e | EndStall \<Rightarrow> Stalled)"
      and "sk_end s' = sk_end s" and "sk_sent s' = sk_sent s" and "sk_writes s' = sk_writes s"
proof (cases "skip_empty (sk_segs s)")
  case Nil
  then have "rx_bytes s = []" by (simp add: rx_bytes_def skip_empty_Nil)
  moreover have "s' = s\<lparr>sk_segs := []\<rparr>"
    and "r = (case sk_end s of EndEof \<Rightarrow> Done [] | EndErr e \<Rightarrow> Failed e | EndStall \<Rightarrow> Stalled)"
    using assms(1) Nil by (simp_all add: read_def)
  ultimately show ?thesis by (intro Quiet) (simp_all add: rx_bytes_def)
next
  case (Cons w ws)
  with skip_empty_Cons [OF Cons] show ?thesis
    using assms by (intro Data [of "take k w"]) (auto simp: read_def rx_bytes_def)
qed

lemma read_progress: "read k s = (Done b, s') \<Longrightarrow> 0 < k \<Longrightarrow> b \<noteq> [] \<Longrightarrow> length (rx_bytes s') < length (rx_bytes s)"
  by (erule read_cases) (auto split: rx_end.splits)

lemma read_one:
  assumes "rx_bytes s = c # cs"
  obtains s' where "read 1 s = (Done [c], s')" and "rx_bytes s' = cs"
    and "sk_end s' = sk_end s" and "sk_sent s' = sk_sent s" and "sk_writes s' = sk_writes s"
proof -
  obtain r s' where r: "read 1 s = (r, s')" by fastforce
  have "0 < (1::nat)" by simp
  with r show ?thesis
  proof (cases rule: read_cases)
    case (Data b)
    then have "b = [c]" using assms by (cases b) auto
    with Data r assms show ?thesis by (intro that [of s']) auto
  qed (use assms in auto)
qed

subsection \<open>Response heads\<close>

definition max_head_bytes :: nat where
  "max_head_bytes = 64 * 1024"

abbreviation (input) crlf :: bytes where
  "crlf \<equiv> [CHR 0x0D, CHR 0x0A]"

text \<open>\<open>split_crlf\<close> is \<^verbatim>\<open>text.split("\r\n")\<close>.\<close>

fun split_crlf :: "bytes \<Rightarrow> bytes list" where
  "split_crlf [] = [[]]"
| "split_crlf (c # cs) =
     (case cs of
        d # ds \<Rightarrow>
          if c = CHR 0x0D \<and> d = CHR 0x0A then [] # split_crlf ds
          else (case split_crlf cs of [] \<Rightarrow> [[c]] | w # ws \<Rightarrow> (c # w) # ws)
      | [] \<Rightarrow> [[c]])"

definition head_end :: bytes where
  "head_end = crlf @ crlf"

type_synonym head = "u16 \<times> header_list"

definition parse_status :: "bytes list \<Rightarrow> u16" where
  "parse_status lines =
     (case lines of [] \<Rightarrow> 0
      | l # _ \<Rightarrow>
          (case split_whitespace l of
             _ # s # _ \<Rightarrow> (case parse_u16 s of Some n \<Rightarrow> n | None \<Rightarrow> 0)
           | _ \<Rightarrow> 0))"

definition parse_header_line :: "bytes \<Rightarrow> header_list" where
  "parse_header_line line =
     (case split_once (\<lambda>c. c = CHR '':'') line of
        None \<Rightarrow> []
      | Some (k, v) \<Rightarrow> [(to_ascii_lowercase (trim k), trim v)])"

definition parse_head :: "bytes \<Rightarrow> head" where
  "parse_head buf =
     (let lines = split_crlf buf in
      (parse_status lines,
       concat (map (\<lambda>line. if line = [] then [] else parse_header_line line) (tl lines))))"

text \<open>The loop of \<open>read_head\<close>: one byte at a time into the buffer \<open>buf\<close>.\<close>

function read_head_loop :: "bytes \<Rightarrow> socket \<Rightarrow> bytes outcome \<times> socket" where
  "read_head_loop buf s =
     (case read 1 s of
        (Done b, s') \<Rightarrow>
          if b = [] then (Failed (eof_error ''upstream closed before response head completed''), s')
          else if suffix head_end (buf @ b) then (Done (buf @ b), s')
          else if length (buf @ b) > max_head_bytes
          then (Failed (io_other ''upstream response head too large''), s')
          else read_head_loop (buf @ b) s'
      | (Failed e, s') \<Rightarrow> (Failed e, s')
      | (Stalled, s') \<Rightarrow> (Stalled, s'))"
  by auto
termination
  by (relation "measure (\<lambda>(buf, s). length (rx_bytes s))") (auto dest!: read_progress [OF sym])

declare read_head_loop.simps [simp del]

definition read_head :: "socket \<Rightarrow> head outcome \<times> socket" where
  "read_head s = bind_io (read_head_loop [] s) (\<lambda>buf s'. (Done (parse_head buf), s'))"

text \<open>A complete head: it ends with an empty line and no shorter prefix does.\<close>

definition complete_head :: "bytes \<Rightarrow> bool" where
  "complete_head h \<longleftrightarrow> suffix head_end h \<and> (\<forall>p. strict_prefix p h \<longrightarrow> \<not> suffix head_end p)"

lemma read_head_loop_complete:
  assumes "rx_bytes s = h @ rest" and "h \<noteq> []" and "suffix head_end (buf @ h)"
    and "\<And>p. strict_prefix p h \<Longrightarrow> p \<noteq> [] \<Longrightarrow> \<not> suffix head_end (buf @ p)"
    and "length buf + length h \<le> Suc max_head_bytes"
  shows "\<exists>s'. read_head_loop buf s = (Done (buf @ h), s') \<and> rx_bytes s' = rest
     \<and> sk_end s' = sk_end s \<and> sk_sent s' = sk_sent s \<and> sk_writes s' = sk_writes s"
  using assms
proof (induction h arbitrary: buf s)
  case (Cons c h)
  obtain s1 where s1: "read 1 s = (Done [c], s1)" "rx_bytes s1 = h @ rest" "sk_end s1 = sk_end s"
    "sk_sent s1 = sk_sent s" "sk_writes s1 = sk_writes s"
    using read_one [of s c "h @ rest"] Cons.prems(1) by auto
  show ?case
  proof (cases "h = []")
    case True
    with s1 Cons.prems(3) show ?thesis by (simp add: read_head_loop.simps [of buf s] del: suffix_snoc)
  next
    case False
    have "strict_prefix [c] (c # h)" using False by (simp add: strict_prefix_def)
    then have "\<not> suffix head_end (buf @ [c])" using Cons.prems(4) by blast
    moreover have "length (buf @ [c]) \<le> max_head_bytes" using Cons.prems(5) False by (cases h) auto
    ultimately have step: "read_head_loop buf s = read_head_loop (buf @ [c]) s1"
      using s1 by (simp add: read_head_loop.simps [of buf s] del: suffix_snoc)
    have "\<exists>s'. read_head_loop (buf @ [c]) s1 = (Done ((buf @ [c]) @ h), s') \<and> rx_bytes s' = rest
        \<and> sk_end s' = sk_end s1 \<and> sk_sent s' = sk_sent s1 \<and> sk_writes s' = sk_writes s1"
    proof (rule Cons.IH)
      show "\<not> suffix head_end ((buf @ [c]) @ p)" if "strict_prefix p h" and "p \<noteq> []" for p
        using Cons.prems(4) [of "c # p"] that by (simp add: strict_prefix_def)
    qed (use s1 False Cons.prems in auto)
    with step s1 show ?thesis by simp
  qed
qed simp

text \<open>C10
  A response head is read exactly: when the bytes to come start with a complete head of at
  most 64 KiB and one byte, the reader returns its status and headers and leaves the socket
  at the first byte after the head, however the network split the bytes, so no byte of a
  body or of the tunnel is ever swallowed with it.\<close>

theorem read_head_exact:
  assumes "rx_bytes s = h @ rest" and "complete_head h" and "length h \<le> 65537"
  shows "\<exists>s'. read_head s = (Done (parse_head h), s') \<and> rx_bytes s' = rest \<and> sk_sent s' = sk_sent s"
proof -
  have "h \<noteq> []" using assms(2) by (auto simp: complete_head_def head_end_def)
  then obtain s' where "read_head_loop [] s = (Done h, s')" "rx_bytes s' = rest" "sk_sent s' = sk_sent s"
    using read_head_loop_complete [of s h rest "[]"] assms
    by (auto simp: complete_head_def max_head_bytes_def)
  then show ?thesis by (simp add: read_head_def)
qed

definition sample_head :: bytes where
  "sample_head = ''HTTP/1.1 200 OK'' @ crlf @ ''Via: gw'' @ crlf @ crlf"

definition sample_socket :: "bytes list \<Rightarrow> rx_end \<Rightarrow> socket" where
  "sample_socket segs e = \<lparr>sk_segs = segs, sk_end = e, sk_writes = [], sk_sent = []\<rparr>"

text \<open>Completeness of a concrete head, by looking at its prefixes.\<close>

lemma complete_head_code:
  "complete_head h \<longleftrightarrow> suffix head_end h \<and> list_all (\<lambda>n. \<not> suffix head_end (take n h)) [0..<length h]"
proof -
  have "(\<exists>p. strict_prefix p h \<and> P p) \<longleftrightarrow> (\<exists>n < length h. P (take n h))" for P
  proof
    assume "\<exists>p. strict_prefix p h \<and> P p"
    then obtain p where "strict_prefix p h" "P p" by blast
    then have "length p < length h" and "take (length p) h = p"
      by (auto simp: prefix_length_less prefix_def strict_prefix_def)
    with \<open>P p\<close> show "\<exists>n < length h. P (take n h)" by metis
  next
    assume "\<exists>n < length h. P (take n h)"
    then obtain n where "n < length h" "P (take n h)" by blast
    moreover have "strict_prefix (take n h) h"
      using \<open>n < length h\<close> by (metis length_take less_irrefl min.absorb4 strict_prefixI take_is_prefix)
    ultimately show "\<exists>p. strict_prefix p h \<and> P p" by blast
  qed
  then show ?thesis unfolding complete_head_def list_all_iff by (metis atLeastLessThan_iff atLeast0LessThan lessThan_iff set_upt)
qed

lemma read_head_exact_witness:
  "\<exists>s'. read_head (sample_socket [''HTTP/1.1 2'', ''00 OK'' @ crlf @ ''Via: gw'' @ [CHR 0x0D], [CHR 0x0A] @ crlf @ ''tunnel''] EndStall)
      = (Done (200, [(''via'', ''gw'')]), s') \<and> rx_bytes s' = ''tunnel'' \<and> sk_sent s' = []"
proof -
  let ?s = "sample_socket [''HTTP/1.1 2'', ''00 OK'' @ crlf @ ''Via: gw'' @ [CHR 0x0D], [CHR 0x0A] @ crlf @ ''tunnel''] EndStall"
  have "rx_bytes ?s = sample_head @ ''tunnel''" by code_simp
  moreover have "complete_head sample_head" unfolding complete_head_code by code_simp
  moreover have "length sample_head \<le> 65537" by (simp add: sample_head_def)
  ultimately have "\<exists>s'. read_head ?s = (Done (parse_head sample_head), s') \<and> rx_bytes s' = ''tunnel'' \<and> sk_sent s' = sk_sent ?s"
    by (rule read_head_exact)
  moreover have "parse_head sample_head = (200, [(''via'', ''gw'')])" by code_simp
  ultimately show ?thesis by (simp add: sample_socket_def)
qed

subsection \<open>Bodies between legs\<close>

definition header :: "header_list \<Rightarrow> string \<Rightarrow> string option" where
  "header headers name = map_option snd (find (\<lambda>(k, v). k = name) headers)"

definition content_length :: "header_list \<Rightarrow> nat option" where
  "content_length headers = Option.bind (header headers ''content-length'') parse_usize"

definition is_chunked :: "header_list \<Rightarrow> bool" where
  "is_chunked headers =
     (case header headers ''transfer-encoding'' of
        Some v \<Rightarrow> contains ''chunked'' (to_ascii_lowercase v)
      | None \<Rightarrow> False)"

definition max_drain_bytes :: nat where
  "max_drain_bytes = 1024 * 1024"

definition too_large :: io_error where
  "too_large = io_other ''upstream non-final response body too large''"

function discard_loop :: "nat \<Rightarrow> socket \<Rightarrow> unit outcome \<times> socket" where
  "discard_loop left s =
     (if left = 0 then (Done (), s)
      else (case read (min left 8192) s of
              (Done b, s') \<Rightarrow>
                if b = [] then (Failed (eof_error ''upstream closed mid-body''), s')
                else discard_loop (left - length b) s'
            | (Failed e, s') \<Rightarrow> (Failed e, s')
            | (Stalled, s') \<Rightarrow> (Stalled, s')))"
  by auto
termination
  by (relation "measure (\<lambda>(left, s). left)") auto

declare discard_loop.simps [simp del]

definition discard :: "socket \<Rightarrow> nat \<Rightarrow> unit outcome \<times> socket" where
  "discard s len = (if len > max_drain_bytes then (Failed too_large, s) else discard_loop len s)"

text \<open>\<open>read_line\<close> stops after a line feed, and at the end of the stream with what it has.\<close>

function read_line_loop :: "bytes \<Rightarrow> socket \<Rightarrow> bytes outcome \<times> socket" where
  "read_line_loop buf s =
     (case read 1 s of
        (Done b, s') \<Rightarrow>
          if b = [] then (Done buf, s')
          else if suffix [CHR 0x0A] (buf @ b) then (Done (buf @ b), s')
          else if length (buf @ b) > max_head_bytes then (Failed (io_other ''chunk line too long''), s')
          else read_line_loop (buf @ b) s'
      | (Failed e, s') \<Rightarrow> (Failed e, s')
      | (Stalled, s') \<Rightarrow> (Stalled, s'))"
  by auto
termination
  by (relation "measure (\<lambda>(buf, s). length (rx_bytes s))") (auto dest!: read_progress [OF sym])

declare read_line_loop.simps [simp del]

definition read_line :: "socket \<Rightarrow> bytes outcome \<times> socket" where
  "read_line s = read_line_loop [] s"

definition chunk_size :: "bytes \<Rightarrow> nat option" where
  "chunk_size line = parse_hex_usize (trim (hd (split_on (\<lambda>c. c = CHR '';'') (trim line))))"

text \<open>\<open>usize::saturating_add\<close>.\<close>

definition sat_add :: "nat \<Rightarrow> nat \<Rightarrow> nat" where
  "sat_add a b = min (a + b) (2 ^ 64 - 1)"

text \<open>No helper ever puts bytes back, so each leaves a suffix of what was to come.\<close>

definition leaves :: "socket \<Rightarrow> socket \<Rightarrow> bool" where
  "leaves s s' \<longleftrightarrow> suffix (rx_bytes s') (rx_bytes s) \<and> sk_end s' = sk_end s
     \<and> sk_sent s' = sk_sent s \<and> sk_writes s' = sk_writes s"

lemma leaves_refl [simp]: "leaves s s"
  by (simp add: leaves_def)

lemma leaves_trans: "leaves s t \<Longrightarrow> leaves t u \<Longrightarrow> leaves s u"
  by (auto simp: leaves_def intro: suffix_order.trans)

lemma leaves_length: "leaves s s' \<Longrightarrow> length (rx_bytes s') \<le> length (rx_bytes s)"
  by (auto simp: leaves_def suffix_length_le)

lemma read_leaves: "read k s = (r, s') \<Longrightarrow> 0 < k \<Longrightarrow> leaves s s'"
  by (erule read_cases) (auto simp: leaves_def suffix_def)

lemma read_head_loop_leaves: "read_head_loop buf s = (r, s') \<Longrightarrow> leaves s s'"
proof (induction buf s arbitrary: r s' rule: read_head_loop.induct)
  case (1 buf s)
  then show ?case
    using read_leaves [of 1 s]
    by (subst (asm) read_head_loop.simps)
      (auto split: prod.splits outcome.splits if_splits intro: leaves_trans)
qed

lemma read_line_loop_leaves: "read_line_loop buf s = (r, s') \<Longrightarrow> leaves s s'"
proof (induction buf s arbitrary: r s' rule: read_line_loop.induct)
  case (1 buf s)
  then show ?case
    using read_leaves [of 1 s]
    by (subst (asm) read_line_loop.simps)
      (auto split: prod.splits outcome.splits if_splits intro: leaves_trans)
qed

lemma discard_loop_leaves: "discard_loop left s = (r, s') \<Longrightarrow> leaves s s'"
proof (induction left s arbitrary: r s' rule: discard_loop.induct)
  case (1 left s)
  show ?case
  proof (cases "left = 0")
    case True
    then show ?thesis using "1.prems" by (simp add: discard_loop.simps [of 0])
  next
    case False
    then have "0 < min left 8192" by simp
    with 1 False show ?thesis
      using read_leaves [of "min left 8192" s]
      by (subst (asm) (2) discard_loop.simps)
        (auto split: prod.splits outcome.splits if_splits intro: leaves_trans)
  qed
qed

lemma read_line_leaves: "read_line s = (r, s') \<Longrightarrow> leaves s s'"
  unfolding read_line_def by (rule read_line_loop_leaves)

lemma discard_leaves: "discard s n = (r, s') \<Longrightarrow> leaves s s'"
  by (auto simp: discard_def discard_loop_leaves split: if_splits)

text \<open>A line that is read without reaching the end of the stream is not empty.\<close>

lemma read_line_loop_progress:
  "read_line_loop buf s = (Done b, s') \<Longrightarrow> rx_bytes s \<noteq> [] \<Longrightarrow> length (rx_bytes s') < length (rx_bytes s)"
proof -
  assume r: "read_line_loop buf s = (Done b, s')" and "rx_bytes s \<noteq> []"
  then obtain c cs where cs: "rx_bytes s = c # cs" by (cases "rx_bytes s") auto
  then obtain s1 where s1: "read 1 s = (Done [c], s1)" "rx_bytes s1 = cs" by (rule read_one)
  then have "leaves s1 s'"
    using r read_line_loop_leaves by (subst (asm) read_line_loop.simps) (auto split: if_splits)
  with s1 cs show ?thesis using leaves_length by fastforce
qed

lemma read_line_nonempty: "read_line s = (Done b, s') \<Longrightarrow> b \<noteq> [] \<Longrightarrow> length (rx_bytes s') < length (rx_bytes s)"
proof -
  assume r: "read_line s = (Done b, s')" and b: "b \<noteq> []"
  have "rx_bytes s \<noteq> []"
  proof
    assume e: "rx_bytes s = []"
    obtain x t where x: "read 1 s = (x, t)" by fastforce
    have "0 < (1::nat)" by simp
    with x have "x = (case sk_end s of EndEof \<Rightarrow> Done [] | EndErr e \<Rightarrow> Failed e | EndStall \<Rightarrow> Stalled)"
      by (cases rule: read_cases) (use e in auto)
    with r b x show False
      by (simp add: read_line_def read_line_loop.simps [of "[]" s] split: rx_end.splits)
  qed
  with r show "length (rx_bytes s') < length (rx_bytes s)"
    unfolding read_line_def by (rule read_line_loop_progress)
qed

lemma chunk_size_Nil [simp]: "chunk_size [] = None"
  by code_simp

lemma bind_io_cong [fundef_cong]:
  assumes "x = y" and "\<And>a t. y = (Done a, t) \<Longrightarrow> f a t = g a t"
  shows "bind_io x f = bind_io y g"
proof -
  obtain r t where "y = (r, t)" by fastforce
  with assms show ?thesis by (cases r) simp_all
qed

function drain_chunked_loop :: "nat \<Rightarrow> socket \<Rightarrow> unit outcome \<times> socket" where
  "drain_chunked_loop acc s =
     bind_io (read_line s) (\<lambda>line s1.
       case chunk_size line of
         None \<Rightarrow> (Failed (io_other ''invalid chunk size''), s1)
       | Some n \<Rightarrow>
           if n = 0 then bind_io (read_line s1) (\<lambda>_ s2. (Done (), s2))
           else if sat_add acc n > max_drain_bytes then (Failed too_large, s1)
           else bind_io (discard s1 n) (\<lambda>_ s2.
                bind_io (read_line s2) (\<lambda>_ s3. drain_chunked_loop (sat_add acc n) s3)))"
  by auto
termination
proof (relation "measure (\<lambda>(acc, s). length (rx_bytes s))")
  fix acc s line s1 n u s2 crlf s3
  assume line: "read_line s = (Done line, s1)" and n: "chunk_size line = Some n"
    and "discard s1 n = (Done u, s2)" and "read_line s2 = (Done crlf, s3)"
  then have "leaves s1 s3" by (blast intro: leaves_trans discard_leaves read_line_leaves)
  moreover have "line \<noteq> []" using n by auto
  ultimately show "((sat_add acc n, s3), acc, s) \<in> measure (\<lambda>(acc, s). length (rx_bytes s))"
    using read_line_nonempty [OF line] leaves_length [of s1 s3] by simp
qed simp

declare drain_chunked_loop.simps [simp del]

definition drain_chunked :: "socket \<Rightarrow> unit outcome \<times> socket" where
  "drain_chunked s = drain_chunked_loop 0 s"

definition drain_body :: "socket \<Rightarrow> header_list \<Rightarrow> unit outcome \<times> socket" where
  "drain_body s headers =
     (case content_length headers of
        Some len \<Rightarrow> discard s len
      | None \<Rightarrow> if is_chunked headers then drain_chunked s else (Done (), s))"

subsection \<open>Draining is exact\<close>

lemma discard_loop_exact:
  "rx_bytes s = b @ rest \<Longrightarrow> length b = left \<Longrightarrow>
     \<exists>s'. discard_loop left s = (Done (), s') \<and> rx_bytes s' = rest \<and> leaves s s'"
proof (induction left s arbitrary: b rule: discard_loop.induct)
  case (1 left s)
  show ?case
  proof (cases "left = 0")
    case True
    with "1.prems" show ?thesis by (simp add: discard_loop.simps [of 0])
  next
    case False
    then have k: "0 < min left 8192" by simp
    obtain r s1 where r: "read (min left 8192) s = (r, s1)" by fastforce
    from r k show ?thesis
    proof (cases rule: read_cases)
      case (Data d)
      then have "length d \<le> left" by simp
      then obtain b' where b': "b = d @ b'"
        using Data(4) "1.prems" by (metis append_eq_append_conv_if append_take_drop_id)
      have "\<exists>s'. discard_loop (left - length d) s1 = (Done (), s') \<and> rx_bytes s' = rest \<and> leaves s1 s'"
      proof (rule "1.IH" [of "Done d" s1 d b'])
        show "rx_bytes s1 = b' @ rest" and "length b' = left - length d"
          using Data(4) "1.prems" b' by auto
      qed (use r Data False in auto)
      moreover have "discard_loop left s = discard_loop (left - length d) s1"
        using False r Data by (simp add: discard_loop.simps [of left s])
      ultimately show ?thesis using leaves_trans [OF read_leaves [OF r k]] by auto
    next
      case Quiet
      then show ?thesis using "1.prems" False by simp
    qed
  qed
qed

lemma discard_exact:
  "rx_bytes s = b @ rest \<Longrightarrow> length b \<le> max_drain_bytes \<Longrightarrow>
     \<exists>s'. discard s (length b) = (Done (), s') \<and> rx_bytes s' = rest \<and> leaves s s'"
  using discard_loop_exact [of s b rest] by (simp add: discard_def)

lemma read_line_loop_exact:
  assumes "rx_bytes s = l @ CHR 0x0A # rest" and "CHR 0x0A \<notin> set l"
    and "length buf + length l \<le> max_head_bytes"
  shows "\<exists>s'. read_line_loop buf s = (Done (buf @ l @ [CHR 0x0A]), s') \<and> rx_bytes s' = rest \<and> leaves s s'"
  using assms
proof (induction l arbitrary: buf s)
  case Nil
  then obtain s1 where s1: "read 1 s = (Done [CHR 0x0A], s1)" "rx_bytes s1 = rest"
    using read_one [of s "CHR 0x0A" rest] by auto
  have "leaves s s1" by (rule read_leaves [OF s1(1)]) simp
  with s1 show ?case by (simp add: read_line_loop.simps [of buf s])
next
  case (Cons c l)
  then have "rx_bytes s = c # l @ CHR 0x0A # rest" by simp
  then obtain s1 where s1: "read 1 s = (Done [c], s1)" "rx_bytes s1 = l @ CHR 0x0A # rest"
    by (rule read_one)
  have "leaves s s1" by (rule read_leaves [OF s1(1)]) simp
  moreover have "read_line_loop buf s = read_line_loop (buf @ [c]) s1"
    using s1 Cons.prems by (simp add: read_line_loop.simps [of buf s])
  ultimately show ?case
    using Cons.IH [OF s1(2), of "buf @ [c]"] Cons.prems leaves_trans by auto
qed

lemma read_line_exact:
  "rx_bytes s = l @ CHR 0x0A # rest \<Longrightarrow> CHR 0x0A \<notin> set l \<Longrightarrow> length l \<le> max_head_bytes \<Longrightarrow>
     \<exists>s'. read_line s = (Done (l @ [CHR 0x0A]), s') \<and> rx_bytes s' = rest \<and> leaves s s'"
  using read_line_loop_exact [of s l rest "[]"] by (simp add: read_line_def)

text \<open>
  A chunked body without trailer fields: each chunk is its size line, as the peer wrote it
  (extensions, padding and letter case included), and its data.\<close>

type_synonym chunk = "bytes \<times> bytes"

definition size_line_ok :: "bytes \<Rightarrow> nat \<Rightarrow> bool" where
  "size_line_ok l n \<longleftrightarrow> CHR 0x0A \<notin> set l \<and> length l < max_head_bytes \<and> chunk_size (l @ crlf) = Some n"

fun chunks_ok :: "chunk list \<Rightarrow> bool" where
  "chunks_ok [] = True"
| "chunks_ok ((l, d) # cs) = (size_line_ok l (length d) \<and> d \<noteq> [] \<and> chunks_ok cs)"

fun encode_chunks :: "chunk list \<Rightarrow> bytes \<Rightarrow> bytes" where
  "encode_chunks [] last_line = last_line @ crlf @ crlf"
| "encode_chunks ((l, d) # cs) last_line = l @ crlf @ d @ crlf @ encode_chunks cs last_line"

definition chunks_total :: "chunk list \<Rightarrow> nat" where
  "chunks_total cs = sum_list (map (\<lambda>(l, d). length d) cs)"

lemma read_size_line:
  assumes "rx_bytes s = l @ crlf @ rest" and "size_line_ok l n"
  shows "\<exists>s'. read_line s = (Done (l @ crlf), s') \<and> rx_bytes s' = rest \<and> leaves s s'"
  using read_line_exact [of s "l @ [CHR 0x0D]" rest] assms by (simp add: size_line_ok_def)

lemma read_crlf:
  assumes "rx_bytes s = crlf @ rest"
  shows "\<exists>s'. read_line s = (Done crlf, s') \<and> rx_bytes s' = rest \<and> leaves s s'"
  using read_line_exact [of s "[CHR 0x0D]" rest] assms by (simp add: max_head_bytes_def)

lemma drain_chunked_loop_exact:
  assumes "chunks_ok cs" and "size_line_ok z 0" and "acc + chunks_total cs \<le> max_drain_bytes"
    and "rx_bytes s = encode_chunks cs z @ rest"
  shows "\<exists>s'. drain_chunked_loop acc s = (Done (), s') \<and> rx_bytes s' = rest \<and> leaves s s'"
  using assms
proof (induction cs arbitrary: acc s)
  case Nil
  then obtain s1 where s1: "read_line s = (Done (z @ crlf), s1)" "rx_bytes s1 = crlf @ rest" "leaves s s1"
    using read_size_line [of s z "crlf @ rest" 0] by auto
  moreover obtain s2 where s2: "read_line s1 = (Done crlf, s2)" "rx_bytes s2 = rest" "leaves s1 s2"
    using read_crlf [OF s1(2)] by auto
  moreover have "leaves s s2" using leaves_trans [OF s1(3) s2(3)] .
  ultimately show ?case
    using Nil(2) by (simp add: drain_chunked_loop.simps [of acc s] size_line_ok_def)
next
  case (Cons c cs)
  obtain l d where c: "c = (l, d)" by fastforce
  let ?rest = "encode_chunks cs z @ rest"
  have l: "size_line_ok l (length d)" and d: "d \<noteq> []" and cs: "chunks_ok cs"
    using Cons.prems(1) c by auto
  have tot: "acc + length d + chunks_total cs \<le> max_drain_bytes"
    using Cons.prems(3) c by (simp add: chunks_total_def)
  then have sat: "sat_add acc (length d) = acc + length d" and fit: "length d \<le> max_drain_bytes"
    by (simp_all add: sat_add_def max_drain_bytes_def)
  obtain s1 where s1: "read_line s = (Done (l @ crlf), s1)" "rx_bytes s1 = d @ crlf @ ?rest" "leaves s s1"
    using read_size_line [of s l "d @ crlf @ ?rest"] l Cons.prems(4) c by auto
  obtain s2 where s2: "discard s1 (length d) = (Done (), s2)" "rx_bytes s2 = crlf @ ?rest" "leaves s1 s2"
    using discard_exact [OF s1(2) fit] by auto
  obtain s3 where s3: "read_line s2 = (Done crlf, s3)" "rx_bytes s3 = ?rest" "leaves s2 s3"
    using read_crlf [OF s2(2)] by auto
  have "drain_chunked_loop acc s = drain_chunked_loop (acc + length d) s3"
    using s1 s2 s3 l d sat tot by (simp add: drain_chunked_loop.simps [of acc s] size_line_ok_def)
  moreover have "\<exists>s'. drain_chunked_loop (acc + length d) s3 = (Done (), s') \<and> rx_bytes s' = rest \<and> leaves s3 s'"
    by (rule Cons.IH [OF cs Cons.prems(2) tot s3(2)])
  ultimately show ?case using s1(3) s2(3) s3(3) leaves_trans by metis
qed

text \<open>A body framed as its headers say.\<close>

definition framed :: "header_list \<Rightarrow> bytes \<Rightarrow> bool" where
  "framed headers body \<longleftrightarrow>
     (case content_length headers of
        Some len \<Rightarrow> length body = len \<and> len \<le> max_drain_bytes
      | None \<Rightarrow>
          if is_chunked headers
          then (\<exists>cs z. body = encode_chunks cs z \<and> chunks_ok cs \<and> size_line_ok z 0 \<and> chunks_total cs \<le> max_drain_bytes)
          else body = [])"

lemma framed_chunkedI:
  "content_length headers = None \<Longrightarrow> is_chunked headers \<Longrightarrow> chunks_ok cs \<Longrightarrow> size_line_ok z 0 \<Longrightarrow>
     chunks_total cs \<le> max_drain_bytes \<Longrightarrow> framed headers (encode_chunks cs z)"
  by (auto simp: framed_def)

lemma drain_body_framed:
  assumes "framed headers body" and "rx_bytes s = body @ rest"
  shows "\<exists>s'. drain_body s headers = (Done (), s') \<and> rx_bytes s' = rest \<and> leaves s s'"
proof (cases "content_length headers")
  case (Some len)
  then show ?thesis
    using assms discard_exact [OF assms(2)] by (auto simp: drain_body_def framed_def)
next
  case None
  show ?thesis
  proof (cases "is_chunked headers")
    case True
    then obtain cs z where "body = encode_chunks cs z" "chunks_ok cs" "size_line_ok z 0" "chunks_total cs \<le> max_drain_bytes"
      using assms(1) None by (auto simp: framed_def)
    then show ?thesis
      using drain_chunked_loop_exact [of cs z 0 s rest] assms(2) None True
      by (simp add: drain_body_def drain_chunked_def)
  next
    case False
    with None assms show ?thesis by (simp add: drain_body_def framed_def)
  qed
qed

text \<open>C11
  Draining the body of a 407 leaves the connection exactly at the next response: a body of
  at most 1 MiB framed by its Content-Length, by chunks (with any chunk extensions, without
  trailer fields), or absent, is consumed to its last byte and nothing after it is, however
  the network split the bytes.\<close>

theorem drain_body_exact:
  assumes "framed headers body" and "rx_bytes s = body @ rest"
  shows "\<exists>s'. drain_body s headers = (Done (), s') \<and> rx_bytes s' = rest \<and> sk_sent s' = sk_sent s"
  using drain_body_framed [OF assms] by (auto simp: leaves_def)

lemma drain_body_exact_witness:
  "\<exists>s'. drain_body (sample_socket [''3;x=1'' @ crlf @ ''ab'', ''c'' @ crlf @ ''0'' @ crlf, crlf @ ''HTTP''] EndEof)
        [(''transfer-encoding'', ''Chunked'')] = (Done (), s') \<and> rx_bytes s' = ''HTTP'' \<and> sk_sent s' = []"
proof -
  let ?s = "sample_socket [''3;x=1'' @ crlf @ ''ab'', ''c'' @ crlf @ ''0'' @ crlf, crlf @ ''HTTP''] EndEof"
  let ?h = "[(''transfer-encoding'', ''Chunked'')]"
  have "framed ?h (encode_chunks [(''3;x=1'', ''abc'')] ''0'')"
    by (rule framed_chunkedI) code_simp+
  moreover have "rx_bytes ?s = encode_chunks [(''3;x=1'', ''abc'')] ''0'' @ ''HTTP''" by code_simp
  ultimately have "\<exists>s'. drain_body ?s ?h = (Done (), s') \<and> rx_bytes s' = ''HTTP'' \<and> sk_sent s' = sk_sent ?s"
    by (rule drain_body_exact)
  then show ?thesis by (simp add: sample_socket_def)
qed

text \<open>
  Trailer fields are not drained: only one line after the last chunk is read, so the rest
  of the trailer is taken for the start of the next response.\<close>

lemma trailer_residue:
  "let (r, s') = drain_body (sample_socket [''0'' @ crlf @ ''X-Sum: 1'' @ crlf @ crlf @ ''HTTP''] EndEof)
      [(''transfer-encoding'', ''chunked'')]
   in r = Done () \<and> rx_bytes s' = crlf @ ''HTTP''"
  by code_simp

text \<open>
  The limit is on chunk data alone. Chunk extensions are read and dropped without being
  counted, so an upstream can make the proxy read more than the bound the documentation of
  \<^verbatim>\<open>drain_body\<close> promises.\<close>

definition padded_line :: "nat \<Rightarrow> bytes" where
  "padded_line n = ''1;x'' @ replicate n (CHR ''x'')"

lemma chunk_size_padded: "chunk_size (padded_line n @ crlf) = Some 1"
proof -
  have ws: "is_ws (CHR 0x0A)" "is_ws (CHR 0x0D)" "\<not> is_ws (CHR ''1'')" "\<not> is_ws (CHR ''x'')"
    by (simp_all add: is_ws_def)
  have "rev (padded_line n) = replicate n (CHR ''x'') @ ''x;1''"
    by (simp add: padded_line_def)
  then have "dropWhile is_ws (rev (padded_line n @ crlf)) = rev (padded_line n)"
    by (cases n) (simp_all add: ws)
  moreover have "dropWhile is_ws (padded_line n @ crlf) = padded_line n @ crlf"
    by (simp add: padded_line_def ws)
  ultimately have "trim (padded_line n @ crlf) = padded_line n"
    by (simp add: trim_def trim_matches_def trim_end_matches_def trim_start_matches_def)
  moreover have "split_on (\<lambda>c. c = CHR '';'') (''1'' @ CHR '';'' # (''x'' @ replicate n (CHR ''x''))) =
      split_on (\<lambda>c. c = CHR '';'') ''1'' @ split_on (\<lambda>c. c = CHR '';'') (''x'' @ replicate n (CHR ''x''))"
    by (rule split_on_append_sep) simp
  moreover have "parse_hex_usize (trim ''1'') = Some 1" by code_simp
  ultimately show ?thesis by (simp add: chunk_size_def padded_line_def)
qed

lemma size_line_padded: "n + 3 < max_head_bytes \<Longrightarrow> size_line_ok (padded_line n) 1"
  by (simp add: size_line_ok_def chunk_size_padded) (simp add: padded_line_def)

lemma padded_line_length: "length (padded_line n) = n + 3"
  by (simp add: padded_line_def)

lemma chunks_ok_replicate: "size_line_ok l (length d) \<Longrightarrow> d \<noteq> [] \<Longrightarrow> chunks_ok (replicate n (l, d))"
  by (induction n) auto

lemma encode_replicate_length:
  "length (encode_chunks (replicate n (l, d)) z) = n * (length l + length d + 4) + length z + 4"
  by (induction n) auto

lemma drain_reads_past_limit:
  "\<exists>s s'. drain_body s [(''transfer-encoding'', ''chunked'')] = (Done (), s') \<and>
     length (rx_bytes s) > length (rx_bytes s') + max_drain_bytes"
proof -
  let ?h = "[(''transfer-encoding'', ''chunked'')]"
  let ?cs = "replicate 20 (padded_line 60000, ''a'')"
  let ?b = "encode_chunks ?cs ''0''"
  have "size_line_ok (padded_line 60000) (length ''a'')"
    using size_line_padded [of 60000] by (simp add: max_head_bytes_def)
  then have "chunks_ok ?cs" by (rule chunks_ok_replicate) simp
  moreover have "chunks_total ?cs = 20"
    by (simp only: chunks_total_def sum_list_replicate map_replicate prod.case list.size) simp
  moreover have "content_length ?h = None" "is_chunked ?h" "size_line_ok ''0'' 0" by code_simp+
  ultimately have "framed ?h ?b" by (intro framed_chunkedI) (simp_all add: max_drain_bytes_def)
  moreover have "rx_bytes (sample_socket [?b] EndEof) = ?b @ []"
    by (simp add: rx_bytes_def sample_socket_def)
  ultimately obtain s' where "drain_body (sample_socket [?b] EndEof) ?h = (Done (), s')" "rx_bytes s' = []"
    using drain_body_framed by blast
  moreover have "length (rx_bytes (sample_socket [?b] EndEof)) > max_drain_bytes"
    by (simp only: rx_bytes_def sample_socket_def encode_replicate_length max_drain_bytes_def padded_line_length socket.select_convs concat.simps append_Nil2 length_append) simp
  ultimately show ?thesis by (metis add_0 list.size(3))
qed

subsection \<open>What a read head says\<close>

text \<open>The reader only ever accepts complete heads, and never takes more than its limit.\<close>

lemma read_head_loop_bounded:
  "read_head_loop buf s = (r, s') \<Longrightarrow> length buf \<le> max_head_bytes \<Longrightarrow>
     length buf + length (rx_bytes s) \<le> Suc max_head_bytes + length (rx_bytes s')"
proof (induction buf s arbitrary: r s' rule: read_head_loop.induct)
  case (1 buf s)
  obtain x t where x: "read 1 s = (x, t)" by fastforce
  have one: "0 < (1::nat)" by simp
  from x one show ?case
  proof (cases rule: read_cases)
    case (Data b)
    then have len: "length b = 1" by (cases b) auto
    show ?thesis
    proof (cases "suffix head_end (buf @ b) \<or> length (buf @ b) > max_head_bytes")
      case True
      then have "s' = t"
        using "1.prems"(1) x Data(1,2) by (subst (asm) read_head_loop.simps) (auto split: if_splits)
      then show ?thesis using Data(4) len "1.prems"(2) by simp
    next
      case False
      then have "read_head_loop (buf @ b) t = (r, s')"
        using "1.prems"(1) x Data(1,2) by (simp add: read_head_loop.simps [of buf s])
      from "1.IH" [OF x [symmetric] Data(1) Data(2) _ _ this] False
      show ?thesis using Data(4) by simp
    qed
  next
    case Quiet
    then have "s' = t"
      using "1.prems"(1) x by (subst (asm) read_head_loop.simps) (auto split: rx_end.splits)
    then show ?thesis using Quiet "1.prems"(2) by simp
  qed
qed

lemma read_head_loop_done:
  "read_head_loop buf s = (Done b, s') \<Longrightarrow>
     \<exists>h. b = buf @ h \<and> rx_bytes s = h @ rx_bytes s' \<and> suffix head_end b \<and>
       (\<forall>p. strict_prefix p h \<longrightarrow> p \<noteq> [] \<longrightarrow> \<not> suffix head_end (buf @ p))"
proof (induction buf s arbitrary: s' rule: read_head_loop.induct)
  case (1 buf s)
  obtain x t where x: "read 1 s = (x, t)" by fastforce
  have one: "0 < (1::nat)" by simp
  from x one show ?case
  proof (cases rule: read_cases)
    case (Data c)
    then obtain d where d: "c = [d]" by (cases c) auto
    show ?thesis
    proof (cases "suffix head_end (buf @ c)")
      case True
      then have "b = buf @ c" and "s' = t"
        using "1.prems" x Data(1,2) by (simp_all add: read_head_loop.simps [of buf s])
      then show ?thesis using True Data(4) d
        by (intro exI [of _ c]) (auto simp: strict_prefix_def prefix_Cons)
    next
      case False
      then have small: "\<not> length (buf @ c) > max_head_bytes" and rest: "read_head_loop (buf @ c) t = (Done b, s')"
        using "1.prems" x Data(1,2) by (simp_all add: read_head_loop.simps [of buf s] split: if_splits)
      from "1.IH" [OF x [symmetric] Data(1) Data(2) False small rest] obtain h where
        h: "b = (buf @ c) @ h" "rx_bytes t = h @ rx_bytes s'" "suffix head_end b"
        "\<forall>p. strict_prefix p h \<longrightarrow> p \<noteq> [] \<longrightarrow> \<not> suffix head_end ((buf @ c) @ p)" by blast
      have "\<not> suffix head_end (buf @ p)" if "strict_prefix p (c @ h)" "p \<noteq> []" for p
        using that h(4) False d by (cases p; cases "tl p") (auto simp: strict_prefix_def)
      then show ?thesis using h Data(4) by (intro exI [of _ "c @ h"]) simp
    qed
  next
    case Quiet
    then show ?thesis using "1.prems" x by (subst (asm) read_head_loop.simps) (auto split: rx_end.splits)
  qed
qed

lemma read_head_done:
  assumes "read_head s = (Done head, s')"
  shows "\<exists>h. rx_bytes s = h @ rx_bytes s' \<and> complete_head h \<and> length h \<le> 65537 \<and> parse_head h = head"
proof -
  obtain x t where x: "read_head_loop [] s = (x, t)" by fastforce
  with assms obtain b where b: "x = Done b" "head = parse_head b" "t = s'" by (cases x) (auto simp: read_head_def)
  from read_head_loop_done [of "[]" s b s'] x b obtain h where
    h: "b = h" "rx_bytes s = h @ rx_bytes s'" "suffix head_end b"
    "\<forall>p. strict_prefix p h \<longrightarrow> p \<noteq> [] \<longrightarrow> \<not> suffix head_end p" by auto
  moreover have "\<not> suffix head_end []" by (simp add: head_end_def)
  ultimately have "complete_head h" unfolding complete_head_def by metis
  moreover have "length h \<le> 65537"
    using read_head_loop_bounded [OF x] h(2) b(3) by (simp add: max_head_bytes_def)
  ultimately show ?thesis using h(1,2) b(2) by blast
qed

lemma read_head_leaves: "read_head s = (r, s') \<Longrightarrow> leaves s s'"
proof -
  obtain x t where x: "read_head_loop [] s = (x, t)" by fastforce
  moreover assume "read_head s = (r, s')"
  ultimately show ?thesis
    using read_head_loop_leaves [OF x] by (cases x) (auto simp: read_head_def)
qed

lemma drain_chunked_loop_leaves: "drain_chunked_loop acc s = (r, s') \<Longrightarrow> leaves s s'"
proof (induction acc s arbitrary: r s' rule: drain_chunked_loop.induct)
  case (1 acc s)
  obtain x1 s1 where x1: "read_line s = (x1, s1)" by fastforce
  show ?case
  proof (cases x1)
    case (Done line)
    show ?thesis
    proof (cases "chunk_size line")
      case None
      with Done x1 "1.prems" show ?thesis
        by (simp add: drain_chunked_loop.simps [of acc s] read_line_leaves)
    next
      case (Some n)
      obtain x2 s2 where x2: "discard s1 n = (x2, s2)" by fastforce
      obtain x3 s3 where x3: "read_line s2 = (x3, s3)" by fastforce
      obtain y3 t3 where y3: "read_line s1 = (y3, t3)" by fastforce
      note lv = read_line_leaves [OF x1] discard_leaves [OF x2] read_line_leaves [OF x3] read_line_leaves [OF y3]
      have t: "leaves s s2" "leaves s s3" "leaves s t3" using lv leaves_trans by blast+
      have ih: "drain_chunked_loop (sat_add acc n) s3 = (r, s') \<Longrightarrow> leaves s3 s'"
        if "n \<noteq> 0" "\<not> max_drain_bytes < sat_add acc n" "x2 = Done ()" "x3 = Done b" for b
        using "1.IH" [OF _ Some] x1 x2 x3 Done that by fastforce
      from "1.prems" show ?thesis
        using x1 x2 x3 y3 Done Some lv(1) t ih leaves_trans [OF t(2)]
        by (cases x2; cases x3; cases y3)
          (auto simp: drain_chunked_loop.simps [of acc s] split: if_splits)
    qed
  qed (use x1 "1.prems" in \<open>auto simp: drain_chunked_loop.simps [of acc s] read_line_leaves\<close>)
qed

lemma drain_body_leaves: "drain_body s headers = (r, s') \<Longrightarrow> leaves s s'"
  by (auto simp: drain_body_def drain_chunked_def discard_leaves drain_chunked_loop_leaves
      split: option.splits if_splits)

text \<open>
  A hostile or endless response head costs at most 64 KiB and one byte: however the read of
  a head ends, it has taken no more than that from the connection, and it never sends
  anything.\<close>

theorem read_head_bounded:
  "case read_head s of (_, s') \<Rightarrow>
     length (rx_bytes s) \<le> length (rx_bytes s') + 65537 \<and> suffix (rx_bytes s') (rx_bytes s) \<and>
     sk_sent s' = sk_sent s"
proof (cases "read_head s")
  case (Pair r s')
  obtain x t where x: "read_head_loop [] s = (x, t)" by fastforce
  then have "s' = t" using Pair by (cases x) (auto simp: read_head_def)
  with Pair show ?thesis
    using read_head_loop_bounded [OF x] read_head_leaves [OF Pair]
    by (simp add: max_head_bytes_def leaves_def)
qed

end
