(* ===== verification/Pool.thy ===== *)
theory Pool
  imports Wire "HOL-Library.Multiset"
begin

text \<open>
  Prewarmed upstream sockets: \<^verbatim>\<open>crates/zicade-proxy/src/upstream/pool.rs\<close> and
  \<^verbatim>\<open>pool/prewarm.rs\<close>. A parked stream is a handle \<open>'k\<close>; a world
  \<open>'k \<Rightarrow> try_read\<close> gives what a non-blocking read of each answers at the time of an operation,
  so the peer may close or write to a parked socket between any two operations. Takes by requests
  and the steps of the prewarm task interleave in any order (\<open>pool_step\<close>).
  The lemmas show that a taken socket is fresh and open, that no socket is handed out twice,
  how many can be parked, and the delays of the backoff.
\<close>

record pool_limits =
  pl_min_idle :: nat
  pl_idle_timeout :: millis

record 'k idle_entry =
  ie_stream :: 'k
  ie_since :: millis

record 'k upstream_pool =
  po_addr :: string
  po_config :: pool_limits
  po_idle :: "'k idle_entry list"
  po_woken :: bool
  po_prewarm :: bool

datatype refresh_result = RefreshFull millis | RefreshShort nat

definition pool_new :: "string \<Rightarrow> pool_limits \<Rightarrow> 'k upstream_pool" where
  "pool_new addr c = \<lparr>po_addr = addr, po_config = c, po_idle = [], po_woken = False, po_prewarm = False\<rparr>"

definition idle_count :: "'k upstream_pool \<Rightarrow> nat" where
  "idle_count p = length (po_idle p)"

definition young :: "millis \<Rightarrow> 'k upstream_pool \<Rightarrow> 'k idle_entry \<Rightarrow> bool" where
  "young now p e \<longleftrightarrow> now - ie_since e < pl_idle_timeout (po_config p)"

definition entry_open :: "('k \<Rightarrow> try_read) \<Rightarrow> 'k idle_entry \<Rightarrow> bool" where
  "entry_open world e \<longleftrightarrow> is_idle_and_open (world (ie_stream e))"

definition usable :: "millis \<Rightarrow> ('k \<Rightarrow> try_read) \<Rightarrow> 'k upstream_pool \<Rightarrow> 'k idle_entry \<Rightarrow> bool" where
  "usable now world p e \<longleftrightarrow> young now p e \<and> entry_open world e"

text \<open>The \<open>while let Some(entry) = idle.pop_back()\<close> loop, on the reversed idle list.\<close>

fun pop_usable :: "('e \<Rightarrow> bool) \<Rightarrow> 'e list \<Rightarrow> 'e option \<times> 'e list" where
  "pop_usable ok [] = (None, [])"
| "pop_usable ok (e # es) = (if ok e then (Some e, es) else pop_usable ok es)"

definition take_idle :: "millis \<Rightarrow> ('k \<Rightarrow> try_read) \<Rightarrow> 'k upstream_pool \<Rightarrow> 'k upstream_pool \<times> 'k option" where
  "take_idle now world p =
     (case pop_usable (usable now world p) (rev (po_idle p)) of
        (r, rest) \<Rightarrow> (p\<lparr>po_idle := rev rest\<rparr>, map_option ie_stream r))"

definition start_prewarm :: "bool \<Rightarrow> 'k upstream_pool \<Rightarrow> 'k upstream_pool" where
  "start_prewarm has_runtime p =
     (if po_prewarm p then p else if \<not> has_runtime then p else p\<lparr>po_prewarm := True\<rparr>)"

definition pool_take ::
    "bool \<Rightarrow> millis \<Rightarrow> ('k \<Rightarrow> try_read) \<Rightarrow> 'k upstream_pool \<Rightarrow> 'k upstream_pool \<times> 'k option" where
  "pool_take has_runtime now world p =
     (case take_idle now world (start_prewarm has_runtime p) of
        (p', r) \<Rightarrow> (p'\<lparr>po_woken := True\<rparr>, r))"

definition pool_refresh :: "millis \<Rightarrow> ('k \<Rightarrow> try_read) \<Rightarrow> 'k upstream_pool \<Rightarrow> 'k upstream_pool \<times> refresh_result" where
  "pool_refresh now world p =
     (let before = length (po_idle p);
          kept = filter (young now p) (po_idle p);
          expired = before - length kept;
          kept2 = filter (entry_open world) kept;
          closed_by_peer = before - expired - length kept2;
          timeout = pl_idle_timeout (po_config p)
      in (p\<lparr>po_idle := kept2\<rparr>,
          if length kept2 < pl_min_idle (po_config p) then RefreshShort closed_by_peer
          else RefreshFull (case map ie_since kept2 of
                              [] \<Rightarrow> timeout
                            | ts \<Rightarrow> timeout - (now - Min (set ts)))))"

definition pool_put :: "millis \<Rightarrow> 'k \<Rightarrow> 'k upstream_pool \<Rightarrow> 'k upstream_pool" where
  "pool_put now h p =
     (if length (po_idle p) < pl_min_idle (po_config p)
      then p\<lparr>po_idle := po_idle p @ [\<lparr>ie_stream = h, ie_since = now\<rparr>]\<rparr> else p)"

lemmas [step_defs] = pool_take_def take_idle_def start_prewarm_def pool_refresh_def pool_put_def

subsection \<open>The prewarm task\<close>

definition dial_timeout :: millis where
  "dial_timeout = 10000"

definition recheck :: millis where
  "recheck = 5000"

definition backoff_first :: millis where
  "backoff_first = 500"

definition backoff_max :: millis where
  "backoff_max = 30000"

text \<open>A \<^verbatim>\<open>Backoff\<close> is its next delay.\<close>

definition next_delay :: "millis \<Rightarrow> millis \<times> millis" where
  "next_delay nxt = (nxt, min (nxt * 2) backoff_max)"

definition backoff_reset :: "millis \<Rightarrow> millis" where
  "backoff_reset nxt = backoff_first"

text \<open>
  Where the task is in its loop: about to refresh, or dialing. Its sleeps and its waits for
  a wake-up are the actions it answers with. \<open>PwStopped\<close> is the end of the loop, when the
  pool is gone.\<close>

datatype prewarm_pc = PwRefresh | PwDialing | PwStopped

datatype prewarm_action = ActWaitWake millis | ActBackoff millis | ActDial | ActPark | ActStop

text \<open>\<open>DialOk h\<close>, \<open>DialErr\<close> and \<open>DialTimeout\<close> (after \<open>dial_timeout\<close>) are the outcomes of \<open>dial\<close>.\<close>

datatype 'k dial_result = DialOk 'k | DialErr io_error

record 'k pool_sys =
  ps_pool :: "'k upstream_pool"
  ps_alive :: bool
  ps_backoff :: millis
  ps_pc :: prewarm_pc

datatype 'k pool_op =
    OpTake bool millis "'k \<Rightarrow> try_read"
  | OpRefresh millis "'k \<Rightarrow> try_read"
  | OpDialDone millis "'k dial_result"
  | OpDropPool

datatype 'k pool_answer = AnsTaken "'k option" | AnsActions "prewarm_action list" | AnsNone

text \<open>
  Both ends of the task: after a failed upgrade of its \<^verbatim>\<open>Weak\<close> the loop ends; a
  dropped pool aborts the task wherever it is and closes the parked sockets.\<close>

fun pool_step :: "'k pool_sys \<Rightarrow> 'k pool_op \<Rightarrow> 'k pool_sys \<times> 'k pool_answer" where
  "pool_step s (OpTake rt now world) =
     (if ps_alive s
      then (case pool_take rt now world (ps_pool s) of (p', r) \<Rightarrow> (s\<lparr>ps_pool := p'\<rparr>, AnsTaken r))
      else (s, AnsNone))"
| "pool_step s (OpRefresh now world) =
     (if ps_pc s \<noteq> PwRefresh \<or> \<not> po_prewarm (ps_pool s) then (s, AnsNone)
      else if \<not> ps_alive s then (s\<lparr>ps_pc := PwStopped\<rparr>, AnsActions [ActStop])
      else (case pool_refresh now world (ps_pool s) of
              (p', RefreshFull next_expiry) \<Rightarrow>
                (s\<lparr>ps_pool := p', ps_backoff := backoff_reset (ps_backoff s)\<rparr>,
                 AnsActions [ActWaitWake (min next_expiry recheck)])
            | (p', RefreshShort closed_by_peer) \<Rightarrow>
                if closed_by_peer > 0
                then (case next_delay (ps_backoff s) of
                        (delay, b') \<Rightarrow> (s\<lparr>ps_pool := p', ps_backoff := b', ps_pc := PwDialing\<rparr>,
                                        AnsActions [ActBackoff delay, ActDial]))
                else (s\<lparr>ps_pool := p', ps_pc := PwDialing\<rparr>, AnsActions [ActDial])))"
| "pool_step s (OpDialDone now r) =
     (if ps_pc s \<noteq> PwDialing then (s, AnsNone)
      else (case r of
              DialOk h \<Rightarrow>
                if \<not> ps_alive s then (s\<lparr>ps_pc := PwStopped\<rparr>, AnsActions [ActStop])
                else (s\<lparr>ps_pool := pool_put now h (ps_pool s), ps_pc := PwRefresh\<rparr>, AnsActions [ActPark])
            | DialErr e \<Rightarrow>
                (case next_delay (ps_backoff s) of
                   (delay, b') \<Rightarrow> (s\<lparr>ps_backoff := b', ps_pc := PwRefresh\<rparr>, AnsActions [ActBackoff delay]))))"
| "pool_step s OpDropPool =
     (s\<lparr>ps_pool := (ps_pool s)\<lparr>po_idle := []\<rparr>, ps_alive := False, ps_pc := PwStopped\<rparr>, AnsNone)"

definition pool_sys_new :: "string \<Rightarrow> pool_limits \<Rightarrow> 'k pool_sys" where
  "pool_sys_new addr c =
     \<lparr>ps_pool = pool_new addr c, ps_alive = True, ps_backoff = backoff_first, ps_pc = PwRefresh\<rparr>"

subsection \<open>Taking a socket\<close>

lemma pop_usable_spec:
  "pop_usable ok es = (r, rest) \<Longrightarrow>
     (case r of
        None \<Rightarrow> rest = [] \<and> (\<forall>e \<in> set es. \<not> ok e)
      | Some e \<Rightarrow> ok e \<and> (\<exists>skipped. es = skipped @ e # rest \<and> (\<forall>x \<in> set skipped. \<not> ok x)))"
proof (induction es)
  case (Cons e es)
  show ?case
  proof (cases "ok e")
    case False
    then have "pop_usable ok es = (r, rest)" using Cons.prems by simp
    from Cons.IH [OF this] False show ?thesis
      by (cases r) (auto intro: exI [of _ "e # _"])
  qed (use Cons.prems in auto)
qed simp

text \<open>
  A taken socket has been parked for less than the idle timeout and is open and silent; it
  is the most recently parked usable one, every socket parked after it is unusable and is
  dropped with it, and nothing is taken exactly when no parked socket is usable.\<close>

theorem pool_take_spec:
  "case pool_take rt now world p of
     (p', Some h) \<Rightarrow>
       (\<exists>before since skipped.
          po_idle p = before @ \<lparr>ie_stream = h, ie_since = since\<rparr> # skipped \<and> po_idle p' = before \<and>
          now - since < pl_idle_timeout (po_config p) \<and> is_idle_and_open (world h) \<and>
          list_all (\<lambda>e. \<not> usable now world p e) skipped)
   | (p', None) \<Rightarrow> po_idle p' = [] \<and> list_all (\<lambda>e. \<not> usable now world p e) (po_idle p)"
proof -
  obtain r rest where pop: "pop_usable (usable now world p) (rev (po_idle p)) = (r, rest)" by fastforce
  have same: "usable now world (start_prewarm rt p) = usable now world p"
    by (rule ext) (simp add: usable_def young_def start_prewarm_def)
  have take: "pool_take rt now world p =
      ((start_prewarm rt p)\<lparr>po_idle := rev rest, po_woken := True\<rparr>, map_option ie_stream r)"
    using pop by (simp add: pool_take_def take_idle_def same) (simp add: start_prewarm_def)
  show ?thesis
  proof (cases r)
    case None
    with pop_usable_spec [OF pop] take show ?thesis by (simp add: list_all_iff)
  next
    case (Some e)
    with pop_usable_spec [OF pop] obtain skipped where ok: "usable now world p e"
      and es: "rev (po_idle p) = skipped @ e # rest" and sk: "\<forall>x \<in> set skipped. \<not> usable now world p x" by auto
    from es have split: "po_idle p = rev rest @ \<lparr>ie_stream = ie_stream e, ie_since = ie_since e\<rparr> # rev skipped"
      by (simp add: rev_swap)
    then show ?thesis
      using ok sk by (simp add: take Some usable_def young_def entry_open_def list_all_iff)
  qed
qed

subsection \<open>Invariants of the pool and its task\<close>

definition pool_within :: "'k upstream_pool \<Rightarrow> bool" where
  "pool_within p \<longleftrightarrow> idle_count p \<le> pl_min_idle (po_config p)"

definition sys_ok :: "'k pool_sys \<Rightarrow> bool" where
  "sys_ok s \<longleftrightarrow> pool_within (ps_pool s) \<and> backoff_first \<le> ps_backoff s \<and> ps_backoff s \<le> backoff_max"

definition delays_ok :: "'k pool_answer \<Rightarrow> bool" where
  "delays_ok a \<longleftrightarrow> (\<forall>acts d. a = AnsActions acts \<longrightarrow> ActBackoff d \<in> set acts \<longrightarrow> 500 \<le> d \<and> d \<le> 30000)"

lemma pop_usable_length: "pop_usable ok es = (r, rest) \<Longrightarrow> length rest \<le> length es"
  using pop_usable_spec [of ok es r rest] by (cases r) auto

lemma pool_take_within:
  "pool_within p \<Longrightarrow> pool_take rt now w p = (p', r) \<Longrightarrow> pool_within p' \<and> po_config p' = po_config p"
  by (auto simp: step_defs pool_within_def idle_count_def split: prod.splits if_splits
      dest!: pop_usable_length)

lemma pool_refresh_within:
  assumes "pool_within p" and "pool_refresh now w p = (p', r)"
  shows "pool_within p' \<and> po_config p' = po_config p"
proof -
  have "po_idle p' = filter (entry_open w) (filter (young now p) (po_idle p))"
    and c: "po_config p' = po_config p"
    using assms(2) by (auto simp: pool_refresh_def Let_def)
  then have "length (po_idle p') \<le> length (po_idle p)"
    by (metis le_trans length_filter_le)
  with c assms(1) show ?thesis by (simp add: pool_within_def idle_count_def)
qed

lemma pool_put_within: "pool_within p \<Longrightarrow> pool_within (pool_put now h p)"
  by (auto simp: step_defs pool_within_def idle_count_def)

lemma next_delay_ok:
  "backoff_first \<le> b \<Longrightarrow> b \<le> backoff_max \<Longrightarrow> next_delay b = (d, b') \<Longrightarrow>
     d = b \<and> backoff_first \<le> b' \<and> b' \<le> backoff_max"
  by (auto simp: next_delay_def backoff_first_def backoff_max_def)

lemma pool_step_ok:
  assumes "sys_ok s" and "pool_step s op = (s', a)"
  shows "sys_ok s' \<and> delays_ok a"
proof (cases op)
  case (OpTake rt now w)
  then show ?thesis
    using assms by (auto simp: sys_ok_def delays_ok_def split: if_splits prod.splits dest: pool_take_within)
next
  case (OpRefresh now w)
  then show ?thesis
    using assms
    by (auto simp: sys_ok_def delays_ok_def backoff_reset_def backoff_first_def backoff_max_def next_delay_def
        split: if_splits prod.splits refresh_result.splits dest: pool_refresh_within)
next
  case (OpDialDone now r)
  then show ?thesis
    using assms
    by (auto simp: sys_ok_def delays_ok_def pool_put_within backoff_first_def backoff_max_def next_delay_def
        split: if_splits prod.splits dial_result.splits)
next
  case OpDropPool
  then show ?thesis using assms by (auto simp: sys_ok_def delays_ok_def pool_within_def idle_count_def)
qed

interpretation pool: answering pool_step sys_ok delays_ok
  by unfold_locales (use pool_step_ok in blast)+

lemma pool_sys_new_ok [simp]: "sys_ok (pool_sys_new addr c)"
  by (simp add: sys_ok_def pool_sys_new_def pool_within_def idle_count_def pool_new_def
      backoff_first_def backoff_max_def)

lemma pool_step_config: "po_config (ps_pool (fst (pool_step s op))) = po_config (ps_pool s)"
  by (cases op)
    (auto simp: step_defs Let_def next_delay_def split: prod.splits refresh_result.splits dial_result.splits)

lemma run_pool_config: "run pool_step s ops = (s', as) \<Longrightarrow> po_config (ps_pool s') = po_config (ps_pool s)"
proof (induction ops arbitrary: s as)
  case (Cons op ops)
  from Cons.prems obtain t a bs where "pool_step s op = (t, a)" "run pool_step t ops = (s', bs)"
    by (rule run_ConsE)
  with Cons.IH pool_step_config [of s op] show ?case by simp
qed simp

text \<open>
  In every interleaving of takes by requests, steps of the prewarm task and drops, at most
  \<open>min_idle\<close> sockets are parked at once, and every backoff sleep of the task lasts between
  half a second and thirty seconds.\<close>

theorem pool_bounded:
  "case run pool_step (pool_sys_new addr c) ops of
     (s, outs) \<Rightarrow>
       idle_count (ps_pool s) \<le> pl_min_idle c \<and> list_all delays_ok outs"
proof (cases "run pool_step (pool_sys_new addr c) ops")
  case (Pair s as)
  then have "sys_ok s" and "\<forall>a \<in> set as. delays_ok a"
    using pool.run_keeps [OF pool_sys_new_ok Pair] pool.run_good [OF pool_sys_new_ok Pair] by auto
  moreover have "po_config (ps_pool s) = c"
    using run_pool_config [OF Pair] by (simp add: pool_sys_new_def pool_new_def)
  ultimately show ?thesis using Pair by (simp add: sys_ok_def pool_within_def list_all_iff)
qed

subsection \<open>No socket is handed out twice\<close>

fun dialed :: "'k pool_op \<Rightarrow> 'k multiset" where
  "dialed (OpDialDone _ (DialOk h)) = {#h#}"
| "dialed _ = {#}"

fun handed :: "'k pool_answer \<Rightarrow> 'k multiset" where
  "handed (AnsTaken (Some h)) = {#h#}"
| "handed _ = {#}"

definition parked :: "'k pool_sys \<Rightarrow> 'k multiset" where
  "parked s = mset (map ie_stream (po_idle (ps_pool s)))"

lemma mset_filter_stream: "mset (map ie_stream (filter P es)) \<subseteq># mset (map ie_stream es)"
  by (induction es) (auto intro: subset_mset.order_trans)

lemma pool_take_handed:
  assumes "pool_take rt now w p = (p', r)"
  shows "mset (map ie_stream (po_idle p')) + handed (AnsTaken r) \<subseteq># mset (map ie_stream (po_idle p))"
proof (cases r)
  case None
  then have "po_idle p' = []" using pool_take_spec [where rt = rt and now = now and world = w and p = p] assms by simp
  with None show ?thesis by simp
next
  case (Some h)
  then obtain before since skipped where
    "po_idle p = before @ \<lparr>ie_stream = h, ie_since = since\<rparr> # skipped" "po_idle p' = before"
    using pool_take_spec [where rt = rt and now = now and world = w and p = p] assms by auto
  with Some show ?thesis by simp
qed

lemma pool_step_handed:
  assumes "pool_step s op = (s', a)"
  shows "parked s' + handed a \<subseteq># parked s + dialed op"
proof (cases op)
  case (OpTake rt now w)
  then show ?thesis
    using assms pool_take_handed [of rt now w "ps_pool s"]
    by (auto simp: parked_def split: if_splits prod.splits)
next
  case (OpRefresh now w)
  have "mset (map ie_stream (filter (entry_open w) (filter P es))) \<subseteq># mset (map ie_stream es)" for P and es :: "'a idle_entry list"
    using mset_filter_stream [of "entry_open w" "filter P es"] mset_filter_stream [of P es]
    by (rule subset_mset.order_trans)
  then show ?thesis
    using assms OpRefresh
    by (auto simp: parked_def pool_refresh_def Let_def split: if_splits prod.splits refresh_result.splits)
next
  case (OpDialDone now r)
  then show ?thesis
    using assms by (auto simp: parked_def pool_put_def split: if_splits prod.splits dial_result.splits)
next
  case OpDropPool
  then show ?thesis using assms by (auto simp: parked_def)
qed

lemma run_handed:
  "run pool_step s ops = (s', as) \<Longrightarrow>
     parked s' + sum_list (map handed as) \<subseteq># parked s + sum_list (map dialed ops)"
proof (induction ops arbitrary: s as)
  case (Cons op ops)
  from Cons.prems obtain t a bs where step: "pool_step s op = (t, a)"
    and rest: "run pool_step t ops = (s', bs)" and as: "as = a # bs" by (rule run_ConsE)
  have "parked s' + sum_list (map handed bs) + handed a
      \<subseteq># parked t + sum_list (map dialed ops) + handed a"
    using Cons.IH [OF rest] by simp
  also have "\<dots> \<subseteq># parked s + dialed op + sum_list (map dialed ops)"
    using pool_step_handed [OF step] by (simp add: ac_simps subset_mset.add_mono)
  finally show ?case by (simp add: as ac_simps)
qed simp

text \<open>C12
  Sockets are never shared between requests: in every interleaving of takes, refreshes,
  dials and drops, the sockets handed out (together with those still parked) are, counted
  with multiplicity, among those the prewarm task dialed, so a socket that was dialed once
  is handed out at most once and is never parked again after that.\<close>

theorem pool_no_reuse:
  "case run pool_step (pool_sys_new addr c) ops of
     (s, outs) \<Rightarrow>
       parked s + sum_list (map handed outs) \<subseteq># sum_list (map dialed ops)"
proof (cases "run pool_step (pool_sys_new addr c) ops")
  case (Pair s as)
  then show ?thesis using run_handed [OF Pair] by (simp add: parked_def pool_sys_new_def pool_new_def)
qed

subsection \<open>Backoff\<close>

text \<open>
  The prewarm task's n-th consecutive delay since the pool was last full is half a second
  doubled n times, capped at thirty seconds.\<close>

theorem backoff_doubles:
  "next_delay (((\<lambda>b. snd (next_delay b)) ^^ n) (backoff_reset b)) =
     (min (500 * 2 ^ n) 30000, min (500 * 2 ^ Suc n) 30000)"
proof (induction n)
  case 0
  then show ?case by (simp add: next_delay_def backoff_reset_def backoff_first_def backoff_max_def)
next
  case (Suc n)
  let ?b = "((\<lambda>b. snd (next_delay b)) ^^ Suc n) (backoff_reset b)"
  have "?b = min (500 * 2 ^ Suc n) 30000" using Suc by simp
  then show ?case unfolding next_delay_def backoff_max_def by (simp add: min_def)
qed

subsection \<open>One pool per upstream\<close>

text \<open>
  A pool's identity is a number: the registry hands out the same \<^verbatim>\<open>Arc\<close>, that is
  the same number, for the same address.\<close>

record pool_registry =
  pr_config :: pool_limits
  pr_pools :: "(string \<times> nat) list"
  pr_fresh :: nat

definition max_upstreams :: nat where
  "max_upstreams = 8"

definition pools_new :: "pool_limits \<Rightarrow> pool_registry" where
  "pools_new c = \<lparr>pr_config = c, pr_pools = [], pr_fresh = 0\<rparr>"

definition pools_get :: "pool_registry \<Rightarrow> string \<Rightarrow> pool_registry \<times> nat option" where
  "pools_get r addr =
     (case map_of (pr_pools r) addr of
        Some pool \<Rightarrow> (r, Some pool)
      | None \<Rightarrow>
          if length (pr_pools r) \<ge> max_upstreams then (r, None)
          else (r\<lparr>pr_pools := (addr, pr_fresh r) # pr_pools r, pr_fresh := Suc (pr_fresh r)\<rparr>,
                Some (pr_fresh r)))"

definition registry_ok :: "pool_registry \<Rightarrow> bool" where
  "registry_ok r \<longleftrightarrow> length (pr_pools r) \<le> max_upstreams \<and> distinct (map fst (pr_pools r)) \<and>
     distinct (map snd (pr_pools r)) \<and> (\<forall>i \<in> snd ` set (pr_pools r). i < pr_fresh r)"

lemma pools_get_ok: "registry_ok r \<Longrightarrow> pools_get r addr = (r', x) \<Longrightarrow> registry_ok r'"
  by (auto simp: pools_get_def registry_ok_def max_upstreams_def map_of_eq_None_iff
      split: option.splits if_splits) fastforce+

interpretation registry: preserving pools_get registry_ok
  by unfold_locales (rule pools_get_ok)

lemma pools_get_keeps: "pools_get r addr = (r', x) \<Longrightarrow> map_of (pr_pools r) a = Some i \<Longrightarrow> map_of (pr_pools r') a = Some i"
  by (auto simp: pools_get_def split: option.splits if_splits)

lemma run_pools_keeps:
  "run pools_get r addrs = (r', xs) \<Longrightarrow> map_of (pr_pools r) a = Some i \<Longrightarrow> map_of (pr_pools r') a = Some i"
proof (induction addrs arbitrary: r xs)
  case (Cons b addrs)
  from Cons.prems(1) obtain t x ys where "pools_get r b = (t, x)" "run pools_get t addrs = (r', ys)"
    by (rule run_ConsE)
  with Cons show ?case using pools_get_keeps by blast
qed simp

lemma pools_get_result: "pools_get r addr = (r', Some i) \<Longrightarrow> map_of (pr_pools r') addr = Some i"
  by (auto simp: pools_get_def split: option.splits if_splits)

text \<open>The answers of a run agree with the registry it ends in.\<close>

lemma run_pools_answers:
  "run pools_get r addrs = (r', xs) \<Longrightarrow> (a, Some i) \<in> set (zip addrs xs) \<Longrightarrow> map_of (pr_pools r') a = Some i"
proof (induction addrs arbitrary: r xs)
  case (Cons b addrs)
  from Cons.prems(1) obtain t x ys where t: "pools_get r b = (t, x)" "run pools_get t addrs = (r', ys)"
    and xs: "xs = x # ys" by (rule run_ConsE)
  show ?case
  proof (cases "(a, Some i) = (b, x)")
    case True
    with t show ?thesis using pools_get_result run_pools_keeps by blast
  next
    case False
    with Cons.prems(2) xs t(2) show ?thesis using Cons.IH by auto
  qed
qed simp

text \<open>
  Over any sequence of requests of one routing snapshot, two requests get the same pool
  exactly when they go to the same upstream (once it has a pool), and at most eight
  upstreams ever have one.\<close>

theorem pools_shared_and_capped:
  "case run pools_get (pools_new c) addrs of
     (r, outs) \<Rightarrow>
       length (pr_pools r) \<le> 8 \<and>
       list_all (\<lambda>(a, x). list_all (\<lambda>(b, y).
         case (x, y) of (Some i, Some j) \<Rightarrow> i = j \<longleftrightarrow> a = b | _ \<Rightarrow> True) (zip addrs outs)) (zip addrs outs)"
proof (cases "run pools_get (pools_new c) addrs")
  case (Pair r xs)
  have "registry_ok (pools_new c)" by (simp add: registry_ok_def pools_new_def)
  then have ok: "registry_ok r" using Pair by (rule registry.run_keeps)
  have inj: "i = j \<longleftrightarrow> a = b" if "map_of (pr_pools r) a = Some i" "map_of (pr_pools r) b = Some j" for a b i j
    using that ok unfolding registry_ok_def
    by (metis eq_key_imp_eq_value map_of_SomeD option.inject snd_conv fst_conv inj_onD distinct_map)
  have "i = j \<longleftrightarrow> a = b" if "(a, Some i) \<in> set (zip addrs xs)" "(b, Some j) \<in> set (zip addrs xs)" for a b i j
    using inj run_pools_answers [OF Pair] that by blast
  with ok Pair show ?thesis
    by (auto simp: registry_ok_def max_upstreams_def list_all_iff split: option.split)
qed

end
