(* ===== verification/Upstream_Connect.thy ===== *)
theory Upstream_Connect
  imports Pool
begin

text \<open>
  The authenticated \<^verbatim>\<open>CONNECT\<close> of
  \<^verbatim>\<open>crates/zicade-proxy/src/upstream/connect.rs\<close> and the forwarding handshake of
  \<^verbatim>\<open>upstream.rs\<close>, on the sockets of \<open>Wire\<close> and the pool of \<open>Pool\<close>. Dialing is an
  outcome the environment supplies; a conversation that makes no further progress before
  the deadline is \<open>Stalled\<close>, which \<open>connect_via_upstream\<close> turns into its timeout error.
  The lemmas bound the requests of a handshake, say where it leaves the stream when it
  grants the tunnel, and when a reused socket is retried.
\<close>

definition max_legs :: nat where
  "max_legs = 12"

definition handshake_timeout :: millis where
  "handshake_timeout = 15000"

record 'f upstream_target =
  ut_addr :: string
  ut_auth :: "'f upstream_auth"
  ut_pool :: "nat option"

datatype 'a leg_result = LegOk 'a | LegStale io_error | LegFailed io_error | LegStalled

definition connect_request :: "string \<Rightarrow> string option \<Rightarrow> string" where
  "connect_request target auth_header =
     ''CONNECT '' @ target @ '' HTTP/1.1'' @ crlf @ ''Host: '' @ target @ crlf
       @ ''Proxy-Connection: keep-alive'' @ crlf
       @ (case auth_header of Some value \<Rightarrow> ''Proxy-Authorization: '' @ value @ crlf | None \<Rightarrow> [])
       @ crlf"

definition transport :: "bool \<Rightarrow> io_error \<Rightarrow> 'a leg_result" where
  "transport first_reused e = (if first_reused then LegStale e else LegFailed e)"

definition send_leg :: "socket \<Rightarrow> string \<Rightarrow> string option \<Rightarrow> bool \<Rightarrow> head leg_result \<times> socket" where
  "send_leg s dst auth_header first_reused =
     (case write_all s (connect_request dst auth_header) of
        (Failed e, s1) \<Rightarrow> (transport first_reused e, s1)
      | (Stalled, s1) \<Rightarrow> (LegStalled, s1)
      | (Done _, s1) \<Rightarrow>
          (case (if first_reused then await_response s1 else (Done (), s1)) of
             (Failed e, s2) \<Rightarrow> (transport first_reused e, s2)
           | (Stalled, s2) \<Rightarrow> (LegStalled, s2)
           | (Done _, s2) \<Rightarrow>
               (case read_head s2 of
                  (Done head, s3) \<Rightarrow> (LegOk head, s3)
                | (Failed e, s3) \<Rightarrow> (LegFailed e, s3)
                | (Stalled, s3) \<Rightarrow> (LegStalled, s3))))"

text \<open>The loop over legs: \<open>n\<close> legs are left, \<open>leg\<close> is the index of this one.\<close>

fun handshake_loop ::
    "b64_encode \<Rightarrow> b64_decode \<Rightarrow> 'a authenticator \<Rightarrow> string \<Rightarrow> bool \<Rightarrow> nat \<Rightarrow> nat
     \<Rightarrow> 'a auth_state \<Rightarrow> string option \<Rightarrow> socket \<Rightarrow> unit leg_result \<times> socket" where
  "handshake_loop enc dec astep dst reused leg 0 st hdr s =
     (LegFailed (io_other ''upstream handshake exhausted legs''), s)"
| "handshake_loop enc dec astep dst reused leg (Suc n) st hdr s =
     (case send_leg s dst hdr (reused \<and> leg = 0) of
        (LegStale e, s1) \<Rightarrow> (LegStale e, s1)
      | (LegFailed e, s1) \<Rightarrow> (LegFailed e, s1)
      | (LegStalled, s1) \<Rightarrow> (LegStalled, s1)
      | (LegOk (status, headers), s1) \<Rightarrow>
          if status = 200 then (LegOk (), s1)
          else (case drain_body s1 headers of
                  (Failed e, s2) \<Rightarrow> (LegFailed e, s2)
                | (Stalled, s2) \<Rightarrow> (LegStalled, s2)
                | (Done _, s2) \<Rightarrow>
                    if status \<noteq> 407
                    then (LegFailed (io_other (''upstream refused CONNECT with status '' @ show_word status)), s2)
                    else (case on_challenge enc dec astep st headers of
                            (st', Inl e) \<Rightarrow> (LegFailed e, s2)
                          | (st', Inr value) \<Rightarrow>
                              handshake_loop enc dec astep dst reused (Suc leg) n st' (Some value) s2)))"

definition connect_handshake ::
    "b64_encode \<Rightarrow> b64_decode \<Rightarrow> ('f \<Rightarrow> 'a) \<Rightarrow> 'a authenticator \<Rightarrow> socket \<Rightarrow> bool
     \<Rightarrow> 'f upstream_auth \<Rightarrow> string \<Rightarrow> unit leg_result \<times> socket" where
  "connect_handshake enc dec mk astep s reused auth dst =
     (case initial_header (auth_state_new mk auth) of
        (st, hdr) \<Rightarrow> handshake_loop enc dec astep dst reused 0 max_legs st hdr s)"

text \<open>
  \<open>try_connect\<close> is \<^verbatim>\<open>connect\<close>: with the pooled socket, if one was taken, first; the
  second component lists the sockets it used, in order, as it left them, and whether each
  was a pooled one.\<close>

definition into_io :: "unit leg_result \<times> socket \<Rightarrow> socket outcome" where
  "into_io r =
     (case r of
        (LegOk _, s) \<Rightarrow> Done s | (LegStale e, _) \<Rightarrow> Failed e
      | (LegFailed e, _) \<Rightarrow> Failed e | (LegStalled, _) \<Rightarrow> Stalled)"

definition try_connect ::
    "(socket \<Rightarrow> bool \<Rightarrow> unit leg_result \<times> socket) \<Rightarrow> socket option \<Rightarrow> socket outcome
     \<Rightarrow> socket outcome \<times> (bool \<times> socket) list" where
  "try_connect hs pooled dial =
     (let fresh = (case dial of
                     Done s \<Rightarrow> (into_io (hs s False), [(False, snd (hs s False))])
                   | Failed e \<Rightarrow> (Failed e, [])
                   | Stalled \<Rightarrow> (Stalled, []))
      in case pooled of
           None \<Rightarrow> fresh
         | Some s \<Rightarrow>
             (case hs s True of
                (LegStale e, s') \<Rightarrow> (fst fresh, (True, s') # snd fresh)
              | (r, s') \<Rightarrow> (into_io (r, s'), [(True, s')])))"

definition connect_timeout_error :: "string \<Rightarrow> io_error" where
  "connect_timeout_error addr =
     IoError KTimedOut (''upstream CONNECT handshake with '' @ addr @ '' timed out after ''
       @ show_nat (handshake_timeout div 1000) @ ''s'')"

text \<open>
  \<open>probe\<close> is what a non-blocking read of each parked socket answers when the pool looks at it;
  \<open>peer\<close> is what its peer does from then on.\<close>

definition connect_via_upstream ::
    "b64_encode \<Rightarrow> b64_decode \<Rightarrow> ('f \<Rightarrow> 'a) \<Rightarrow> 'a authenticator \<Rightarrow> 'f upstream_target \<Rightarrow> string
     \<Rightarrow> 'k upstream_pool option \<Rightarrow> millis \<Rightarrow> ('k \<Rightarrow> try_read) \<Rightarrow> ('k \<Rightarrow> socket) \<Rightarrow> socket outcome
     \<Rightarrow> (io_error + socket) \<times> 'k upstream_pool option \<times> (bool \<times> socket) list" where
  "connect_via_upstream enc dec mk astep target dst pool now probe peer dial =
     (let (pool', taken) = (case pool of
            None \<Rightarrow> (None, None)
          | Some p \<Rightarrow> (case pool_take True now probe p of (p', h) \<Rightarrow> (Some p', map_option peer h)));
          (r, used) = try_connect (\<lambda>s reused. connect_handshake enc dec mk astep s reused (ut_auth target) dst) taken dial
      in ((case r of Done s \<Rightarrow> Inr s | Failed e \<Rightarrow> Inl e | Stalled \<Rightarrow> Inl (connect_timeout_error (ut_addr target))),
          pool', used))"

subsection \<open>Sending a leg\<close>

lemma write_all_sent: "write_all s b = (r, s') \<Longrightarrow> sk_sent s' = sk_sent s @ [b] \<and> sk_segs s' = sk_segs s \<and> sk_end s' = sk_end s"
  by (auto simp: write_all_def split: list.splits option.splits)

lemma await_response_same: "await_response s = (r, s') \<Longrightarrow> s' = s"
  by (auto simp: await_response_def split: list.splits)

lemma read_head_sent: "read_head s = (r, s') \<Longrightarrow> sk_sent s' = sk_sent s"
  using read_head_leaves by (simp add: leaves_def)

lemma drain_body_sent: "drain_body s h = (r, s') \<Longrightarrow> sk_sent s' = sk_sent s"
  using drain_body_leaves by (simp add: leaves_def)

lemma send_leg_sent: "send_leg s dst hdr fr = (r, s') \<Longrightarrow> sk_sent s' = sk_sent s @ [connect_request dst hdr]"
  by (auto simp: send_leg_def split: prod.splits outcome.splits if_splits
      dest!: write_all_sent await_response_same read_head_sent)

text \<open>An answered leg read one complete head off the front of what the peer sends.\<close>

lemma send_leg_ok:
  assumes "send_leg s dst hdr fr = (LegOk head, s')"
  shows "\<exists>h. rx_bytes s = h @ rx_bytes s' \<and> complete_head h \<and> length h \<le> 65537 \<and> parse_head h = head"
proof -
  obtain w s1 where w: "write_all s (connect_request dst hdr) = (w, s1)" by fastforce
  have same: "rx_bytes s1 = rx_bytes s" using write_all_sent [OF w] by (simp add: rx_bytes_def)
  have "read_head s1 = (Done head, s')"
    using assms w
    by (auto simp: send_leg_def transport_def split: prod.splits outcome.splits if_splits dest!: await_response_same)
  from read_head_done [OF this] same show ?thesis by simp
qed

text \<open>A stale leg took no response byte, and none had arrived unless the write itself failed.\<close>

lemma send_leg_stale:
  assumes "send_leg s dst hdr fr = (LegStale e, s')"
  shows "fr \<and> rx_bytes s' = rx_bytes s \<and> (rx_bytes s = [] \<or> (\<exists>ws. sk_writes s = Some e # ws))"
proof -
  obtain w s1 where w: "write_all s (connect_request dst hdr) = (w, s1)" by fastforce
  then have same: "rx_bytes s1 = rx_bytes s" using write_all_sent by (simp add: rx_bytes_def)
  show ?thesis
  proof (cases w)
    case (Failed e')
    with w have "\<exists>ws. sk_writes s = Some e' # ws" by (auto simp: write_all_def split: list.splits option.splits)
    with assms w Failed same show ?thesis by (auto simp: send_leg_def transport_def split: if_splits)
  next
    case (Done u)
    have fr: "fr" using assms w Done
      by (auto simp: send_leg_def transport_def split: if_splits outcome.splits prod.splits)
    obtain a s2 where a: "await_response s1 = (a, s2)" by fastforce
    then have "s2 = s1" by (rule await_response_same)
    have "a = Failed e \<and> s' = s2"
      using assms w Done a fr by (auto simp: send_leg_def transport_def split: outcome.splits prod.splits)
    then have "skip_empty (sk_segs s1) = []"
      using a by (auto simp: await_response_def split: list.splits)
    then have "rx_bytes s1 = []" by (simp add: skip_empty_Nil rx_bytes_def)
    with fr same \<open>s2 = s1\<close> \<open>a = Failed e \<and> s' = s2\<close> show ?thesis by simp
  qed (use assms w in \<open>auto simp: send_leg_def\<close>)
qed

subsection \<open>Bounds of a handshake\<close>

lemma on_challenge_meter:
  assumes "auth_ok st" and "on_challenge enc dec astep st h = (st', x)"
  shows "auth_ok st'" and "answers st' = answers st + (if is_ok x then 1 else 0)"
    and "answer_cap st' = answer_cap st" and "answers st' \<le> answer_cap st'"
  using challenge_answers.step_keeps [OF assms] challenge_answers.step_meter [OF assms]
    challenge_answers.step_cap [OF assms] challenge_answers.meter_cap by blast+

lemma handshake_loop_requests:
  "handshake_loop enc dec astep dst reused leg n st hdr s = (r, s') \<Longrightarrow> auth_ok st \<Longrightarrow>
     length (sk_sent s') \<le> length (sk_sent s) + 1 + (answer_cap st - answers st)"
proof (induction n arbitrary: leg st hdr s)
  case 0
  then show ?case by simp
next
  case (Suc n)
  obtain x s1 where x: "send_leg s dst hdr (reused \<and> leg = 0) = (x, s1)" by fastforce
  note sent = send_leg_sent [OF x]
  show ?case
  proof (cases x)
    case (LegOk head)
    obtain status headers where head: "head = (status, headers)" by fastforce
    obtain y s2 where y: "drain_body s1 headers = (y, s2)" by fastforce
    note sent2 = drain_body_sent [OF y]
    show ?thesis
    proof (cases "status \<noteq> 200 \<and> y = Done () \<and> status = 407")
      case True
      obtain st' z where z: "on_challenge enc dec astep st headers = (st', z)" by fastforce
      note meter = on_challenge_meter [OF Suc.prems(2) z]
      show ?thesis
      proof (cases z)
        case (Inr v)
        then have "handshake_loop enc dec astep dst reused (Suc leg) n st' (Some v) s2 = (r, s')"
          using Suc.prems(1) x LegOk head y z True by simp
        from Suc.IH [OF this meter(1)] show ?thesis using sent sent2 meter Inr by simp
      qed (use Suc.prems(1) x LegOk head y z True sent sent2 in \<open>simp\<close>)
    next
      case False
      then show ?thesis
        using Suc.prems(1) x LegOk head y sent sent2
        by (auto split: if_splits outcome.splits)
    qed
  qed (use Suc.prems(1) x sent in auto)
qed

lemma handshake_loop_sends:
  "handshake_loop enc dec astep dst reused leg n st hdr s = (r, s') \<Longrightarrow>
     length (sk_sent s) + (if n = 0 then 0 else 1) \<le> length (sk_sent s')"
proof (induction n arbitrary: leg st hdr s)
  case (Suc n)
  obtain x s1 where x: "send_leg s dst hdr (reused \<and> leg = 0) = (x, s1)" by fastforce
  note sent = send_leg_sent [OF x]
  show ?case
  proof (cases x)
    case (LegOk head)
    obtain y s2 where y: "drain_body s1 (snd head) = (y, s2)" by fastforce
    from Suc.IH [of "Suc leg" _ _ s2] show ?thesis
      using Suc.prems x LegOk y sent drain_body_sent [OF y]
      by (cases head) (fastforce split: if_splits outcome.splits prod.splits sum.splits)
  qed (use Suc.prems x sent in auto)
qed simp

text \<open>More legs than there can be answers change nothing.\<close>

lemma handshake_loop_fuel:
  "auth_ok st \<Longrightarrow> answer_cap st - answers st < n \<Longrightarrow>
     handshake_loop enc dec astep dst reused leg (n + k) st hdr s
       = handshake_loop enc dec astep dst reused leg n st hdr s"
proof (induction n arbitrary: leg st hdr s)
  case 0
  then show ?case by simp
next
  case (Suc n)
  have step: "handshake_loop enc dec astep dst reused (Suc leg) (n + k) st' (Some v) s2
       = handshake_loop enc dec astep dst reused (Suc leg) n st' (Some v) s2"
    if "on_challenge enc dec astep st headers = (st', Inr v)" for st' v headers s2
  proof (rule Suc.IH)
    note meter = on_challenge_meter [OF Suc.prems(1) that]
    then show "auth_ok st'" "answer_cap st' - answers st' < n" using Suc.prems(2) by auto
  qed
  then show ?case
    by (auto split: prod.split leg_result.split outcome.split sum.split)
qed

lemma fresh_state_answers:
  assumes "initial_header (auth_state_new mk a) = (st, hdr)"
  shows "auth_ok st" and "answer_cap st - answers st = max_answers a"
  using assms
  by (cases a; auto simp: auth_state_new_def hs_new_def default_max_legs_def hs_ok_def)+

text \<open>C30
  On one connection the proxy sends at least one and at most eleven CONNECT requests under
  Negotiate/NTLM and exactly one otherwise, whatever the upstream answers; and the limit of twelve legs never
  cuts a handshake short: any larger limit gives the same result.\<close>

theorem connect_requests_bounded:
  "case connect_handshake enc dec mk astep s reused auth dst of
     (r, s') \<Rightarrow>
       length (sk_sent s) + 1 \<le> length (sk_sent s') \<and>
       length (sk_sent s') \<le> length (sk_sent s) + 1 + max_answers auth \<and>
       (case initial_header (auth_state_new mk auth) of
          (st, hdr) \<Rightarrow> handshake_loop enc dec astep dst reused 0 (max_legs + k) st hdr s = (r, s'))"
proof -
  obtain st hdr where st: "initial_header (auth_state_new mk auth) = (st, hdr)" by fastforce
  obtain r s' where r: "handshake_loop enc dec astep dst reused 0 max_legs st hdr s = (r, s')" by fastforce
  note f = fresh_state_answers [OF st]
  have "max_answers auth < max_legs" by (cases auth) (simp_all add: max_legs_def)
  with f have "handshake_loop enc dec astep dst reused 0 (max_legs + k) st hdr s = (r, s')"
    using handshake_loop_fuel [of st max_legs] r by simp
  moreover have "length (sk_sent s') \<le> length (sk_sent s) + 1 + max_answers auth"
    using handshake_loop_requests [OF r f(1)] f(2) by simp
  moreover have "length (sk_sent s) + 1 \<le> length (sk_sent s')"
    using handshake_loop_sends [OF r] by (simp add: max_legs_def)
  ultimately show ?thesis by (simp add: connect_handshake_def st r)
qed

subsection \<open>When the tunnel is granted\<close>

text \<open>
  A conversation in which the upstream challenges with the responses of \<open>legs\<close> (head and
  body) and then grants the tunnel with the head \<open>final\<close>, and the headers the driver
  answers the challenges with.\<close>

definition leg_headers :: "bytes \<times> bytes \<Rightarrow> header_list" where
  "leg_headers l = snd (parse_head (fst l))"

definition challenge_leg :: "bytes \<times> bytes \<Rightarrow> bool" where
  "challenge_leg l \<longleftrightarrow> complete_head (fst l) \<and> length (fst l) \<le> 65537 \<and>
     fst (parse_head (fst l)) = 407 \<and> framed (leg_headers l) (snd l)"

definition granting_head :: "bytes \<Rightarrow> bool" where
  "granting_head h \<longleftrightarrow> complete_head h \<and> length h \<le> 65537 \<and> fst (parse_head h) = 200"

definition conversation :: "(bytes \<times> bytes) list \<Rightarrow> bytes \<Rightarrow> bytes" where
  "conversation legs final = concat (map (\<lambda>(h, b). h @ b) legs) @ final"

lemma complete_head_nonempty: "complete_head h \<Longrightarrow> h \<noteq> []"
  by (auto simp: complete_head_def head_end_def)

lemma challenge_legI:
  "complete_head h \<Longrightarrow> length h \<le> 65537 \<Longrightarrow> fst (parse_head h) = 407 \<Longrightarrow>
     content_length (leg_headers (h, b)) = Some (length b) \<Longrightarrow> length b \<le> max_drain_bytes \<Longrightarrow> challenge_leg (h, b)"
  by (simp add: challenge_leg_def framed_def)

lemma conversation_nonempty: "list_all challenge_leg legs \<Longrightarrow> granting_head final \<Longrightarrow> conversation legs final \<noteq> []"
  using complete_head_nonempty by (auto simp: conversation_def granting_head_def)

lemma send_leg_reads:
  assumes "rx_bytes s = h @ rest" and "complete_head h" and "length h \<le> 65537" and "sk_writes s = []"
  shows "\<exists>s'. send_leg s dst hdr fr = (LegOk (parse_head h), s') \<and> rx_bytes s' = rest
     \<and> sk_sent s' = sk_sent s @ [connect_request dst hdr] \<and> sk_writes s' = []"
proof -
  obtain s1 where w: "write_all s (connect_request dst hdr) = (Done (), s1)" "rx_bytes s1 = rx_bytes s" "sk_writes s1 = []"
    using assms(4) by (auto simp: write_all_def rx_bytes_def)
  have "skip_empty (sk_segs s1) \<noteq> []"
    using w(2) assms(1) complete_head_nonempty [OF assms(2)] by (simp add: skip_empty_Nil rx_bytes_def)
  then have "await_response s1 = (Done (), s1)" by (auto simp: await_response_def split: list.splits)
  moreover obtain s2 where s2: "read_head s1 = (Done (parse_head h), s2)" "rx_bytes s2 = rest"
    using read_head_loop_complete [of s1 h rest "[]"] assms w(2) complete_head_nonempty [OF assms(2)]
    by (auto simp: read_head_def complete_head_def max_head_bytes_def)
  ultimately have "send_leg s dst hdr fr = (LegOk (parse_head h), s2)" using w by (simp add: send_leg_def)
  moreover have "sk_writes s2 = []" using read_head_leaves [OF s2(1)] w(3) by (simp add: leaves_def)
  ultimately show ?thesis using s2(2) send_leg_sent by blast
qed

lemma handshake_loop_conversation:
  assumes "rx_bytes s = conversation legs final @ tunnel" and "list_all challenge_leg legs"
    and "granting_head final" and "sk_writes s = []" and "length legs < n"
    and "run (on_challenge enc dec astep) st (map leg_headers legs) = (st', map Inr replies)"
  shows "\<exists>s'. handshake_loop enc dec astep dst reused leg n st hdr s = (LegOk (), s') \<and> rx_bytes s' = tunnel
     \<and> sk_sent s' = sk_sent s @ map (connect_request dst) (hdr # map Some replies)"
  using assms
proof (induction legs arbitrary: leg n st hdr s replies)
  case Nil
  then obtain m where n: "n = Suc m" by (cases n) auto
  have "rx_bytes s = final @ tunnel" and "complete_head final" and "length final \<le> 65537"
    using Nil.prems by (simp_all add: conversation_def granting_head_def)
  from send_leg_reads [OF this Nil.prems(4)] obtain s' where
    "send_leg s dst hdr (reused \<and> leg = 0) = (LegOk (parse_head final), s')" "rx_bytes s' = tunnel"
    "sk_sent s' = sk_sent s @ [connect_request dst hdr]" by blast
  moreover have "replies = []" using Nil.prems(6) by simp
  ultimately show ?case using n Nil.prems(3) by (auto simp: granting_head_def split: prod.split)
next
  case (Cons l legs)
  obtain h b where l: "l = (h, b)" by fastforce
  obtain m where n: "n = Suc m" using Cons.prems(5) by (cases n) auto
  have ch: "complete_head h" "length h \<le> 65537" "fst (parse_head h) = 407" "framed (leg_headers l) b"
    using Cons.prems(2) l by (auto simp: challenge_leg_def)
  then have hd: "parse_head h = (407, leg_headers l)" using l by (simp add: leg_headers_def prod_eq_iff)
  let ?rest = "conversation legs final @ tunnel"
  have rx: "rx_bytes s = h @ b @ ?rest" using Cons.prems(1) l by (simp add: conversation_def)
  obtain s1 where s1: "send_leg s dst hdr (reused \<and> leg = 0) = (LegOk (parse_head h), s1)"
    "rx_bytes s1 = b @ ?rest" "sk_sent s1 = sk_sent s @ [connect_request dst hdr]" "sk_writes s1 = []"
    using send_leg_reads [OF rx ch(1,2) Cons.prems(4)] by blast
  obtain s2 where s2: "drain_body s1 (leg_headers l) = (Done (), s2)" "rx_bytes s2 = ?rest" "leaves s1 s2"
    using drain_body_framed [OF ch(4) s1(2)] by blast
  from Cons.prems(6) obtain t x ys where t: "on_challenge enc dec astep st (leg_headers l) = (t, x)"
    and rest: "run (on_challenge enc dec astep) t (map leg_headers legs) = (st', ys)" and "map Inr replies = x # ys"
    unfolding list.map by (rule run_ConsE)
  then obtain v vs where v: "replies = v # vs" "x = Inr v" "ys = map Inr vs" by (cases replies) auto
  have "\<exists>s'. handshake_loop enc dec astep dst reused (Suc leg) m t (Some v) s2 = (LegOk (), s') \<and> rx_bytes s' = tunnel
     \<and> sk_sent s' = sk_sent s2 @ map (connect_request dst) (Some v # map Some vs)"
  proof (rule Cons.IH)
    show "rx_bytes s2 = conversation legs final @ tunnel" by (rule s2(2))
    show "list_all challenge_leg legs" "granting_head final" "length legs < m"
      using Cons.prems n by simp_all
    show "sk_writes s2 = []" using s2(3) s1(4) by (simp add: leaves_def)
    show "run (on_challenge enc dec astep) t (map leg_headers legs) = (st', map Inr vs)" using rest v by simp
  qed
  moreover have "sk_sent s2 = sk_sent s1" using s2(3) by (simp add: leaves_def)
  moreover have "handshake_loop enc dec astep dst reused leg n st hdr s =
      handshake_loop enc dec astep dst reused (Suc leg) m t (Some v) s2"
    using n s1(1) hd s2(1) t v(2) by simp
  ultimately show ?case using s1(3) v(1) by auto
qed

text \<open>
  The handshake establishes the tunnel. When the upstream challenges and then grants with a
  200, and the driver can answer each challenge, the handshake succeeds; it has sent one
  CONNECT per leg, the first with the preemptive header and each later one with the answer
  to the challenge before it, in order; and it leaves the stream at the very first tunnel
  byte, whatever the segmentation and however many legs up to the limit.\<close>

theorem connect_handshake_grants:
  assumes "initial_header (auth_state_new mk auth) = (st, hdr)"
    and "run (on_challenge enc dec astep) st (map leg_headers legs) = (st', map Inr replies)"
    and "list_all challenge_leg legs" and "granting_head final"
    and "rx_bytes s = conversation legs final @ tunnel" and "sk_writes s = []"
  shows "\<exists>s'. connect_handshake enc dec mk astep s reused auth dst = (LegOk (), s') \<and> rx_bytes s' = tunnel
     \<and> sk_sent s' = sk_sent s @ map (connect_request dst) (hdr # map Some replies)"
proof -
  note f = fresh_state_answers [OF assms(1)]
  have "answers st + length (filter is_ok (map (Inr :: string \<Rightarrow> io_error + string) replies)) \<le> answer_cap st"
    using challenge_answers.run_hits_bounded [OF f(1) assms(2)] .
  then have "length replies \<le> max_answers auth" using f(2) by (simp add: comp_def)
  moreover have "length replies = length legs" using run_length [OF assms(2)] by simp
  moreover have "max_answers auth < max_legs" by (cases auth) (simp_all add: max_legs_def)
  ultimately have "length legs < max_legs" by simp
  then show ?thesis
    unfolding connect_handshake_def assms(1) prod.case
    using handshake_loop_conversation [OF assms(5,3,4,6) _ assms(2)] by blast
qed

text \<open>A two-leg NTLM handshake with a drained challenge body and tunnel bytes behind it.\<close>

definition ntlm_challenge :: "bytes \<times> bytes" where
  "ntlm_challenge =
     (''HTTP/1.1 407 Auth'' @ crlf @ ''Proxy-Authenticate: NTLM'' @ crlf @ ''Content-Length: 4'' @ crlf @ crlf, ''deny'')"

definition ntlm_socket :: socket where
  "ntlm_socket = sample_socket [conversation [ntlm_challenge] sample_head @ ''TLS''] EndStall"

lemma ntlm_demo:
  "initial_header (auth_state_new (\<lambda>_. 0) (UaNegotiate ())) = (AsNegotiate (hs_new 0) None, None)"
  "run (on_challenge nibble_enc nibble_dec counting_auth) (AsNegotiate (hs_new 0) None) (map leg_headers [ntlm_challenge])
     = (AsNegotiate \<lparr>hs_auth = 1, hs_legs = 1, hs_max_legs = 10, hs_started = True, hs_done = False\<rparr> (Some SchemeNtlm),
        map Inr [''NTLM HE''])"
  "list_all challenge_leg [ntlm_challenge]"
  "granting_head sample_head"
  "rx_bytes ntlm_socket = conversation [ntlm_challenge] sample_head @ ''TLS''"
  "sk_writes ntlm_socket = []" "sk_sent ntlm_socket = []"
proof -
  have "challenge_leg (fst ntlm_challenge, snd ntlm_challenge)"
    by (rule challenge_legI) (unfold complete_head_code, code_simp+)
  then show "list_all challenge_leg [ntlm_challenge]" by simp
  show "granting_head sample_head" unfolding granting_head_def complete_head_code by code_simp
  show "run (on_challenge nibble_enc nibble_dec counting_auth) (AsNegotiate (hs_new 0) None) (map leg_headers [ntlm_challenge])
     = (AsNegotiate \<lparr>hs_auth = 1, hs_legs = 1, hs_max_legs = 10, hs_started = True, hs_done = False\<rparr> (Some SchemeNtlm),
        map Inr [''NTLM HE''])" by code_simp
qed (simp_all add: auth_state_new_def ntlm_socket_def sample_socket_def rx_bytes_def)

lemma ntlm_demo_granted:
  "\<exists>s'. connect_handshake nibble_enc nibble_dec (\<lambda>_. 0) counting_auth ntlm_socket True (UaNegotiate ()) ''h:443''
      = (LegOk (), s') \<and> rx_bytes s' = ''TLS''
      \<and> sk_sent s' = [connect_request ''h:443'' None, connect_request ''h:443'' (Some ''NTLM HE'')]"
  using connect_handshake_grants [OF ntlm_demo(1-6), of True "''h:443''"] ntlm_demo(7) by simp

subsection \<open>Retrying a reused socket\<close>

lemma handshake_loop_stale:
  "handshake_loop enc dec astep dst reused leg n st hdr s = (LegStale e, s') \<Longrightarrow>
     reused \<and> leg = 0 \<and> rx_bytes s' = rx_bytes s \<and> sk_sent s' = sk_sent s @ [connect_request dst hdr]
     \<and> (rx_bytes s = [] \<or> (\<exists>ws. sk_writes s = Some e # ws))"
proof (induction n arbitrary: leg st hdr s)
  case (Suc n)
  obtain x s1 where x: "send_leg s dst hdr (reused \<and> leg = 0) = (x, s1)" by fastforce
  show ?case
  proof (cases "\<exists>e'. x = LegStale e'")
    case True
    then have "x = LegStale e" "s1 = s'" using Suc.prems x by auto
    with x send_leg_stale [of s dst hdr "reused \<and> leg = 0" e s'] send_leg_sent [OF x] show ?thesis by auto
  next
    case False
    then show ?thesis
      using Suc.prems x
      by (auto split: leg_result.splits prod.splits outcome.splits sum.splits if_splits dest: Suc.IH)
  qed
qed simp

lemma connect_handshake_stale:
  assumes "connect_handshake enc dec mk astep s reused auth dst = (LegStale e, s')"
  shows "reused \<and> rx_bytes s' = rx_bytes s \<and> length (sk_sent s') = length (sk_sent s) + 1
     \<and> (rx_bytes s = [] \<or> (\<exists>ws. sk_writes s = Some e # ws))"
proof -
  obtain st hdr where st: "initial_header (auth_state_new mk auth) = (st, hdr)" by fastforce
  with assms have "handshake_loop enc dec astep dst reused 0 max_legs st hdr s = (LegStale e, s')"
    by (simp add: connect_handshake_def)
  from handshake_loop_stale [OF this] show ?thesis by simp
qed

text \<open>C8
  A request is retried only when nothing can have been refused: a CONNECT uses at most two
  sockets; it dials a second time only after a pooled socket on which exactly one request
  was sent, no response byte was consumed, and either the write failed or the upstream had
  sent nothing at all. A fresh dial is never retried.\<close>

theorem retry_only_when_stale:
  "case try_connect (\<lambda>s reused. connect_handshake enc dec mk astep s reused auth dst) pooled dial of
     (r, used) \<Rightarrow>
       length used \<le> 2 \<and>
       (case used of
          [(b1, s1), (b2, s2)] \<Rightarrow>
            b1 \<and> \<not> b2 \<and>
            (case pooled of
               None \<Rightarrow> False
             | Some s \<Rightarrow> rx_bytes s1 = rx_bytes s \<and> length (sk_sent s1) = length (sk_sent s) + 1 \<and>
                 (rx_bytes s = [] \<or> (\<exists>e ws. sk_writes s = Some e # ws)))
        | _ \<Rightarrow> True)"
proof -
  let ?hs = "\<lambda>s reused. connect_handshake enc dec mk astep s reused auth dst"
  show ?thesis
  proof (cases pooled)
    case None
    then show ?thesis by (auto simp: try_connect_def Let_def split: outcome.split)
  next
    case (Some s)
    obtain x s' where x: "?hs s True = (x, s')" by fastforce
    show ?thesis
    proof (cases x)
      case (LegStale e)
      with connect_handshake_stale x have "rx_bytes s' = rx_bytes s \<and> length (sk_sent s') = length (sk_sent s) + 1
          \<and> (rx_bytes s = [] \<or> (\<exists>e ws. sk_writes s = Some e # ws))" by blast
      with Some x LegStale show ?thesis by (auto simp: try_connect_def Let_def split: outcome.split)
    qed (use Some x in \<open>auto simp: try_connect_def Let_def\<close>)
  qed
qed

subsection \<open>What a granted tunnel went through\<close>

text \<open>A response that challenges: a head with status 407, and what was drained after it.\<close>

definition challenging :: "bytes \<Rightarrow> bool" where
  "challenging r \<longleftrightarrow> (\<exists>h body. r = h @ body \<and> complete_head h \<and> fst (parse_head h) = 407)"

lemma handshake_loop_granted:
  "handshake_loop enc dec astep dst reused leg n st hdr s = (LegOk (), s') \<Longrightarrow>
     \<exists>refusals final hdrs.
       rx_bytes s = concat refusals @ final @ rx_bytes s' \<and> list_all challenging refusals \<and> granting_head final \<and>
       sk_sent s' = sk_sent s @ map (connect_request dst) (hdr # hdrs) \<and> length hdrs = length refusals"
proof (induction n arbitrary: leg st hdr s)
  case (Suc n)
  obtain x s1 where x: "send_leg s dst hdr (reused \<and> leg = 0) = (x, s1)" by fastforce
  with Suc.prems obtain status headers where ok: "x = LegOk (status, headers)"
    by (cases x) (auto split: prod.splits)
  from send_leg_ok [OF x [unfolded ok]] obtain h where
    h: "rx_bytes s = h @ rx_bytes s1" "complete_head h" "length h \<le> 65537" "parse_head h = (status, headers)" by blast
  note sent = send_leg_sent [OF x]
  show ?case
  proof (cases "status = 200")
    case True
    then have "s' = s1" using Suc.prems x ok by simp
    moreover have "granting_head h" using h True by (simp add: granting_head_def)
    ultimately show ?thesis using h(1) sent
      by (intro exI [of _ "[]"] exI [of _ h] exI [of _ "[]"]) simp
  next
    case False
    obtain y s2 where y: "drain_body s1 headers = (y, s2)" by fastforce
    obtain st' z where z: "on_challenge enc dec astep st headers = (st', z)" by fastforce
    from Suc.prems x ok False y z obtain v where
      v: "status = 407" "handshake_loop enc dec astep dst reused (Suc leg) n st' (Some v) s2 = (LegOk (), s')"
      by (auto split: outcome.splits if_splits sum.splits)
    from Suc.IH [OF v(2)] obtain rs final hdrs where
      ih: "rx_bytes s2 = concat rs @ final @ rx_bytes s'" "list_all challenging rs" "granting_head final"
        "sk_sent s' = sk_sent s2 @ map (connect_request dst) (Some v # hdrs)" "length hdrs = length rs" by blast
    from drain_body_leaves [OF y] obtain body where body: "rx_bytes s1 = body @ rx_bytes s2" "sk_sent s2 = sk_sent s1"
      by (auto simp: leaves_def suffix_def)
    have "challenging (h @ body)" using h(2,4) v(1) by (auto simp: challenging_def)
    with ih h(1) body sent show ?thesis
      by (intro exI [of _ "(h @ body) # rs"] exI [of _ final] exI [of _ "Some v # hdrs"]) simp
  qed
qed simp

text \<open>The socket that a granted \<^verbatim>\<open>CONNECT\<close> used is the one taken from the pool or the one dialed.\<close>

lemma connect_used:
  assumes "fst (connect_via_upstream enc dec mk astep target dst pool now probe peer dial) = Inr s'"
  obtains s reused where "connect_handshake enc dec mk astep s reused (ut_auth target) dst = (LegOk (), s')"
    and "(\<exists>p h. pool = Some p \<and> snd (pool_take True now probe p) = Some h \<and> s = peer h) \<or> dial = Done s"
proof -
  let ?hs = "\<lambda>s reused. connect_handshake enc dec mk astep s reused (ut_auth target) dst"
  let ?taken = "case pool of None \<Rightarrow> None | Some p \<Rightarrow> map_option peer (snd (pool_take True now probe p))"
  have "fst (try_connect ?hs ?taken dial) = Done s'"
    using assms by (auto simp: connect_via_upstream_def Let_def split: prod.splits option.splits outcome.splits)
  then have "\<exists>s b. into_io (?hs s b) = Done s' \<and> (?taken = Some s \<or> dial = Done s)"
  proof (cases ?taken)
    case None
    then show ?thesis using \<open>fst (try_connect ?hs ?taken dial) = Done s'\<close>
      unfolding None by (auto simp: try_connect_def Let_def split: outcome.splits)
  next
    case (Some s)
    obtain x t where x: "?hs s True = (x, t)" by fastforce
    with Some \<open>fst (try_connect ?hs ?taken dial) = Done s'\<close> show ?thesis
      unfolding Some by (cases x; cases dial) (auto simp: try_connect_def Let_def, metis+)
  qed
  then obtain s b where s: "into_io (?hs s b) = Done s'" "?taken = Some s \<or> dial = Done s" by blast
  from s(1) have "?hs s b = (LegOk (), s')" by (auto simp: into_io_def split: leg_result.splits prod.splits)
  moreover from s(2) have "(\<exists>p h. pool = Some p \<and> snd (pool_take True now probe p) = Some h \<and> s = peer h) \<or> dial = Done s"
    by (auto split: option.splits)
  ultimately show ?thesis by (rule that)
qed


end
