(* ===== verification/Upstream_Forward.thy ===== *)
theory Upstream_Forward
  imports Upstream_Connect
begin

text \<open>
  Forwarding a plain HTTP request through the upstream proxy, and the routing values:
  \<^verbatim>\<open>crates/zicade-proxy/src/upstream.rs\<close>. hyper's connection is the sequence of
  events it produces, one per request sent on it (\<open>fwd_event\<close>); a conversation that
  produces no further event hangs, as the code sets no deadline here.
  The lemmas show which headers reach the upstream, how many requests a forward sends, and
  that a 407 is never passed to the client.
\<close>

subsection \<open>Requests\<close>

record authority =
  au_host :: string
  au_port :: "u16 option"
  au_text :: string

record uri =
  ur_authority :: "authority option"
  ur_path_and_query :: "string option"
  ur_text :: string

record request_parts =
  rq_method :: string
  rq_uri :: uri
  rq_headers :: header_list

type_synonym http_request = "request_parts \<times> bytes"

datatype forward_error = FwdIo io_error | FwdHyper string | FwdMessage string

text \<open>Header values that \<^verbatim>\<open>HeaderValue::to_str\<close> accepts: visible ASCII and tab.\<close>

definition visible_ascii :: "bytes \<Rightarrow> bool" where
  "visible_ascii b \<longleftrightarrow> list_all (\<lambda>c. 32 \<le> code_of c \<and> code_of c < 127 \<or> c = CHR 0x09) b"

definition header_pairs :: "(string \<times> bytes) list \<Rightarrow> header_list" where
  "header_pairs hs = filter (\<lambda>(name, v). visible_ascii v) hs"

definition stripped_headers :: "string list" where
  "stripped_headers =
     [''content-length'', ''transfer-encoding'', ''connection'', ''proxy-connection'', ''proxy-authorization'']"

text \<open>\<open>hval_ok\<close> is whether the header builder accepts a value.\<close>

definition upstream_request ::
    "(string \<Rightarrow> bool) \<Rightarrow> request_parts \<Rightarrow> bytes \<Rightarrow> string option \<Rightarrow> forward_error + http_request" where
  "upstream_request hval_ok parts body auth_header =
     (let kept = filter (\<lambda>(name, v). name \<notin> set stripped_headers) (rq_headers parts);
          hs = kept @ [(''connection'', ''keep-alive'')]
      in case auth_header of
           None \<Rightarrow> Inr (parts\<lparr>rq_headers := hs\<rparr>, body)
         | Some v \<Rightarrow>
             if hval_ok v then Inr (parts\<lparr>rq_headers := hs @ [(''proxy-authorization'', v)]\<rparr>, body)
             else Inl (FwdHyper ''failed to parse header value''))"

subsection \<open>The forwarding handshake\<close>

text \<open>
  What hyper's connection makes of one request: an error while it waits to send, sends or
  receives, or a response head, and how reading a 407's body through the size limit ends.\<close>

datatype fwd_event =
    FeFailed forward_error
  | FeResponse u16 "(string \<times> bytes) list" "forward_error option"

datatype fwd_result = FwdOk u16 "(string \<times> bytes) list" nat | FwdErr forward_error | FwdHang

fun forward_loop ::
    "b64_encode \<Rightarrow> b64_decode \<Rightarrow> 'a authenticator \<Rightarrow> (string \<Rightarrow> bool) \<Rightarrow> request_parts \<Rightarrow> bytes
     \<Rightarrow> nat \<Rightarrow> nat \<Rightarrow> 'a auth_state \<Rightarrow> string option \<Rightarrow> fwd_event list \<Rightarrow> fwd_result \<times> http_request list" where
  "forward_loop enc dec astep ok parts body leg 0 st hdr evs =
     (FwdErr (FwdMessage ''upstream handshake exhausted legs''), [])"
| "forward_loop enc dec astep ok parts body leg (Suc n) st hdr evs =
     (case upstream_request ok parts body hdr of
        Inl e \<Rightarrow> (FwdErr e, [])
      | Inr req \<Rightarrow>
          (case evs of
             [] \<Rightarrow> (FwdHang, [req])
           | FeFailed e # _ \<Rightarrow> (FwdErr e, [req])
           | FeResponse status hs drained # evs' \<Rightarrow>
               if status \<noteq> 407 then (FwdOk status hs (leg + 1), [req])
               else (case drained of
                       Some e \<Rightarrow> (FwdErr e, [req])
                     | None \<Rightarrow>
                         (case on_challenge enc dec astep st (header_pairs hs) of
                            (st', Inl e) \<Rightarrow> (FwdErr (FwdIo e), [req])
                          | (st', Inr v) \<Rightarrow>
                              (case forward_loop enc dec astep ok parts body (leg + 1) n st' (Some v) evs' of
                                 (r, reqs) \<Rightarrow> (r, req # reqs))))))"

definition forward_handshake ::
    "b64_encode \<Rightarrow> b64_decode \<Rightarrow> ('f \<Rightarrow> 'a) \<Rightarrow> 'a authenticator \<Rightarrow> (string \<Rightarrow> bool) \<Rightarrow> request_parts \<Rightarrow> bytes
     \<Rightarrow> 'f upstream_auth \<Rightarrow> fwd_event list \<Rightarrow> fwd_result \<times> http_request list" where
  "forward_handshake enc dec mk astep ok parts body auth evs =
     (case initial_header (auth_state_new mk auth) of
        (st, hdr) \<Rightarrow> forward_loop enc dec astep ok parts body 0 max_legs st hdr evs)"

text \<open>The client's body is collected first, then the connection is opened.\<close>

definition forward_via_upstream ::
    "b64_encode \<Rightarrow> b64_decode \<Rightarrow> ('f \<Rightarrow> 'a) \<Rightarrow> 'a authenticator \<Rightarrow> (string \<Rightarrow> bool) \<Rightarrow> request_parts
     \<Rightarrow> forward_error + bytes \<Rightarrow> forward_error + unit \<Rightarrow> 'f upstream_auth \<Rightarrow> fwd_event list
     \<Rightarrow> fwd_result \<times> http_request list" where
  "forward_via_upstream enc dec mk astep ok parts body conn auth evs =
     (case body of
        Inl e \<Rightarrow> (FwdErr e, [])
      | Inr b \<Rightarrow>
          (case conn of
             Inl e \<Rightarrow> (FwdErr e, [])
           | Inr _ \<Rightarrow> forward_handshake enc dec mk astep ok parts b auth evs))"

subsection \<open>What reaches the upstream\<close>

definition header_values :: "header_list \<Rightarrow> string \<Rightarrow> string list" where
  "header_values hs name = map snd (filter (\<lambda>(n, v). n = name) hs)"

lemma header_values_append: "header_values (a @ b) name = header_values a name @ header_values b name"
  by (simp add: header_values_def)

lemma header_values_kept:
  "name \<notin> set stripped_headers \<Longrightarrow>
     header_values (filter (\<lambda>(n, v). n \<notin> set stripped_headers) hs) name = header_values hs name"
  by (induction hs) (auto simp: header_values_def)

lemma header_values_stripped:
  "name \<in> set stripped_headers \<Longrightarrow>
     header_values (filter (\<lambda>(n, v). n \<notin> set stripped_headers) hs) name = []"
  by (induction hs) (auto simp: header_values_def)

text \<open>
  A forwarded request keeps the client's method, URI, body and every end-to-end header, in
  order and with all its values; of the framing and hop-by-hop headers only the proxy's own
  \<open>connection: keep-alive\<close> is sent, and the only proxy credentials that reach the upstream
  are this leg's: whatever \<open>proxy-authorization\<close> the client sent is dropped.\<close>

theorem upstream_request_headers:
  "case upstream_request ok parts body auth of
     Inl _ \<Rightarrow> (case auth of None \<Rightarrow> False | Some v \<Rightarrow> \<not> ok v)
   | Inr (parts', body') \<Rightarrow>
       body' = body \<and> rq_method parts' = rq_method parts \<and> rq_uri parts' = rq_uri parts \<and>
       header_values (rq_headers parts') name =
         (if name = ''connection'' then [''keep-alive'']
          else if name = ''proxy-authorization'' then (case auth of None \<Rightarrow> [] | Some v \<Rightarrow> [v])
          else if name \<in> {''content-length'', ''transfer-encoding'', ''proxy-connection''} then []
          else header_values (rq_headers parts) name)"
proof -
  let ?kept = "filter (\<lambda>(n, v). n \<notin> set stripped_headers) (rq_headers parts)"
  let ?extra = "[(''connection'', ''keep-alive'')] @ (case auth of None \<Rightarrow> [] | Some v \<Rightarrow> [(''proxy-authorization'', v)])"
  have kept: "header_values ?kept name =
      (if name \<in> set stripped_headers then [] else header_values (rq_headers parts) name)"
    using header_values_kept header_values_stripped by simp
  have extra: "header_values ?extra name =
      (if name = ''connection'' then [''keep-alive'']
       else if name = ''proxy-authorization'' then (case auth of None \<Rightarrow> [] | Some v \<Rightarrow> [v]) else [])"
    by (auto simp: header_values_def split: option.split)
  have "header_values (?kept @ ?extra) name =
      (if name = ''connection'' then [''keep-alive'']
       else if name = ''proxy-authorization'' then (case auth of None \<Rightarrow> [] | Some v \<Rightarrow> [v])
       else if name \<in> {''content-length'', ''transfer-encoding'', ''proxy-connection''} then []
       else header_values (rq_headers parts) name)"
    by (subst header_values_append, subst kept, subst extra) (auto simp: stripped_headers_def)
  then show ?thesis
    by (cases auth) (auto simp: upstream_request_def Let_def)
qed

lemma upstream_request_frame:
  "upstream_request ok parts body h = Inr (p, b) \<Longrightarrow> rq_method p = rq_method parts \<and> rq_uri p = rq_uri parts \<and> b = body"
  by (auto simp: upstream_request_def Let_def split: option.splits if_splits)

lemma forward_loop_spec:
  assumes "forward_loop enc dec astep ok parts body leg n st hdr evs = (r, reqs)" and "auth_ok st"
  shows "length reqs \<le> 1 + (answer_cap st - answers st) \<and>
     (\<forall>status hs legs. r = FwdOk status hs legs \<longrightarrow> status \<noteq> 407 \<and> legs = leg + length reqs) \<and>
     (\<forall>(p, b) \<in> set reqs. rq_method p = rq_method parts \<and> rq_uri p = rq_uri parts \<and> b = body)"
  using assms
proof (induction n arbitrary: leg st hdr evs r reqs)
  case 0
  then show ?case by auto
next
  case (Suc n)
  show ?case
  proof (cases "upstream_request ok parts body hdr")
    case (Inl e)
    with Suc.prems show ?thesis by auto
  next
    case (Inr req)
    obtain p b where req: "req = (p, b)" by fastforce
    note frame = upstream_request_frame [OF Inr [unfolded req]]
    show ?thesis
    proof (cases evs)
      case Nil
      with Suc.prems Inr req frame show ?thesis by auto
    next
      case (Cons ev evs')
      show ?thesis
      proof (cases ev)
        case (FeFailed e)
        with Suc.prems Inr Cons req frame show ?thesis by auto
      next
        case (FeResponse status hs drained)
        show ?thesis
        proof (cases "status = 407 \<and> drained = None")
          case False
          with Suc.prems Inr Cons FeResponse req frame show ?thesis by (auto split: option.splits if_splits)
        next
          case True
          obtain st' x where x: "on_challenge enc dec astep st (header_pairs hs) = (st', x)" by fastforce
          note meter = on_challenge_meter [OF Suc.prems(2) x]
          show ?thesis
          proof (cases x)
            case (Inl e)
            with Suc.prems Inr Cons FeResponse True x req frame show ?thesis by auto
          next
            case (Inr v)
            obtain r' reqs' where loop: "forward_loop enc dec astep ok parts body (leg + 1) n st' (Some v) evs' = (r', reqs')"
              by fastforce
            then have "r = r'" "reqs = req # reqs'"
              using Suc.prems(1) \<open>upstream_request ok parts body hdr = Inr req\<close> Cons FeResponse True x Inr by auto
            with Suc.IH [OF loop meter(1)] meter Inr frame req show ?thesis by auto
          qed
        qed
      qed
    qed
  qed
qed

text \<open>C37
  However the upstream answers, forwarding one request sends it at most eleven times under
  Negotiate/NTLM and once otherwise, every time with the client's method, URI and body; and
  the response handed to the client is never a 407: an unanswered challenge is an error.\<close>

theorem forward_bounded_and_final:
  "case forward_via_upstream enc dec mk astep ok parts body conn auth evs of
     (r, reqs) \<Rightarrow>
       length reqs \<le> 1 + max_answers auth \<and>
       list_all (\<lambda>(p, b). rq_method p = rq_method parts \<and> rq_uri p = rq_uri parts \<and> Inr b = body) reqs \<and>
       (case r of FwdOk status _ legs \<Rightarrow> status \<noteq> 407 \<and> legs = length reqs | _ \<Rightarrow> True)"
proof (cases "\<exists>b u. body = Inr b \<and> conn = Inr u")
  case False
  then show ?thesis by (auto simp: forward_via_upstream_def split: sum.split)
next
  case True
  then obtain b u where b: "body = Inr b" "conn = Inr u" by blast
  obtain st hdr where st: "initial_header (auth_state_new mk auth) = (st, hdr)" by fastforce
  obtain r reqs where loop: "forward_loop enc dec astep ok parts b 0 max_legs st hdr evs = (r, reqs)" by fastforce
  note f = fresh_state_answers [OF st]
  from forward_loop_spec [OF loop f(1)] f(2)
  have "length reqs \<le> 1 + max_answers auth"
    and "\<And>status hs legs. r = FwdOk status hs legs \<Longrightarrow> status \<noteq> 407 \<and> legs = length reqs"
    and "\<forall>(p, b') \<in> set reqs. rq_method p = rq_method parts \<and> rq_uri p = rq_uri parts \<and> b' = b" by auto
  then show ?thesis
    using b st loop
    by (cases r) (auto simp: forward_via_upstream_def forward_handshake_def list_all_iff)
qed

subsection \<open>Routing values\<close>

datatype 'f route_choice = ChoiceDirect | ChoiceUpstream "'f upstream_target"

text \<open>\<open>'r\<close> is the PAC router an application injects.\<close>

datatype ('f, 'r) routing = RoutingDirect | RoutingUpstream "'f upstream_target" | RoutingPac 'r

definition default_routing_value :: "('f, 'r) routing" where
  "default_routing_value = RoutingDirect"

text \<open>The Debug rendering never shows credentials.\<close>

fun debug_upstream_auth :: "'f upstream_auth \<Rightarrow> string" where
  "debug_upstream_auth UaNone = ''None''"
| "debug_upstream_auth (UaBasic _) = ''Basic''"
| "debug_upstream_auth (UaNegotiate _) = ''Negotiate''"

fun debug_routing :: "('f, 'r) routing \<Rightarrow> string" where
  "debug_routing RoutingDirect = ''Direct''"
| "debug_routing (RoutingUpstream _) = ''Upstream''"
| "debug_routing (RoutingPac _) = ''Pac''"

end
