(* ===== verification/Tracker.thy ===== *)
theory Tracker
  imports Machine
begin

text \<open>
  Connection bookkeeping: \<^verbatim>\<open>crates/zicade-proxy/src/tracker.rs\<close>,
  \<^verbatim>\<open>metrics.rs\<close> and \<^verbatim>\<open>counting.rs\<close>. The shared counters and the book
  are one record; each atomic operation of the code is one operation on it, so an
  interleaving of threads is a sequence of operations (\<open>tracker_step\<close>). A
  \<^verbatim>\<open>Tracked\<close> handle is the id of its entry, which stays in the open map until the
  handle is dropped. \<^verbatim>\<open>AtomicU64\<close> and \<^verbatim>\<open>AtomicUsize\<close> are 64-bit words and
  wrap as \<^verbatim>\<open>fetch_add\<close> does.
  The lemmas show that nothing is lost or counted twice between the totals, the open
  entries and the finished ones, and what the history and the snapshots hold.
\<close>

datatype connection_kind = KindTunnel | KindHttp string "u16 option"

datatype connection_state = StConnecting | StOpen | StClosed | StFailed string

record connection_snapshot =
  sn_id :: u64
  sn_kind :: connection_kind
  sn_target :: string
  sn_route :: string
  sn_client :: "string option"
  sn_opened_at :: millis
  sn_duration :: millis
  sn_up :: u64
  sn_down :: u64
  sn_state :: connection_state

record entry =
  en_id :: u64
  en_target :: string
  en_client :: "string option"
  en_opened_at :: millis
  en_started :: millis
  en_up :: u64
  en_down :: u64
  en_failed :: bool
  en_kind :: connection_kind
  en_route :: string
  en_state :: connection_state

record metrics =
  mt_active :: u64
  mt_total_requests :: u64
  mt_failed_requests :: u64
  mt_bytes_in :: u64
  mt_bytes_out :: u64
  mt_next_id :: u64
  mt_open :: "(u64 \<times> entry) list"
  mt_closed :: "connection_snapshot list"

definition metrics_default :: metrics where
  "metrics_default = \<lparr>mt_active = 0, mt_total_requests = 0, mt_failed_requests = 0, mt_bytes_in = 0,
                      mt_bytes_out = 0, mt_next_id = 0, mt_open = [], mt_closed = []\<rparr>"

definition history_len :: nat where
  "history_len = 200"

text \<open>A \<^verbatim>\<open>BTreeMap\<close> is its association list in key order.\<close>

fun bt_insert :: "'k::linorder \<Rightarrow> 'v \<Rightarrow> ('k \<times> 'v) list \<Rightarrow> ('k \<times> 'v) list" where
  "bt_insert k v [] = [(k, v)]"
| "bt_insert k v ((k', v') # xs) =
     (if k < k' then (k, v) # (k', v') # xs
      else if k = k' then (k, v) # xs
      else (k', v') # bt_insert k v xs)"

definition bt_remove :: "'k \<Rightarrow> ('k \<times> 'v) list \<Rightarrow> ('k \<times> 'v) list" where
  "bt_remove k xs = filter (\<lambda>(k', v). k' \<noteq> k) xs"

definition entry_snapshot :: "entry \<Rightarrow> millis \<Rightarrow> connection_snapshot" where
  "entry_snapshot e duration =
     \<lparr>sn_id = en_id e, sn_kind = en_kind e, sn_target = en_target e, sn_route = en_route e,
      sn_client = en_client e, sn_opened_at = en_opened_at e, sn_duration = duration,
      sn_up = en_up e, sn_down = en_down e, sn_state = en_state e\<rparr>"

definition update_entry :: "u64 \<Rightarrow> (entry \<Rightarrow> entry) \<Rightarrow> metrics \<Rightarrow> metrics" where
  "update_entry i f m = m\<lparr>mt_open := map (\<lambda>(k, e). (k, if k = i then f e else e)) (mt_open m)\<rparr>"

subsection \<open>Counters\<close>

definition incr_request :: "metrics \<Rightarrow> metrics" where
  "incr_request m = m\<lparr>mt_total_requests := mt_total_requests m + 1\<rparr>"

definition incr_failed :: "metrics \<Rightarrow> metrics" where
  "incr_failed m = m\<lparr>mt_failed_requests := mt_failed_requests m + 1\<rparr>"

definition add_bytes :: "u64 \<Rightarrow> u64 \<Rightarrow> metrics \<Rightarrow> metrics" where
  "add_bytes inbound outbound m =
     (let m1 = (if inbound > 0 then m\<lparr>mt_bytes_in := mt_bytes_in m + inbound\<rparr> else m)
      in if outbound > 0 then m1\<lparr>mt_bytes_out := mt_bytes_out m1 + outbound\<rparr> else m1)"

definition connection_guard :: "metrics \<Rightarrow> metrics" where
  "connection_guard m = m\<lparr>mt_active := mt_active m + 1\<rparr>"

definition drop_guard :: "metrics \<Rightarrow> metrics" where
  "drop_guard m = m\<lparr>mt_active := mt_active m - 1\<rparr>"

subsection \<open>The life of an entry\<close>

definition tracked_start ::
    "connection_kind \<Rightarrow> string \<Rightarrow> string \<Rightarrow> string option \<Rightarrow> millis \<Rightarrow> millis \<Rightarrow> metrics \<Rightarrow> metrics \<times> u64" where
  "tracked_start kind target route client wall now m =
     (let i = mt_next_id m + 1;
          e = \<lparr>en_id = i, en_target = target, en_client = client, en_opened_at = wall, en_started = now,
               en_up = 0, en_down = 0, en_failed = False, en_kind = kind, en_route = route,
               en_state = StConnecting\<rparr>
      in (incr_request (m\<lparr>mt_next_id := i, mt_open := bt_insert i e (mt_open m)\<rparr>), i))"

definition add_up :: "u64 \<Rightarrow> u64 \<Rightarrow> metrics \<Rightarrow> metrics" where
  "add_up i n m = add_bytes 0 n (update_entry i (\<lambda>e. e\<lparr>en_up := en_up e + n\<rparr>) m)"

definition add_down :: "u64 \<Rightarrow> u64 \<Rightarrow> metrics \<Rightarrow> metrics" where
  "add_down i n m = add_bytes n 0 (update_entry i (\<lambda>e. e\<lparr>en_down := en_down e + n\<rparr>) m)"

definition set_route :: "u64 \<Rightarrow> string \<Rightarrow> metrics \<Rightarrow> metrics" where
  "set_route i route m = update_entry i (\<lambda>e. e\<lparr>en_route := route\<rparr>) m"

definition set_open :: "u64 \<Rightarrow> metrics \<Rightarrow> metrics" where
  "set_open i m =
     update_entry i (\<lambda>e. if en_state e = StConnecting then e\<lparr>en_state := StOpen\<rparr> else e) m"

fun with_status :: "u16 \<Rightarrow> connection_kind \<Rightarrow> connection_kind" where
  "with_status status (KindHttp method slot) = KindHttp method (Some status)"
| "with_status status KindTunnel = KindTunnel"

definition set_status :: "u64 \<Rightarrow> u16 \<Rightarrow> metrics \<Rightarrow> metrics" where
  "set_status i status m = set_open i (update_entry i (\<lambda>e. e\<lparr>en_kind := with_status status (en_kind e)\<rparr>) m)"

definition tracked_fail :: "u64 \<Rightarrow> string \<Rightarrow> metrics \<Rightarrow> metrics" where
  "tracked_fail i reason m =
     (case map_of (mt_open m) i of
        None \<Rightarrow> m
      | Some e \<Rightarrow>
          if en_failed e then m
          else update_entry i (\<lambda>e. e\<lparr>en_failed := True, en_state := StFailed reason\<rparr>) (incr_failed m))"

definition is_failed :: "connection_state \<Rightarrow> bool" where
  "is_failed st = (case st of StFailed _ \<Rightarrow> True | _ \<Rightarrow> False)"

definition hist_push :: "connection_snapshot list \<Rightarrow> connection_snapshot \<Rightarrow> connection_snapshot list" where
  "hist_push h x = (if length h = history_len then tl h else h) @ [x]"

definition close_entry :: "entry \<Rightarrow> entry" where
  "close_entry e = (if is_failed (en_state e) then e else e\<lparr>en_state := StClosed\<rparr>)"

definition tracker_close :: "u64 \<Rightarrow> millis \<Rightarrow> metrics \<Rightarrow> metrics \<times> connection_snapshot option" where
  "tracker_close i now m =
     (case map_of (mt_open m) i of
        None \<Rightarrow> (m, None)
      | Some e \<Rightarrow>
          (let finished = entry_snapshot (close_entry e) (now - en_started e)
           in (m\<lparr>mt_open := bt_remove i (mt_open m), mt_closed := hist_push (mt_closed m) finished\<rparr>,
               Some finished)))"

definition tracker_snapshot :: "millis \<Rightarrow> metrics \<Rightarrow> connection_snapshot list" where
  "tracker_snapshot now m =
     map (\<lambda>(k, e). entry_snapshot e (now - en_started e)) (rev (mt_open m)) @ rev (mt_closed m)"

subsection \<open>Counted bodies\<close>

datatype flow = FlowUp | FlowDown

datatype frame = DataFrame bytes | TrailersFrame

datatype poll_result = PollPending | PollEnd | PollError string | PollFrame frame

definition counting_poll :: "u64 \<Rightarrow> flow \<Rightarrow> poll_result \<Rightarrow> metrics \<Rightarrow> metrics \<times> poll_result" where
  "counting_poll i fl polled m =
     ((case polled of
         PollFrame (DataFrame d) \<Rightarrow>
           (case fl of FlowUp \<Rightarrow> add_up i (of_nat (length d)) m
                     | FlowDown \<Rightarrow> add_down i (of_nat (length d)) m)
       | _ \<Rightarrow> m),
      polled)"

subsection \<open>Sequences of operations\<close>

datatype tracker_op =
    TStart connection_kind string string "string option" millis millis
  | TAddUp u64 u64
  | TAddDown u64 u64
  | TSetRoute u64 string
  | TSetOpen u64
  | TSetStatus u64 u16
  | TFail u64 string
  | TDrop u64 millis
  | TPoll u64 flow poll_result
  | TGuard
  | TDropGuard

datatype tracker_answer = AStarted u64 | AFinished connection_snapshot | ADone

fun tracker_step :: "metrics \<Rightarrow> tracker_op \<Rightarrow> metrics \<times> tracker_answer" where
  "tracker_step m (TStart kind target route client wall now) =
     (case tracked_start kind target route client wall now m of (m', i) \<Rightarrow> (m', AStarted i))"
| "tracker_step m (TAddUp i n) =
     (if i \<in> fst ` set (mt_open m) then (add_up i n m, ADone) else (m, ADone))"
| "tracker_step m (TAddDown i n) =
     (if i \<in> fst ` set (mt_open m) then (add_down i n m, ADone) else (m, ADone))"
| "tracker_step m (TSetRoute i r) = (set_route i r m, ADone)"
| "tracker_step m (TSetOpen i) = (set_open i m, ADone)"
| "tracker_step m (TSetStatus i st) = (set_status i st m, ADone)"
| "tracker_step m (TFail i reason) = (tracked_fail i reason m, ADone)"
| "tracker_step m (TDrop i now) =
     (case tracker_close i now m of (m', Some x) \<Rightarrow> (m', AFinished x) | (m', None) \<Rightarrow> (m', ADone))"
| "tracker_step m (TPoll i fl p) =
     (if i \<in> fst ` set (mt_open m) then (fst (counting_poll i fl p m), ADone) else (m, ADone))"
| "tracker_step m TGuard = (connection_guard m, ADone)"
| "tracker_step m TDropGuard = (drop_guard m, ADone)"

fun finished_of :: "tracker_answer \<Rightarrow> connection_snapshot list" where
  "finished_of (AFinished x) = [x]"
| "finished_of _ = []"

definition finished :: "tracker_answer list \<Rightarrow> connection_snapshot list" where
  "finished as = concat (map finished_of as)"

lemmas tracker_defs = update_entry_def add_bytes_def incr_request_def incr_failed_def add_up_def add_down_def
  set_route_def set_open_def set_status_def connection_guard_def drop_guard_def counting_poll_def

subsection \<open>The history\<close>

interpretation history: bounded_ring hist_push "\<lambda>h. h" "\<lambda>_. history_len" "\<lambda>h. length h \<le> history_len"
proof unfold_locales
  fix h :: "connection_snapshot list" and x
  assume "length h \<le> history_len"
  then show "length (hist_push h x) \<le> history_len" and "hist_push h x = newest history_len (h @ [x])"
    by (auto simp: hist_push_def newest_def history_len_def drop_Suc)
qed auto

lemma tracker_step_closed:
  "tracker_step m op = (m', a) \<Longrightarrow> mt_closed m' = foldl hist_push (mt_closed m) (finished_of a)"
  by (cases op)
    (auto simp: tracker_defs tracked_start_def tracked_fail_def tracker_close_def Let_def
      split: if_splits option.splits prod.splits poll_result.splits frame.splits flow.splits)

lemma run_closed:
  "run tracker_step m ops = (m', as) \<Longrightarrow> mt_closed m' = foldl hist_push (mt_closed m) (finished as)"
proof (induction ops arbitrary: m as)
  case (Cons op ops)
  from Cons.prems obtain t a bs where "tracker_step m op = (t, a)" "run tracker_step t ops = (m', bs)" "as = a # bs"
    by (rule run_ConsE)
  with Cons.IH tracker_step_closed show ?case by (simp add: finished_def)
qed (simp add: finished_def)

text \<open>
  The history is exactly the last two hundred finished connections, in the order they
  finished: over every sequence of operations nothing else enters it, nothing is reordered,
  and only the oldest is ever forgotten.\<close>

theorem history_is_newest:
  "case run tracker_step metrics_default ops of
     (m, outs) \<Rightarrow> mt_closed m = newest 200 (finished outs) \<and> length (mt_closed m) \<le> 200"
proof (cases "run tracker_step metrics_default ops")
  case (Pair m as)
  then have "mt_closed m = foldl hist_push [] (finished as)"
    using run_closed [OF Pair] by (simp add: metrics_default_def)
  then have "mt_closed m = newest history_len (finished as)"
    using history.pushes_items [of "[]" "finished as"] by simp
  then show ?thesis using Pair by (simp add: history_len_def newest_length)
qed

subsection \<open>The open map\<close>

definition book_ok :: "metrics \<Rightarrow> bool" where
  "book_ok m \<longleftrightarrow> sorted_wrt (<) (map fst (mt_open m)) \<and>
     list_all (\<lambda>(k, e). en_id e = k \<and> k \<le> mt_next_id m \<and> en_failed e = is_failed (en_state e)
       \<and> en_state e \<noteq> StClosed) (mt_open m)"

lemma book_distinct: "book_ok m \<Longrightarrow> distinct (map fst (mt_open m))"
  by (auto simp: book_ok_def strict_sorted_iff)

lemma bt_insert_last: "\<forall>k' \<in> fst ` set xs. k' < k \<Longrightarrow> bt_insert k v xs = xs @ [(k, v)]"
  by (induction xs) (auto simp: less_not_sym)

lemma fst_update_entry [simp]: "map fst (mt_open (update_entry i f m)) = map fst (mt_open m)"
  by (simp add: update_entry_def comp_def case_prod_unfold)

lemma update_entry_frame [simp]:
  "mt_active (update_entry i f m) = mt_active m" "mt_total_requests (update_entry i f m) = mt_total_requests m"
  "mt_failed_requests (update_entry i f m) = mt_failed_requests m" "mt_bytes_in (update_entry i f m) = mt_bytes_in m"
  "mt_bytes_out (update_entry i f m) = mt_bytes_out m" "mt_next_id (update_entry i f m) = mt_next_id m"
  "mt_closed (update_entry i f m) = mt_closed m"
  by (simp_all add: update_entry_def)

lemma add_bytes_eq: "add_bytes a b m = m\<lparr>mt_bytes_in := mt_bytes_in m + a, mt_bytes_out := mt_bytes_out m + b\<rparr>"
  by (auto simp: add_bytes_def Let_def word_gt_0)

text \<open>Sums of a quantity over the open entries.\<close>

definition open_sum :: "(entry \<Rightarrow> u64) \<Rightarrow> metrics \<Rightarrow> u64" where
  "open_sum g m = sum_list (map (\<lambda>(k, e). g e) (mt_open m))"

lemma sum_list_update:
  fixes g :: "'e \<Rightarrow> u64"
  assumes "distinct (map fst xs)" and "map_of xs i = Some e"
  shows "sum_list (map (\<lambda>(k, e). g e) (map (\<lambda>(k, e). (k, if k = i then f e else e)) xs))
       = sum_list (map (\<lambda>(k, e). g e) xs) + (g (f e) - g e)"
  using assms
proof (induction xs)
  case (Cons x xs)
  obtain k e' where x: "x = (k, e')" by fastforce
  show ?case
  proof (cases "k = i")
    case True
    then have "i \<notin> fst ` set xs" using Cons.prems(1) x by auto
    then have "map (\<lambda>(k, e). (k, if k = i then f e else e)) xs = xs"
      by (intro map_idI) force
    then show ?thesis using True x Cons.prems(2) by simp
  next
    case False
    then show ?thesis using x Cons by simp
  qed
qed simp

lemma sum_list_remove:
  fixes g :: "'e \<Rightarrow> u64"
  assumes "distinct (map fst xs)" and "map_of xs i = Some e"
  shows "sum_list (map (\<lambda>(k, e). g e) (bt_remove i xs)) = sum_list (map (\<lambda>(k, e). g e) xs) - g e"
  using assms
proof (induction xs)
  case (Cons x xs)
  obtain k e' where x: "x = (k, e')" by fastforce
  show ?case
  proof (cases "k = i")
    case True
    then have "i \<notin> fst ` set xs" using Cons.prems(1) x by auto
    then have "bt_remove i xs = xs"
      unfolding bt_remove_def by (auto intro!: filter_True simp: rev_image_eqI)
    then show ?thesis using True x Cons.prems(2) by (simp add: bt_remove_def)
  next
    case False
    then show ?thesis using x Cons by (simp add: bt_remove_def)
  qed
qed simp

lemma update_entry_absent: "map_of (mt_open m) i = None \<Longrightarrow> update_entry i f m = m"
proof -
  assume "map_of (mt_open m) i = None"
  then have "map (\<lambda>(k, e). (k, if k = i then f e else e)) (mt_open m) = mt_open m"
    by (intro map_idI) (auto simp: map_of_eq_None_iff rev_image_eqI)
  then show ?thesis by (simp add: update_entry_def)
qed

lemma open_sum_update:
  assumes "book_ok m"
  shows "open_sum g (update_entry i f m) =
     open_sum g m + (case map_of (mt_open m) i of None \<Rightarrow> 0 | Some e \<Rightarrow> g (f e) - g e)"
proof (cases "map_of (mt_open m) i")
  case None
  then show ?thesis by (simp add: update_entry_absent)
next
  case (Some e)
  then show ?thesis
    using sum_list_update [OF book_distinct [OF assms] Some, of g f] by (simp add: open_sum_def update_entry_def)
qed

lemma open_sum_same: "book_ok m \<Longrightarrow> (\<And>e. g (f e) = g e) \<Longrightarrow> open_sum g (update_entry i f m) = open_sum g m"
  by (simp add: open_sum_update split: option.split)

lemma book_ok_update:
  assumes "book_ok m"
    and "\<And>e. map_of (mt_open m) i = Some e \<Longrightarrow> en_failed e = is_failed (en_state e) \<Longrightarrow> en_state e \<noteq> StClosed \<Longrightarrow>
        en_id (f e) = en_id e \<and> en_failed (f e) = is_failed (en_state (f e)) \<and> en_state (f e) \<noteq> StClosed"
  shows "book_ok (update_entry i f m)"
proof -
  have "list_all (\<lambda>(k, e). en_id e = k \<and> k \<le> mt_next_id m \<and> en_failed e = is_failed (en_state e)
      \<and> en_state e \<noteq> StClosed) (map (\<lambda>(k, e). (k, if k = i then f e else e)) (mt_open m))"
    unfolding list_all_iff
  proof (clarsimp split del: if_split)
    fix k e
    assume ke: "(k, e) \<in> set (mt_open m)"
    then have "map_of (mt_open m) k = Some e" using book_distinct [OF assms(1)] by simp
    moreover have "en_id e = k \<and> k \<le> mt_next_id m \<and> en_failed e = is_failed (en_state e) \<and> en_state e \<noteq> StClosed"
      using assms(1) ke by (auto simp: book_ok_def list_all_iff)
    ultimately show "en_id (if k = i then f e else e) = k \<and> k \<le> mt_next_id m \<and>
        en_failed (if k = i then f e else e) = is_failed (en_state (if k = i then f e else e)) \<and>
        en_state (if k = i then f e else e) \<noteq> StClosed"
      using assms(2) [of e] by auto
  qed
  moreover have "sorted_wrt (<) (map fst (mt_open (update_entry i f m)))"
    using assms(1) by (simp only: fst_update_entry) (simp add: book_ok_def)
  ultimately show ?thesis unfolding book_ok_def by (simp add: update_entry_def)
qed

lemma book_ok_counters [simp]:
  "book_ok (m\<lparr>mt_active := a\<rparr>) = book_ok m" "book_ok (m\<lparr>mt_failed_requests := n\<rparr>) = book_ok m"
  "book_ok (m\<lparr>mt_bytes_in := x\<rparr>) = book_ok m" "book_ok (m\<lparr>mt_bytes_out := x\<rparr>) = book_ok m"
  "book_ok (m\<lparr>mt_total_requests := n\<rparr>) = book_ok m"
  by (simp_all add: book_ok_def)

lemma open_sum_counters [simp]:
  "open_sum g (m\<lparr>mt_active := a\<rparr>) = open_sum g m" "open_sum g (m\<lparr>mt_failed_requests := n\<rparr>) = open_sum g m"
  "open_sum g (m\<lparr>mt_bytes_in := x\<rparr>) = open_sum g m" "open_sum g (m\<lparr>mt_bytes_out := x\<rparr>) = open_sum g m"
  "open_sum g (m\<lparr>mt_total_requests := n\<rparr>) = open_sum g m"
  by (simp_all add: open_sum_def)

subsection \<open>The ledger\<close>

definition failed_flag :: "entry \<Rightarrow> u64" where
  "failed_flag e = (if en_failed e then 1 else 0)"

text \<open>What the totals have beyond the open entries: what finished entries took with them.\<close>

definition settled :: "metrics \<Rightarrow> u64 \<times> u64 \<times> u64 \<times> u64" where
  "settled m =
     (mt_bytes_out m - open_sum en_up m, mt_bytes_in m - open_sum en_down m,
      mt_total_requests m - open_sum (\<lambda>_. 1) m, mt_failed_requests m - open_sum failed_flag m)"

definition settle :: "u64 \<times> u64 \<times> u64 \<times> u64 \<Rightarrow> connection_snapshot \<Rightarrow> u64 \<times> u64 \<times> u64 \<times> u64" where
  "settle l x =
     (case l of (a, b, c, d) \<Rightarrow>
        (a + sn_up x, b + sn_down x, c + 1, d + (if is_failed (sn_state x) then 1 else 0)))"

lemma start_step:
  assumes "book_ok m" and "Suc (unat (mt_next_id m)) < 2 ^ 64"
    and "tracked_start kind target route client wall now m = (m', i)"
  shows "book_ok m' \<and> settled m' = settled m \<and> unat (mt_next_id m') = Suc (unat (mt_next_id m))"
proof -
  have next_id: "unat (mt_next_id m + 1) = Suc (unat (mt_next_id m))"
    using assms(2) by (simp add: unat_word_ariths)
  then have less: "mt_next_id m < mt_next_id m + 1" by (simp add: word_less_nat_alt)
  have below: "\<forall>k \<in> fst ` set (mt_open m). k < mt_next_id m + 1"
    using assms(1) less by (fastforce simp: book_ok_def list_all_iff)
  have below_next: "k \<le> mt_next_id m + 1" if "k \<le> mt_next_id m" for k using that less by simp
  let ?e = "\<lparr>en_id = mt_next_id m + 1, en_target = target, en_client = client, en_opened_at = wall,
     en_started = now, en_up = 0, en_down = 0, en_failed = False, en_kind = kind, en_route = route,
     en_state = StConnecting\<rparr>"
  have m': "m' = m\<lparr>mt_next_id := mt_next_id m + 1, mt_open := mt_open m @ [(mt_next_id m + 1, ?e)],
      mt_total_requests := mt_total_requests m + 1\<rparr>"
    using assms(3) bt_insert_last [OF below] by (auto simp: tracked_start_def Let_def incr_request_def)
  have "book_ok m'"
    using assms(1) below below_next
    by (auto simp: m' book_ok_def sorted_wrt_append list_all_iff is_failed_def)
  moreover have "settled m' = settled m"
    by (simp add: m' settled_def open_sum_def failed_flag_def)
  ultimately show ?thesis using next_id by (simp add: m')
qed

lemma close_step:
  assumes "book_ok m" and "tracker_close i now m = (m', r)"
  shows "book_ok m' \<and> mt_next_id m' = mt_next_id m \<and>
     settled m' = (case r of None \<Rightarrow> settled m | Some x \<Rightarrow> settle (settled m) x)"
proof (cases "map_of (mt_open m) i")
  case None
  with assms show ?thesis by (auto simp: tracker_close_def)
next
  case (Some e)
  let ?x = "entry_snapshot (close_entry e) (now - en_started e)"
  have m': "m' = m\<lparr>mt_open := bt_remove i (mt_open m), mt_closed := hist_push (mt_closed m) ?x\<rparr>" and r: "r = Some ?x"
    using assms(2) Some by (simp_all add: tracker_close_def Let_def)
  have sub: "set (bt_remove i (mt_open m)) \<subseteq> set (mt_open m)" by (auto simp: bt_remove_def)
  have e: "en_failed e = is_failed (en_state e)"
    using assms(1) map_of_SomeD [OF Some] by (auto simp: book_ok_def list_all_iff)
  have sums: "open_sum g m' = open_sum g m - g e" for g
    using sum_list_remove [OF book_distinct [OF assms(1)] Some, of g] by (simp add: m' open_sum_def)
  have "sn_up ?x = en_up e" "sn_down ?x = en_down e" "is_failed (sn_state ?x) = en_failed e"
    using e by (auto simp: entry_snapshot_def close_entry_def is_failed_def)
  then have "settled m' = settle (settled m) ?x"
    by (simp add: settled_def settle_def sums) (simp add: m' failed_flag_def)
  moreover have "sorted_wrt (<) (map fst (bt_remove i (mt_open m)))"
    using assms(1) unfolding book_ok_def bt_remove_def
    by (metis (no_types, lifting) sorted_wrt_filter sorted_wrt_map)
  ultimately show ?thesis using assms(1) sub r by (auto simp: m' book_ok_def list_all_iff)
qed

lemma add_up_step: "book_ok m \<Longrightarrow> i \<in> fst ` set (mt_open m) \<Longrightarrow> book_ok (add_up i n m) \<and> settled (add_up i n m) = settled m"
  by (auto simp: add_up_def add_bytes_eq settled_def open_sum_update failed_flag_def intro!: book_ok_update
      split: option.split) (metis (no_types) map_of_eq_None_iff option.distinct(1) fst_conv image_eqI)+

lemma add_down_step: "book_ok m \<Longrightarrow> i \<in> fst ` set (mt_open m) \<Longrightarrow> book_ok (add_down i n m) \<and> settled (add_down i n m) = settled m"
  by (auto simp: add_down_def add_bytes_eq settled_def open_sum_update failed_flag_def intro!: book_ok_update
      split: option.split) (metis (no_types) map_of_eq_None_iff option.distinct(1) fst_conv image_eqI)+

lemma fail_step: "book_ok m \<Longrightarrow> book_ok (tracked_fail i r m) \<and> settled (tracked_fail i r m) = settled m"
  by (auto simp: tracked_fail_def incr_failed_def settled_def open_sum_update failed_flag_def is_failed_def
      intro!: book_ok_update split: option.split)

lemma frame_step:
  assumes "book_ok m"
    and "\<And>e. en_up (f e) = en_up e \<and> en_down (f e) = en_down e \<and> en_failed (f e) = en_failed e \<and> en_id (f e) = en_id e"
    and "\<And>e. is_failed (en_state (f e)) = is_failed (en_state e)"
    and "\<And>e. en_state e \<noteq> StClosed \<Longrightarrow> en_state (f e) \<noteq> StClosed"
  shows "book_ok (update_entry i f m) \<and> settled (update_entry i f m) = settled m"
  using assms(2-4) by (auto simp: settled_def open_sum_same [OF assms(1)] failed_flag_def intro!: book_ok_update [OF assms(1)])

lemma add_next_id [simp]:
  "mt_next_id (add_up i n m) = mt_next_id m" "mt_next_id (add_down i n m) = mt_next_id m"
  by (simp_all add: add_up_def add_down_def add_bytes_eq)

lemma tracker_step_ok:
  assumes "book_ok m" and "Suc (unat (mt_next_id m)) < 2 ^ 64" and "tracker_step m op = (m', a)"
  shows "book_ok m' \<and> settled m' = foldl settle (settled m) (finished_of a) \<and>
     unat (mt_next_id m') \<le> Suc (unat (mt_next_id m))"
proof (cases op)
  case (TStart kind target route client wall now)
  with assms start_step [OF assms(1,2)] show ?thesis by (auto split: prod.splits)
next
  case (TDrop i now)
  with assms(3) close_step [OF assms(1)] show ?thesis by (auto split: prod.splits option.splits)
next
  case (TAddUp i n)
  with assms add_up_step [OF assms(1), of i n] show ?thesis by (cases "i \<in> fst ` set (mt_open m)") auto
next
  case (TAddDown i n)
  with assms add_down_step [OF assms(1), of i n] show ?thesis by (cases "i \<in> fst ` set (mt_open m)") auto
next
  case (TPoll i fl p)
  with assms add_up_step [OF assms(1), of i] add_down_step [OF assms(1), of i] show ?thesis
    by (cases "i \<in> fst ` set (mt_open m)")
      (auto simp: counting_poll_def split: poll_result.splits frame.splits flow.splits)
next
  case (TFail i r)
  with assms fail_step [OF assms(1), of i r] show ?thesis
    by (auto simp: tracked_fail_def incr_failed_def split: option.splits)
next
  case (TSetRoute i r)
  with assms(3) frame_step [OF assms(1), of "\<lambda>e. e\<lparr>en_route := r\<rparr>" i] show ?thesis
    by (auto simp: set_route_def)
next
  case (TSetOpen i)
  with assms(3) frame_step [OF assms(1), of "\<lambda>e. if en_state e = StConnecting then e\<lparr>en_state := StOpen\<rparr> else e" i]
  show ?thesis by (auto simp: set_open_def is_failed_def)
next
  case (TSetStatus i st)
  let ?f = "\<lambda>e. e\<lparr>en_kind := with_status st (en_kind e)\<rparr>"
  have one: "book_ok (update_entry i ?f m) \<and> settled (update_entry i ?f m) = settled m"
    by (rule frame_step [OF assms(1)]) auto
  then have "book_ok (set_status i st m) \<and> settled (set_status i st m) = settled m"
    using frame_step [of "update_entry i ?f m" "\<lambda>e. if en_state e = StConnecting then e\<lparr>en_state := StOpen\<rparr> else e" i]
    by (auto simp: set_status_def set_open_def is_failed_def)
  then show ?thesis using assms(3) TSetStatus by (auto simp: set_status_def set_open_def)
qed (use assms in \<open>auto simp: connection_guard_def drop_guard_def settled_def\<close>)

lemma run_ledger:
  "run tracker_step m ops = (m', as) \<Longrightarrow> book_ok m \<Longrightarrow> unat (mt_next_id m) + length ops < 2 ^ 64 \<Longrightarrow>
     book_ok m' \<and> settled m' = foldl settle (settled m) (finished as)"
proof (induction ops arbitrary: m as)
  case (Cons op ops)
  from Cons.prems(1) obtain t a bs where step: "tracker_step m op = (t, a)"
    and rest: "run tracker_step t ops = (m', bs)" and as: "as = a # bs" by (rule run_ConsE)
  have "Suc (unat (mt_next_id m)) < 2 ^ 64" using Cons.prems(3) by simp
  note ok = tracker_step_ok [OF Cons.prems(2) this step]
  then have "unat (mt_next_id t) + length ops < 2 ^ 64" using Cons.prems(3) by simp
  with Cons.IH [OF rest] ok as show ?case by (simp add: finished_def)
qed (simp add: finished_def)

lemma foldl_settle:
  "foldl settle (a, b, c, d) xs =
     (a + sum_list (map sn_up xs), b + sum_list (map sn_down xs), c + of_nat (length xs),
      d + of_nat (length (filter (\<lambda>x. is_failed (sn_state x)) xs)))"
  by (induction xs arbitrary: a b c d) (auto simp: settle_def)

lemma open_sum_one: "open_sum (\<lambda>_. 1) m = of_nat (length (mt_open m))"
proof -
  have "sum_list (map (\<lambda>(k, e). 1 :: u64) xs) = of_nat (length xs)" for xs :: "(u64 \<times> entry) list"
    by (induction xs) auto
  then show ?thesis by (simp add: open_sum_def)
qed

lemma run_balance:
  assumes "run tracker_step metrics_default ops = (m, outs)" and "length ops < 2 ^ 64"
  shows "mt_bytes_out m = open_sum en_up m + sum_list (map sn_up (finished outs))"
    and "mt_bytes_in m = open_sum en_down m + sum_list (map sn_down (finished outs))"
    and "mt_total_requests m = of_nat (length (mt_open m)) + of_nat (length (finished outs))"
    and "mt_failed_requests m = open_sum failed_flag m
         + of_nat (length (filter (\<lambda>x. is_failed (sn_state x)) (finished outs)))"
    and "book_ok m"
proof -
  have "book_ok metrics_default" by (simp add: book_ok_def metrics_default_def)
  then have ok: "book_ok m" and led: "settled m = foldl settle (settled metrics_default) (finished outs)"
    using run_ledger [OF assms(1)] assms(2) by (simp_all add: metrics_default_def)
  have "settled metrics_default = (0, 0, 0, 0)"
    by (simp add: settled_def metrics_default_def open_sum_def)
  with led show "mt_bytes_out m = open_sum en_up m + sum_list (map sn_up (finished outs))"
    and "mt_bytes_in m = open_sum en_down m + sum_list (map sn_down (finished outs))"
    and "mt_total_requests m = of_nat (length (mt_open m)) + of_nat (length (finished outs))"
    and "mt_failed_requests m = open_sum failed_flag m
         + of_nat (length (filter (\<lambda>x. is_failed (sn_state x)) (finished outs)))"
    by (simp_all add: settled_def foldl_settle open_sum_one algebra_simps)
  show "book_ok m" by (rule ok)
qed

text \<open>C5
  The books balance. After any interleaving of at most 2^64 - 1 operations the uploaded and
  downloaded totals are the bytes of the open connections plus those of the finished ones,
  the requests are the open plus the finished connections, and the failures are the failed
  connections among them, each counted once however often its failure was reported; and
  the open entries are in the order of their ids.\<close>

theorem tracker_balance:
  assumes "length ops < 2 ^ 64"
  shows "case run tracker_step metrics_default ops of
     (m, outs) \<Rightarrow>
       mt_bytes_out m = open_sum en_up m + sum_list (map sn_up (finished outs)) \<and>
       mt_bytes_in m = open_sum en_down m + sum_list (map sn_down (finished outs)) \<and>
       mt_total_requests m = of_nat (length (mt_open m)) + of_nat (length (finished outs)) \<and>
       mt_failed_requests m = open_sum failed_flag m
         + of_nat (length (filter (\<lambda>x. is_failed (sn_state x)) (finished outs))) \<and>
       sorted_wrt (<) (map fst (mt_open m))"
proof (cases "run tracker_step metrics_default ops")
  case (Pair m as)
  from run_balance [OF Pair assms] show ?thesis using Pair by (simp add: book_ok_def)
qed

definition sample_ops :: "tracker_op list" where
  "sample_ops =
     [TStart KindTunnel ''a:443'' ''direct'' None 0 0, TStart KindTunnel ''b:443'' ''direct'' None 0 0,
      TAddUp 1 10, TAddDown 2 30, TFail 1 ''reset'', TFail 1 ''again'', TDrop 1 5]"

lemma tracker_balance_witness:
  "case run tracker_step metrics_default sample_ops of
     (m, outs) \<Rightarrow> mt_failed_requests m = open_sum failed_flag m
         + of_nat (length (filter (\<lambda>x. is_failed (sn_state x)) (finished outs)))"
proof -
  have "length sample_ops < 2 ^ 64" by (simp add: sample_ops_def)
  from tracker_balance [OF this] show ?thesis unfolding case_prod_beta by (elim conjE)
qed

subsection \<open>The state of a connection\<close>

text \<open>The transitions a connection makes; a failure is final, and keeps its first reason.\<close>

inductive conn_trans :: "connection_state \<Rightarrow> connection_state \<Rightarrow> bool" where
  Opens: "conn_trans StConnecting StOpen"
| FailsEarly: "conn_trans StConnecting (StFailed r)"
| FailsOpen: "conn_trans StOpen (StFailed r)"
| ClosesEarly: "conn_trans StConnecting StClosed"
| Closes: "conn_trans StOpen StClosed"
| Stays: "conn_trans s s"

inductive_simps conn_trans_failed [simp]: "conn_trans (StFailed r) s"

definition moves_ok :: "connection_state \<Rightarrow> metrics \<Rightarrow> tracker_answer \<Rightarrow> u64 \<Rightarrow> bool" where
  "moves_ok st m' a i \<longleftrightarrow>
     (case map_of (mt_open m') i of
        Some e' \<Rightarrow> conn_trans st (en_state e')
      | None \<Rightarrow> (\<exists>x. a = AFinished x \<and> conn_trans st (sn_state x) \<and> sn_state x \<in> {StClosed} \<union> range StFailed))"

lemma map_of_update_entry:
  "map_of (mt_open (update_entry j f m)) i = map_option (\<lambda>e. if i = j then f e else e) (map_of (mt_open m) i)"
proof -
  have "map_of (map (\<lambda>(k, e). (k, if k = j then f e else e)) xs) i =
      map_option (\<lambda>e. if i = j then f e else e) (map_of xs i)" for xs
    by (induction xs) auto
  then show ?thesis by (simp add: update_entry_def)
qed

lemma map_of_bt_remove: "map_of (bt_remove j xs) i = (if i = j then None else map_of xs i)"
  by (induction xs) (auto simp: bt_remove_def)

lemma map_of_bt_insert: "i \<noteq> j \<Longrightarrow> map_of (bt_insert j v xs) i = map_of xs i"
  by (induction xs) auto

lemma conn_trans_open: "st \<noteq> StClosed \<Longrightarrow> conn_trans st (if st = StConnecting then StOpen else st)"
  by (auto intro: conn_trans.intros)

lemma next_id_fresh:
  fixes n :: u64
  assumes "Suc (unat n) < 2 ^ 64" and "i \<le> n"
  shows "i \<noteq> n + 1"
proof
  assume "i = n + 1"
  then have "n + 1 \<le> n" using assms(2) by simp
  moreover have "unat (n + 1) = Suc (unat n)" using assms(1) by (simp add: unat_word_ariths)
  ultimately show False by (simp add: word_le_nat_alt)
qed

lemma drop_moves:
  assumes "map_of (mt_open m) i = Some e" and "en_failed e = is_failed (en_state e)" "en_state e \<noteq> StClosed"
    and "tracker_step m (TDrop j now) = (m', a)"
  shows "moves_ok (en_state e) m' a i"
proof (cases "j = i")
  case True
  then show ?thesis using assms
    by (cases "en_state e")
      (auto simp: tracker_close_def Let_def moves_ok_def map_of_bt_remove entry_snapshot_def
        close_entry_def is_failed_def intro: conn_trans.intros)
next
  case False
  then show ?thesis using assms
    by (auto simp: tracker_close_def Let_def moves_ok_def map_of_bt_remove conn_trans.Stays split: option.splits)
qed

lemma fail_moves:
  assumes "map_of (mt_open m) i = Some e" and "en_failed e = is_failed (en_state e)" "en_state e \<noteq> StClosed"
    and "tracker_step m (TFail j r) = (m', a)"
  shows "moves_ok (en_state e) m' a i"
proof (cases "j = i")
  case True
  then show ?thesis using assms
    by (cases "en_state e")
      (auto simp: tracked_fail_def incr_failed_def moves_ok_def map_of_update_entry is_failed_def
        update_entry_def [of _ _ "_\<lparr>mt_failed_requests := _\<rparr>"]
        map_of_update_entry [unfolded update_entry_def, simplified] intro: conn_trans.intros)
next
  case False
  then show ?thesis using assms
    by (auto simp: tracked_fail_def incr_failed_def moves_ok_def map_of_update_entry conn_trans.Stays
        split: option.splits if_splits)
qed

text \<open>C38
  Every operation moves each open connection along the life cycle Connecting, Open, then
  Closed or Failed: it opens only from Connecting, a recorded failure is never overwritten
  or cleared (not even by closing), and an entry leaves the open map only as a finished
  snapshot that is Closed or Failed. The hypotheses are the invariant that every run keeps
  and that ids have not wrapped.\<close>

theorem connection_life_cycle:
  assumes "book_ok m" and "Suc (unat (mt_next_id m)) < 2 ^ 64" and "map_of (mt_open m) i = Some e"
    and "tracker_step m op = (m', a)"
  shows "moves_ok (en_state e) m' a i"
proof -
  have e: "en_id e = i" "i \<le> mt_next_id m" "en_failed e = is_failed (en_state e)" "en_state e \<noteq> StClosed"
    using assms(1) map_of_SomeD [OF assms(3)] by (auto simp: book_ok_def list_all_iff)
  have upd: "moves_ok (en_state e) (update_entry j f m) ADone i"
    if "\<And>e. en_state e \<noteq> StClosed \<Longrightarrow> conn_trans (en_state e) (en_state (f e))" for j f
    using that e(4) assms(3) by (simp add: moves_ok_def map_of_update_entry conn_trans.Stays)
  have opens: "conn_trans (en_state e) (en_state (if en_state e = StConnecting then e\<lparr>en_state := StOpen\<rparr> else e))" for e
    by (auto intro: conn_trans.intros)
  show ?thesis
  proof (cases op)
    case (TStart kind target route client wall now)
    have "i \<noteq> mt_next_id m + 1" using assms(2) e(2) by (rule next_id_fresh)
    then show ?thesis using assms(3,4) TStart
      by (auto simp: tracked_start_def Let_def incr_request_def moves_ok_def map_of_bt_insert conn_trans.Stays)
  next
    case (TDrop j now)
    with assms(3,4) e(3,4) show ?thesis by (auto intro: drop_moves)
  next
    case (TFail j r)
    with assms(3,4) e(3,4) show ?thesis by (auto intro: fail_moves)
  next
    case (TSetOpen j)
    then show ?thesis
      using assms(4) upd [of "\<lambda>e. if en_state e = StConnecting then e\<lparr>en_state := StOpen\<rparr> else e" j, OF opens]
      by (auto simp: set_open_def)
  next
    case (TSetRoute j r)
    then show ?thesis using assms(4) upd [of "\<lambda>e. e\<lparr>en_route := r\<rparr>" j] by (simp add: set_route_def conn_trans.Stays)
  next
    case (TSetStatus j s)
    then show ?thesis using assms(3,4) opens
      by (auto simp: set_status_def set_open_def moves_ok_def map_of_update_entry intro: conn_trans.intros)
  qed (use assms(3,4) in \<open>auto simp: add_up_def add_down_def add_bytes_eq counting_poll_def connection_guard_def
      drop_guard_def moves_ok_def map_of_update_entry conn_trans.Stays
      split: if_splits poll_result.splits frame.splits flow.splits\<close>)
qed

definition sample_metrics :: metrics where
  "sample_metrics = fst (run tracker_step metrics_default
     [TStart KindTunnel ''a:443'' ''direct'' None 0 0, TSetOpen 1, TStart KindTunnel ''b:443'' ''direct'' None 0 0])"

lemma connection_life_cycle_witness:
  "moves_ok StOpen (fst (tracker_step sample_metrics (TFail 1 ''reset''))) ADone 1"
proof -
  have "book_ok sample_metrics" by code_simp
  moreover have "Suc (unat (mt_next_id sample_metrics)) < 2 ^ 64" by code_simp
  moreover obtain e where "map_of (mt_open sample_metrics) 1 = Some e" and e: "en_state e = StOpen"
  proof -
    have "map_option en_state (map_of (mt_open sample_metrics) 1) = Some StOpen" by code_simp
    then show ?thesis using that by auto
  qed
  moreover have "tracker_step sample_metrics (TFail 1 ''reset'')
      = (fst (tracker_step sample_metrics (TFail 1 ''reset'')), ADone)" by simp
  ultimately show ?thesis using connection_life_cycle e by metis
qed

subsection \<open>Snapshots\<close>

text \<open>
  A snapshot shows every open connection and the whole history once: the open ones first, by
  falling id (newest first), then the finished ones in reverse order of finishing; in every
  state that operations reach.\<close>

theorem snapshot_order:
  assumes "length ops < 2 ^ 64"
  shows "case run tracker_step metrics_default ops of
     (m, outs) \<Rightarrow> (\<exists>live.
       tracker_snapshot now m = live @ rev (newest 200 (finished outs)) \<and>
       map sn_id live = rev (map fst (mt_open m)) \<and> sorted_wrt (>) (map sn_id live))"
proof (cases "run tracker_step metrics_default ops")
  case (Pair m as)
  let ?live = "map (\<lambda>(k, e). entry_snapshot e (now - en_started e)) (rev (mt_open m))"
  have ok: "book_ok m"
    using run_ledger [OF Pair] assms by (simp add: metrics_default_def book_ok_def)
  then have "map sn_id ?live = rev (map fst (mt_open m))"
    by (auto simp: book_ok_def list_all_iff entry_snapshot_def rev_map)
  moreover have "sorted_wrt (>) (rev (map fst (mt_open m)))"
    using ok by (simp add: book_ok_def sorted_wrt_rev)
  moreover have "mt_closed m = newest 200 (finished as)"
    using run_closed [OF Pair] history.pushes_items [of "[]" "finished as"]
    by (simp add: metrics_default_def history_len_def)
  ultimately show ?thesis using Pair by (auto simp: tracker_snapshot_def)
qed

lemma snapshot_order_witness:
  "case run tracker_step metrics_default sample_ops of
     (m, outs) \<Rightarrow> (\<exists>live.
       tracker_snapshot 9 m = live @ rev (newest 200 (finished outs)) \<and>
       map sn_id live = rev (map fst (mt_open m)) \<and> sorted_wrt (>) (map sn_id live))"
  by (rule snapshot_order) (simp add: sample_ops_def)

subsection \<open>Ids are unique\<close>

text \<open>
  No two connections of a snapshot have the same id, open or finished: the keys of the map and
  the ids of the history stay apart, and below the counter.\<close>

definition ids_ok :: "metrics \<Rightarrow> bool" where
  "ids_ok m \<longleftrightarrow> distinct (map fst (mt_open m) @ map sn_id (mt_closed m)) \<and>
     list_all (\<lambda>i. i \<le> mt_next_id m) (map sn_id (mt_closed m))"

lemma keys_frame:
  assumes "tracker_step m op = (m', a)" and "\<not> (case op of TStart _ _ _ _ _ _ \<Rightarrow> True | TDrop _ _ \<Rightarrow> True | _ \<Rightarrow> False)"
  shows "map fst (mt_open m') = map fst (mt_open m) \<and> mt_closed m' = mt_closed m \<and> mt_next_id m' = mt_next_id m"
  using assms
  by (cases op)
    (auto simp: tracked_fail_def incr_failed_def set_route_def set_open_def set_status_def add_up_def add_down_def
      add_bytes_eq counting_poll_def connection_guard_def drop_guard_def
      split: option.splits if_splits poll_result.splits frame.splits flow.splits prod.splits)

lemma ids_ok_start:
  assumes "book_ok m" and "ids_ok m" and "Suc (unat (mt_next_id m)) < 2 ^ 64"
    and "tracked_start kind target route client wall now m = (m', i)"
  shows "ids_ok m'"
proof -
  have less: "mt_next_id m < mt_next_id m + 1"
    using assms(3) by (simp add: word_less_nat_alt unat_word_ariths)
  have below: "\<forall>k \<in> fst ` set (mt_open m). k < mt_next_id m + 1"
    using assms(1) less by (fastforce simp: book_ok_def list_all_iff)
  then have new: "mt_next_id m + 1 \<notin> fst ` set (mt_open m)" by blast
  have closed: "\<forall>x \<in> set (mt_closed m). sn_id x < mt_next_id m + 1"
    using assms(2) less by (fastforce simp: ids_ok_def list_all_iff)
  then have "mt_next_id m + 1 \<notin> sn_id ` set (mt_closed m)" by force
  moreover obtain e where "mt_open m' = mt_open m @ [(mt_next_id m + 1, e)]"
      "mt_closed m' = mt_closed m" "mt_next_id m' = mt_next_id m + 1"
    using assms(4) bt_insert_last [OF below] by (auto simp: tracked_start_def Let_def incr_request_def)
  ultimately show ?thesis
    using assms(2) new closed by (auto simp: ids_ok_def list_all_iff less_imp_le)
qed

lemma ids_ok_close:
  assumes "book_ok m" and "ids_ok m" and "tracker_close i now m = (m', r)"
  shows "ids_ok m'"
proof (cases "map_of (mt_open m) i")
  case None
  with assms show ?thesis by (auto simp: tracker_close_def)
next
  case (Some e)
  let ?x = "entry_snapshot (close_entry e) (now - en_started e)"
  have e: "en_id e = i" "i \<le> mt_next_id m" "i \<in> set (map fst (mt_open m))"
    using assms(1) map_of_SomeD [OF Some] by (force simp: book_ok_def list_all_iff)+
  then have x: "sn_id ?x = i" by (simp add: entry_snapshot_def close_entry_def)
  have m': "m' = m\<lparr>mt_open := bt_remove i (mt_open m), mt_closed := hist_push (mt_closed m) ?x\<rparr>"
    using assms(3) Some by (simp add: tracker_close_def Let_def)
  let ?h = "map sn_id (mt_closed m)"
  have h: "map sn_id (hist_push (mt_closed m) ?x) = (if length ?h = history_len then tl ?h else ?h) @ [i]"
    using x by (simp add: hist_push_def map_tl)
  have keys: "map fst (bt_remove i (mt_open m)) = filter (\<lambda>k. k \<noteq> i) (map fst (mt_open m))"
    by (simp add: bt_remove_def filter_map comp_def case_prod_unfold)
  have "set (tl ?h) \<subseteq> set ?h" by (cases ?h) auto
  moreover have "distinct ?h \<Longrightarrow> distinct (tl ?h)" by (rule distinct_tl)
  ultimately show ?thesis
    using assms(2) e unfolding m' ids_ok_def list_all_iff by (auto simp: h keys simp del: set_map split: if_splits)
qed

lemma ids_ok_step:
  assumes "book_ok m" and "ids_ok m" and "Suc (unat (mt_next_id m)) < 2 ^ 64" and "tracker_step m op = (m', a)"
  shows "ids_ok m'"
proof (cases op)
  case (TStart kind target route client wall now)
  with assms(4) ids_ok_start [OF assms(1-3)] show ?thesis by (auto split: prod.splits)
next
  case (TDrop i now)
  with assms(4) ids_ok_close [OF assms(1,2)] show ?thesis by (auto split: prod.splits option.splits)
qed (use keys_frame [OF assms(4)] assms(2) in \<open>auto simp: ids_ok_def\<close>)

lemma run_ids_ok:
  "run tracker_step m ops = (m', as) \<Longrightarrow> book_ok m \<Longrightarrow> ids_ok m \<Longrightarrow> unat (mt_next_id m) + length ops < 2 ^ 64 \<Longrightarrow>
     book_ok m' \<and> ids_ok m'"
proof (induction ops arbitrary: m as)
  case (Cons op ops)
  from Cons.prems(1) obtain t a bs where step: "tracker_step m op = (t, a)"
    and rest: "run tracker_step t ops = (m', bs)" by (rule run_ConsE)
  have bound: "Suc (unat (mt_next_id m)) < 2 ^ 64" using Cons.prems(4) by simp
  from tracker_step_ok [OF Cons.prems(2) bound step] ids_ok_step [OF Cons.prems(2,3) bound step] Cons.prems(4)
  show ?case by (intro Cons.IH [OF rest]) auto
qed simp

lemma snapshot_ids_distinct:
  assumes "length ops < 2 ^ 64"
  shows "distinct (map sn_id (tracker_snapshot now (fst (run tracker_step metrics_default ops))))"
proof -
  obtain m as where r: "run tracker_step metrics_default ops = (m, as)" by fastforce
  have ok: "book_ok m" "ids_ok m"
    using run_ids_ok [OF r] assms by (auto simp: metrics_default_def book_ok_def ids_ok_def)
  have "map sn_id (tracker_snapshot now m) = rev (map fst (mt_open m)) @ rev (map sn_id (mt_closed m))"
    using ok(1) by (auto simp: tracker_snapshot_def book_ok_def list_all_iff entry_snapshot_def rev_map)
  then show ?thesis using ok(2) r by (auto simp: ids_ok_def)
qed

end
