(* ===== verification/Tunnel.thy ===== *)
theory Tunnel
  imports Wire Tracker
begin

text \<open>
  The spliced tunnel of \<^verbatim>\<open>crates/zicade-proxy/src/tunnel.rs\<close>: the one-way pump,
  the wait policy once a direction has settled, the classification of the close and what is
  recorded of it. The two pumps run concurrently; when the other direction settles, counted
  from the first one, and how, is an argument of \<open>splice_outcomes\<close>, so every timing is covered
  (the theory \<open>Splice\<close> has the interleaved steps, and shows that they are what is said here).
  The lemmas show that a pump relays exactly its source, when a close counts as a failure
  and whom it blames, and how long a broken tunnel can linger.
\<close>

definition buffer_size :: nat where
  "buffer_size = 256 * 1024"

definition close_grace :: millis where
  "close_grace = 5000"

definition write_stall_timeout :: millis where
  "write_stall_timeout = 60000"

datatype direction = ClientToUpstream | UpstreamToClient

fun direction_str :: "direction \<Rightarrow> string" where
  "direction_str ClientToUpstream = ''client_to_upstream''"
| "direction_str UpstreamToClient = ''upstream_to_client''"

record tunnel_info =
  ti_client_remote :: "string option"
  ti_client_local :: "string option"
  ti_target :: string
  ti_upstream :: "string option"

definition addr :: "string option \<Rightarrow> string" where
  "addr a = (case a of Some s \<Rightarrow> s | None \<Rightarrow> ''-'')"

record pump_error =
  pe_op :: string
  pe_err :: io_error

definition who_reset :: "direction \<Rightarrow> string \<Rightarrow> string" where
  "who_reset dir op =
     (case dir of
        ClientToUpstream \<Rightarrow> if op = ''read'' then ''client'' else ''upstream''
      | UpstreamToClient \<Rightarrow> if op = ''read'' then ''upstream'' else ''client'')"

subsection \<open>One direction\<close>

text \<open>
  The fate of each coming \<^verbatim>\<open>write_all\<close> on the sink: accepted, failed or stalled
  (beyond \<open>write_stall_timeout\<close>) after \<open>n\<close> bytes were accepted; writes past the list are
  accepted.\<close>

datatype write_fate = WriteOk | WriteErr nat io_error | WriteStall nat

record sink =
  si_fates :: "write_fate list"
  si_got :: bytes
  si_shutdown :: bool

definition write_stalled :: io_error where
  "write_stalled =
     IoError KTimedOut (''write stalled for '' @ show_nat (write_stall_timeout div 1000)
       @ ''s (peer stopped consuming)'')"

definition sink_write :: "bytes \<Rightarrow> sink \<Rightarrow> (io_error + unit) \<times> sink" where
  "sink_write b k =
     (case si_fates k of
        [] \<Rightarrow> (Inr (), k\<lparr>si_got := si_got k @ b\<rparr>)
      | WriteOk # fs \<Rightarrow> (Inr (), k\<lparr>si_fates := fs, si_got := si_got k @ b\<rparr>)
      | WriteErr n e # fs \<Rightarrow> (Inl e, k\<lparr>si_fates := fs, si_got := si_got k @ take n b\<rparr>)
      | WriteStall n # fs \<Rightarrow> (Inl write_stalled, k\<lparr>si_fates := fs, si_got := si_got k @ take n b\<rparr>))"

text \<open>\<open>PumpOpen\<close>: the source is idle but open, and the pump waits, as it may for ever.\<close>

datatype pump_result = PumpDone | PumpFailed pump_error | PumpOpen

function pump :: "socket \<Rightarrow> sink \<Rightarrow> nat list \<Rightarrow> pump_result \<times> socket \<times> sink \<times> nat list" where
  "pump r w relayed =
     (case read buffer_size r of
        (Failed e, r') \<Rightarrow> (PumpFailed \<lparr>pe_op = ''read'', pe_err = e\<rparr>, r', w, relayed)
      | (Stalled, r') \<Rightarrow> (PumpOpen, r', w, relayed)
      | (Done b, r') \<Rightarrow>
          if b = [] then (PumpDone, r', w\<lparr>si_shutdown := True\<rparr>, relayed)
          else (case sink_write b w of
                  (Inl e, w') \<Rightarrow> (PumpFailed \<lparr>pe_op = ''write'', pe_err = e\<rparr>, r', w', relayed)
                | (Inr _, w') \<Rightarrow> pump r' w' (relayed @ [length b])))"
  by auto
termination
  by (relation "measure (\<lambda>(r, w, relayed). length (rx_bytes r))")
    (auto dest!: read_progress [OF sym] simp: buffer_size_def)

declare pump.simps [simp del]

lemma sink_write_cases:
  assumes "sink_write b w = (x, w')"
  shows "si_shutdown w' = si_shutdown w \<and>
     (case x of Inr _ \<Rightarrow> si_got w' = si_got w @ b | Inl _ \<Rightarrow> (\<exists>n. si_got w' = si_got w @ take n b))"
  using assms by (auto simp: sink_write_def split: list.splits write_fate.splits)

lemma pump_relayed:
  "pump r w relayed = (x, r', w', relayed') \<Longrightarrow>
     (\<exists>got extra. si_got w' = si_got w @ got @ extra \<and> prefix (got @ extra) (rx_bytes r) \<and>
        sum_list relayed' = sum_list relayed + length got \<and>
        ((\<forall>e. x \<noteq> PumpFailed e \<or> pe_op e = ''read'') \<longrightarrow> extra = [] \<and> got = rx_bytes r)) \<and>
     (x = PumpDone \<longrightarrow> si_shutdown w' \<and> sk_end r = EndEof) \<and>
     (x \<noteq> PumpDone \<longrightarrow> si_shutdown w' = si_shutdown w) \<and>
     (\<forall>e. x = PumpFailed e \<longrightarrow> pe_op e \<in> {''read'', ''write''})"
proof (induction r w relayed arbitrary: x r' w' relayed' rule: pump.induct)
  case (1 r w relayed)
  have pos: "0 < buffer_size" by (simp add: buffer_size_def)
  obtain y t where y: "read buffer_size r = (y, t)" by fastforce
  from y pos show ?case
  proof (cases rule: read_cases)
    case (Data b)
    obtain z w1 where z: "sink_write b w = (z, w1)" by fastforce
    show ?thesis
    proof (cases z)
      case (Inl e)
      then have x: "x = PumpFailed \<lparr>pe_op = ''write'', pe_err = e\<rparr>" "w' = w1" "relayed' = relayed"
        using "1.prems" y z Data(1,2) by (simp_all add: pump.simps [of r w relayed])
      obtain n where "si_got w1 = si_got w @ take n b" "si_shutdown w1 = si_shutdown w"
        using sink_write_cases [OF z] Inl by auto
      moreover have "prefix (take n b) (rx_bytes r)"
        using Data(4) by (metis prefixI prefix_order.trans take_is_prefix)
      ultimately show ?thesis using x by (auto intro!: exI [of _ "[]"] exI [of _ "take n b"])
    next
      case (Inr u)
      then have rest: "pump t w1 (relayed @ [length b]) = (x, r', w', relayed')"
        using "1.prems" y z Data(1,2) by (simp add: pump.simps [of r w relayed])
      have w1: "si_got w1 = si_got w @ b" "si_shutdown w1 = si_shutdown w"
        using sink_write_cases [OF z] Inr by auto
      from "1.IH" [OF y [symmetric] Data(1) Data(2) z [symmetric] Inr rest]
      obtain got extra where ge: "si_got w' = si_got w1 @ got @ extra" "prefix (got @ extra) (rx_bytes t)"
        "sum_list relayed' = sum_list (relayed @ [length b]) + length got"
        "(\<forall>e. x \<noteq> PumpFailed e \<or> pe_op e = ''read'') \<longrightarrow> extra = [] \<and> got = rx_bytes t"
        and fin: "(x = PumpDone \<longrightarrow> si_shutdown w' \<and> sk_end t = EndEof)"
        "(x \<noteq> PumpDone \<longrightarrow> si_shutdown w' = si_shutdown w1)" "\<forall>e. x = PumpFailed e \<longrightarrow> pe_op e \<in> {''read'', ''write''}"
        by auto
      have "\<exists>got extra. si_got w' = si_got w @ got @ extra \<and> prefix (got @ extra) (rx_bytes r) \<and>
          sum_list relayed' = sum_list relayed + length got \<and>
          ((\<forall>e. x \<noteq> PumpFailed e \<or> pe_op e = ''read'') \<longrightarrow> extra = [] \<and> got = rx_bytes r)"
        by (rule exI [of _ "b @ got"], rule exI [of _ extra]) (use ge w1 Data(4) in \<open>simp\<close>)
      then show ?thesis using fin w1 Data(5) by simp
    qed
  next
    case Quiet
    then show ?thesis using "1.prems" y
      by (cases "sk_end r") (auto simp: pump.simps [of r w relayed])
  qed
qed

text \<open>
  A direction is relayed byte for byte. The sink has received a prefix of what the source
  sent, in order, whatever the sizes of the reads; all of it unless a write failed; the
  count that reaches the tracker is the length of the accepted chunks; and the sink is
  half-closed exactly when the source ended cleanly.\<close>

theorem pump_relays:
  "case pump r \<lparr>si_fates = fates, si_got = [], si_shutdown = False\<rparr> [] of
     (x, r', w', relayed) \<Rightarrow>
       prefix (si_got w') (rx_bytes r) \<and> sum_list relayed \<le> length (si_got w') \<and>
       (si_shutdown w' \<longleftrightarrow> x = PumpDone) \<and>
       (case x of
          PumpFailed e \<Rightarrow> pe_op e = ''write'' \<or>
            pe_op e = ''read'' \<and> si_got w' = rx_bytes r \<and> sum_list relayed = length (rx_bytes r)
        | _ \<Rightarrow> si_got w' = rx_bytes r \<and> sum_list relayed = length (rx_bytes r))"
proof -
  obtain x r' w' relayed where p: "pump r \<lparr>si_fates = fates, si_got = [], si_shutdown = False\<rparr> [] = (x, r', w', relayed)"
    by (metis prod_cases4)
  from pump_relayed [OF p] show ?thesis
    unfolding p by (cases x) (auto intro: prefixI)
qed

subsection \<open>Closing\<close>

datatype wait = WaitFull | WaitGrace | WaitNone

datatype pump_outcome = OutEof | OutFailed pump_error | OutDropped

definition from_res :: "pump_error + unit \<Rightarrow> pump_outcome" where
  "from_res r = (case r of Inr _ \<Rightarrow> OutEof | Inl e \<Rightarrow> OutFailed e)"

fun outcome_str :: "pump_outcome \<Rightarrow> string" where
  "outcome_str OutEof = ''eof''"
| "outcome_str (OutFailed _) = ''failed''"
| "outcome_str OutDropped = ''dropped''"

definition wait_for :: "pump_error + unit \<Rightarrow> direction \<Rightarrow> wait" where
  "wait_for res dir =
     (case res of
        Inr _ \<Rightarrow> WaitFull
      | Inl e \<Rightarrow> if who_reset dir (pe_op e) = ''client'' then WaitNone else WaitGrace)"

text \<open>
  When and how the other direction settles: \<open>Some (t, r)\<close> at \<open>t\<close> milliseconds after the
  first, \<open>None\<close> never. The result is the outcome and the time waited for it; \<open>None\<close> when
  the splice waits for ever on a direction that stays open.\<close>

definition drain_other :: "wait \<Rightarrow> (millis \<times> (pump_error + unit)) option \<Rightarrow> (pump_outcome \<times> millis) option" where
  "drain_other w other =
     (case w of
        WaitFull \<Rightarrow> map_option (\<lambda>(t, r). (from_res r, t)) other
      | WaitGrace \<Rightarrow>
          Some (case other of
                  Some (t, r) \<Rightarrow> if t \<le> close_grace then (from_res r, t) else (OutDropped, close_grace)
                | None \<Rightarrow> (OutDropped, close_grace))
      | WaitNone \<Rightarrow> Some (OutDropped, 0))"

text \<open>The \<^verbatim>\<open>select!\<close>: which direction settled first, how, and the other one.\<close>

definition splice_outcomes ::
    "direction \<Rightarrow> pump_error + unit \<Rightarrow> (millis \<times> (pump_error + unit)) option
     \<Rightarrow> ((pump_outcome \<times> pump_outcome) \<times> millis) option" where
  "splice_outcomes first r other =
     (case drain_other (wait_for r first) other of
        None \<Rightarrow> None
      | Some (out, t) \<Rightarrow>
          Some (case first of
                  ClientToUpstream \<Rightarrow> ((from_res r, out), t)
                | UpstreamToClient \<Rightarrow> ((out, from_res r), t)))"

definition real_failure :: "pump_outcome \<Rightarrow> pump_outcome \<Rightarrow> (pump_error \<times> direction) option" where
  "real_failure c2u u2c =
     (case (c2u, u2c) of
        (OutFailed e, d) \<Rightarrow>
          if pe_op e = ''write'' then Some (e, ClientToUpstream)
          else (case d of
                  OutEof \<Rightarrow> None
                | OutFailed e' \<Rightarrow> Some (e', UpstreamToClient)
                | OutDropped \<Rightarrow> Some (e, ClientToUpstream))
      | (_, OutEof) \<Rightarrow> None
      | (_, OutFailed e') \<Rightarrow> Some (e', UpstreamToClient)
      | _ \<Rightarrow> None)"

record splice_report =
  sr_result :: "io_error + unit"
  sr_fail :: "string option"
  sr_teardown_reset :: bool

definition splice_report_of :: "pump_outcome \<Rightarrow> pump_outcome \<Rightarrow> splice_report" where
  "splice_report_of c2u u2c =
     (case real_failure c2u u2c of
        Some (pe, dir) \<Rightarrow>
          \<lparr>sr_result = Inl (IoError (kind_of (pe_err pe)) (io_message (pe_err pe))),
           sr_fail = Some (who_reset dir (pe_op pe) @ '' reset the tunnel: '' @ io_message (pe_err pe)),
           sr_teardown_reset = False\<rparr>
      | None \<Rightarrow>
          \<lparr>sr_result = Inr (), sr_fail = None,
           sr_teardown_reset = ((\<exists>e. c2u = OutFailed e) \<or> (\<exists>e. u2c = OutFailed e))\<rparr>)"

text \<open>
  What a splice does to the tracker: it opens the entry, counts the relayed chunks of both
  directions in the order they were relayed, and records a failure.\<close>

definition splice_ops :: "u64 \<Rightarrow> (direction \<times> nat) list \<Rightarrow> splice_report \<Rightarrow> tracker_op list" where
  "splice_ops i chunks report =
     TSetOpen i #
     map (\<lambda>(dir, n). case dir of ClientToUpstream \<Rightarrow> TAddUp i (of_nat n) | UpstreamToClient \<Rightarrow> TAddDown i (of_nat n)) chunks @
     (case sr_fail report of Some reason \<Rightarrow> [TFail i reason] | None \<Rightarrow> [])"

definition splice ::
    "u64 \<Rightarrow> (direction \<times> nat) list \<Rightarrow> direction \<Rightarrow> pump_error + unit
     \<Rightarrow> (millis \<times> (pump_error + unit)) option \<Rightarrow> metrics \<Rightarrow> (metrics \<times> (io_error + unit)) option" where
  "splice i chunks first r other m =
     (case splice_outcomes first r other of
        None \<Rightarrow> None
      | Some ((c2u, u2c), _) \<Rightarrow>
          (let report = splice_report_of c2u u2c
           in Some (fst (run tracker_step m (splice_ops i chunks report)), sr_result report)))"

text \<open>Direct mode dials the target first.\<close>

definition tunnel ::
    "u64 \<Rightarrow> tunnel_info \<Rightarrow> io_error + unit \<Rightarrow> (direction \<times> nat) list \<Rightarrow> direction \<Rightarrow> pump_error + unit
     \<Rightarrow> (millis \<times> (pump_error + unit)) option \<Rightarrow> metrics \<Rightarrow> (metrics \<times> (io_error + unit)) option" where
  "tunnel i info dial chunks first r other m =
     (case dial of
        Inl e \<Rightarrow> Some (tracked_fail i (''could not reach '' @ ti_target info @ '': '' @ io_message e) m, Inl e)
      | Inr _ \<Rightarrow> splice i chunks first r other m)"

subsection \<open>Who is blamed\<close>

text \<open>The endpoint whose socket a failed operation was on: a read's source or a write's sink.\<close>

definition endpoint_of :: "direction \<Rightarrow> string \<Rightarrow> string" where
  "endpoint_of dir op =
     (if (dir = ClientToUpstream) = (op = ''read'') then ''client'' else ''upstream'')"

lemma who_reset_endpoint: "who_reset dir op = endpoint_of dir op"
  by (cases dir) (auto simp: who_reset_def endpoint_of_def)

text \<open>C13
  A closed tunnel is a success exactly when the download reached a clean end and no write
  towards the upstream failed: a client that resets after its response was delivered is no
  failure, an upload the upstream refused always is one. A failure is blamed on the endpoint
  whose socket failed, and the failure reported is one that really happened in the direction
  named. This holds of every pair of outcomes the wait policy can produce.\<close>

theorem tunnel_close_classified:
  "case splice_outcomes first r other of
     None \<Rightarrow> True
   | Some ((c2u, u2c), _) \<Rightarrow>
       (real_failure c2u u2c = None \<longleftrightarrow>
          u2c = OutEof \<and> (case c2u of OutFailed e \<Rightarrow> pe_op e \<noteq> ''write'' | _ \<Rightarrow> True)) \<and>
       (case real_failure c2u u2c of
          None \<Rightarrow> sr_fail (splice_report_of c2u u2c) = None
        | Some (e, dir) \<Rightarrow>
            (case dir of ClientToUpstream \<Rightarrow> c2u = OutFailed e | UpstreamToClient \<Rightarrow> u2c = OutFailed e) \<and>
            sr_fail (splice_report_of c2u u2c) =
              Some (endpoint_of dir (pe_op e) @ '' reset the tunnel: '' @ io_message (pe_err e)))"
proof (cases "splice_outcomes first r other")
  case (Some x)
  obtain c2u u2c t where x: "x = ((c2u, u2c), t)" by (metis surj_pair)
  have no_drop: "\<not> (c2u \<in> {OutEof, OutDropped} \<and> u2c = OutDropped)"
    using Some x
    by (cases first; cases r; cases other)
      (auto simp: splice_outcomes_def drain_other_def wait_for_def from_res_def
        split: if_splits sum.splits)
  show ?thesis
    unfolding Some x
    using no_drop
    by (cases c2u; cases u2c)
      (auto simp: real_failure_def splice_report_of_def who_reset_endpoint)
qed simp

text \<open>
  A broken tunnel does not linger: once a direction has failed, the splice ends at once when
  it was the client that broke and within the five seconds of grace otherwise; it waits
  without limit only after a clean end of one direction, and then for the other direction's
  own end.\<close>

theorem tunnel_linger_bounded:
  "case splice_outcomes first r other of
     None \<Rightarrow> r = Inr () \<and> other = None
   | Some (_, t) \<Rightarrow>
       (case r of
          Inl e \<Rightarrow> t \<le> (if endpoint_of first (pe_op e) = ''client'' then 0 else 5000)
        | Inr _ \<Rightarrow> map_option fst other = Some t)"
  by (cases r; cases other; cases first)
    (auto simp: splice_outcomes_def drain_other_def wait_for_def close_grace_def who_reset_endpoint)

end
