(* ===== verification/Http_Forward.thy ===== *)
theory Http_Forward
  imports Upstream_Forward Tunnel
begin

text \<open>
  Per-request handling: \<^verbatim>\<open>crates/zicade-proxy/src/http_forward.rs\<close>. What the
  network answers (a dialed upstream tunnel, a PAC resolution, a forwarded response) is an
  argument of each handler; a handler returns the response's status, the tracker operations
  it performs on the request's entry, and the task it leaves running for an upgraded
  connection. Logging is left out.
  The lemmas say what reaches an origin, which handler each request gets, and that the
  client's status and the tracker agree about failures.
\<close>

definition authority_target :: "uri \<Rightarrow> string option" where
  "authority_target u =
     map_option (\<lambda>a. au_host a @ '':'' @ show_word (case au_port a of Some p \<Rightarrow> p | None \<Rightarrow> 80)) (ur_authority u)"

definition route_label :: "('f, 'r) routing \<Rightarrow> string" where
  "route_label r =
     (case r of
        RoutingDirect \<Rightarrow> ''direct'' | RoutingUpstream target \<Rightarrow> ut_addr target | RoutingPac _ \<Rightarrow> ''pac'')"

subsection \<open>Origin form\<close>

definition contains_key :: "header_list \<Rightarrow> string \<Rightarrow> bool" where
  "contains_key hs name \<longleftrightarrow> header hs name \<noteq> None"

definition set_host :: "(string \<Rightarrow> bool) \<Rightarrow> request_parts \<Rightarrow> header_list" where
  "set_host hval_ok parts =
     (if \<not> contains_key (rq_headers parts) ''host'' then
        (case ur_authority (rq_uri parts) of
           Some a \<Rightarrow> if hval_ok (au_text a) then rq_headers parts @ [(''host'', au_text a)] else rq_headers parts
         | None \<Rightarrow> rq_headers parts)
      else rq_headers parts)"

text \<open>\<open>reparse\<close> is \<^verbatim>\<open>str::parse::<Uri>\<close>.\<close>

definition to_origin_form ::
    "(string \<Rightarrow> bool) \<Rightarrow> (string \<Rightarrow> uri option) \<Rightarrow> request_parts \<Rightarrow> request_parts" where
  "to_origin_form hval_ok reparse parts =
     (let headers = set_host hval_ok parts;
          origin_form = (case ur_path_and_query (rq_uri parts) of Some pq \<Rightarrow> pq | None \<Rightarrow> ''/'');
          slash = \<lparr>ur_authority = None, ur_path_and_query = Some ''/'', ur_text = ''/''\<rparr>
      in parts\<lparr>rq_uri := (case reparse origin_form of Some u \<Rightarrow> u | None \<Rightarrow> slash),
               rq_headers := filter (\<lambda>(name, v). name \<noteq> ''proxy-connection'') headers\<rparr>)"

subsection \<open>Handlers\<close>

record client_endpoints =
  ce_remote :: "string option"
  ce_local :: "string option"

definition fmt_addr :: "string option \<Rightarrow> string" where
  "fmt_addr a = (case a of Some s \<Rightarrow> s | None \<Rightarrow> ''-'')"

text \<open>
  What is left running after the response: the direct tunnel, or the splice on an
  established upstream stream.\<close>

datatype background = BgNone | BgTunnel tunnel_info | BgSplice tunnel_info socket

record handled =
  hd_status :: u16
  hd_ops :: "tracker_op list"
  hd_background :: background

definition error_response :: "u16 \<Rightarrow> tracker_op list \<Rightarrow> handled" where
  "error_response status ops = \<lparr>hd_status = status, hd_ops = ops, hd_background = BgNone\<rparr>"

definition handle_connect :: "string \<Rightarrow> client_endpoints \<Rightarrow> handled" where
  "handle_connect target client =
     \<lparr>hd_status = 200, hd_ops = [],
      hd_background = BgTunnel \<lparr>ti_client_remote = ce_remote client, ti_client_local = ce_local client,
                                ti_target = target, ti_upstream = None\<rparr>\<rparr>"

text \<open>\<open>dial\<close> is \<open>connect_via_upstream\<close> in the world of the request.\<close>

definition handle_connect_upstream ::
    "('f upstream_target \<Rightarrow> string \<Rightarrow> io_error + socket) \<Rightarrow> u64 \<Rightarrow> string \<Rightarrow> 'f upstream_target
     \<Rightarrow> client_endpoints \<Rightarrow> handled" where
  "handle_connect_upstream dial i dst target client =
     (case dial target dst of
        Inl err \<Rightarrow> error_response 502 [TFail i (''upstream CONNECT failed: '' @ io_message err)]
      | Inr peer \<Rightarrow>
          \<lparr>hd_status = 200, hd_ops = [],
           hd_background = BgSplice \<lparr>ti_client_remote = ce_remote client, ti_client_local = ce_local client,
                                     ti_target = dst, ti_upstream = Some (ut_addr target)\<rparr> peer\<rparr>)"

definition prepend_ops :: "tracker_op list \<Rightarrow> handled \<Rightarrow> handled" where
  "prepend_ops ops h = h\<lparr>hd_ops := ops @ hd_ops h\<rparr>"

definition handle_connect_pac ::
    "('f upstream_target \<Rightarrow> string \<Rightarrow> io_error + socket) \<Rightarrow> ('r \<Rightarrow> string \<Rightarrow> io_error + 'f route_choice)
     \<Rightarrow> u64 \<Rightarrow> string \<Rightarrow> 'r \<Rightarrow> client_endpoints \<Rightarrow> handled" where
  "handle_connect_pac dial resolve i dst router client =
     (case resolve router (''https://'' @ dst) of
        Inr ChoiceDirect \<Rightarrow> prepend_ops [TSetRoute i ''direct''] (handle_connect dst client)
      | Inr (ChoiceUpstream target) \<Rightarrow>
          prepend_ops [TSetRoute i (ut_addr target)] (handle_connect_upstream dial i dst target client)
      | Inl err \<Rightarrow> error_response 502 [TFail i (''PAC resolution failed: '' @ io_message err)])"

fun show_forward_error :: "forward_error \<Rightarrow> string" where
  "show_forward_error (FwdIo e) = io_message e"
| "show_forward_error (FwdHyper m) = m"
| "show_forward_error (FwdMessage m) = m"

text \<open>
  The two ways to forward: \<open>origin\<close> dials the target and sends the request in origin form,
  \<open>via\<close> is \<open>forward_via_upstream\<close> on a target. Each answers with a status or an error.\<close>

definition forward_http ::
    "(string \<Rightarrow> bool) \<Rightarrow> (string \<Rightarrow> uri option) \<Rightarrow> (string \<Rightarrow> request_parts \<Rightarrow> forward_error + u16)
     \<Rightarrow> request_parts \<Rightarrow> forward_error + u16" where
  "forward_http hval_ok reparse origin parts =
     (case authority_target (rq_uri parts) of
        None \<Rightarrow> Inl (FwdMessage ''request missing host authority'')
      | Some target \<Rightarrow> origin target (to_origin_form hval_ok reparse parts))"

definition forward_pac ::
    "(request_parts \<Rightarrow> forward_error + u16) \<Rightarrow> ('f upstream_target \<Rightarrow> request_parts \<Rightarrow> forward_error + u16)
     \<Rightarrow> ('r \<Rightarrow> string \<Rightarrow> io_error + 'f route_choice) \<Rightarrow> u64 \<Rightarrow> 'r \<Rightarrow> request_parts
     \<Rightarrow> (forward_error + u16) \<times> tracker_op list" where
  "forward_pac direct via resolve i router parts =
     (case resolve router (ur_text (rq_uri parts)) of
        Inl e \<Rightarrow> (Inl (FwdIo e), [])
      | Inr ChoiceDirect \<Rightarrow> (direct parts, [TSetRoute i ''direct''])
      | Inr (ChoiceUpstream target) \<Rightarrow> (via target parts, [TSetRoute i (ut_addr target)]))"

definition forward_tracked ::
    "(request_parts \<Rightarrow> forward_error + u16) \<Rightarrow> ('f upstream_target \<Rightarrow> request_parts \<Rightarrow> forward_error + u16)
     \<Rightarrow> ('r \<Rightarrow> string \<Rightarrow> io_error + 'f route_choice) \<Rightarrow> u64 \<Rightarrow> ('f, 'r) routing \<Rightarrow> request_parts \<Rightarrow> handled" where
  "forward_tracked direct via resolve i routing parts =
     (let (result, ops) =
            (case routing of
               RoutingDirect \<Rightarrow> (direct parts, [])
             | RoutingUpstream target \<Rightarrow> (via target parts, [])
             | RoutingPac router \<Rightarrow> forward_pac direct via resolve i router parts)
      in case result of
           Inr status \<Rightarrow> \<lparr>hd_status = status, hd_ops = ops @ [TSetStatus i status], hd_background = BgNone\<rparr>
         | Inl err \<Rightarrow> error_response 502 (ops @ [TFail i (show_forward_error err)]))"

text \<open>The services of the network that one request may use.\<close>

record ('f, 'r) network =
  nw_dial :: "'f upstream_target \<Rightarrow> string \<Rightarrow> io_error + socket"
  nw_resolve :: "'r \<Rightarrow> string \<Rightarrow> io_error + 'f route_choice"
  nw_origin :: "request_parts \<Rightarrow> forward_error + u16"
  nw_via :: "'f upstream_target \<Rightarrow> request_parts \<Rightarrow> forward_error + u16"

definition proxy_service ::
    "('f, 'r) network \<Rightarrow> request_parts \<Rightarrow> ('f, 'r) routing \<Rightarrow> client_endpoints \<Rightarrow> millis \<Rightarrow> millis
     \<Rightarrow> metrics \<Rightarrow> metrics \<times> u16 \<times> background" where
  "proxy_service nw parts routing client wall now m =
     (case authority_target (rq_uri parts) of
        None \<Rightarrow> (m, hd_status (error_response 400 []), BgNone)
      | Some target \<Rightarrow>
          let connect = rq_method parts = ''CONNECT'';
              kind = (if connect then KindTunnel else KindHttp (rq_method parts) None);
              (m1, i) = tracked_start kind target (route_label routing) (ce_remote client) wall now m;
              h = (if connect then
                     (case routing of
                        RoutingDirect \<Rightarrow> handle_connect target client
                      | RoutingUpstream upstream \<Rightarrow> handle_connect_upstream (nw_dial nw) i target upstream client
                      | RoutingPac router \<Rightarrow> handle_connect_pac (nw_dial nw) (nw_resolve nw) i target router client)
                   else forward_tracked (nw_origin nw) (nw_via nw) (nw_resolve nw) i routing parts)
          in (fst (run tracker_step m1 (hd_ops h)), hd_status h, hd_background h))"

lemmas handler_defs = handle_connect_def handle_connect_upstream_def handle_connect_pac_def forward_tracked_def
  forward_pac_def error_response_def prepend_ops_def

subsection \<open>What reaches an origin\<close>

lemma origin_form_header_values:
  "header_values (rq_headers (to_origin_form hval_ok reparse parts)) name =
     (if name = ''proxy-connection'' then []
      else if name = ''host'' \<and> header_values (rq_headers parts) ''host'' = [] then
        (case ur_authority (rq_uri parts) of
           Some a \<Rightarrow> if hval_ok (au_text a) then [au_text a] else []
         | None \<Rightarrow> [])
      else header_values (rq_headers parts) name)"
proof -
  have has: "contains_key hs ''host'' \<longleftrightarrow> header_values hs ''host'' \<noteq> []" for hs
    by (induction hs) (auto simp: contains_key_def header_def header_values_def)
  have drop: "header_values (filter (\<lambda>(n, v). n \<noteq> ''proxy-connection'') hs) name =
      (if name = ''proxy-connection'' then [] else header_values hs name)" for hs
    by (induction hs) (auto simp: header_values_def)
  have host: "header_values (set_host hval_ok parts) name =
      (if name = ''host'' \<and> header_values (rq_headers parts) ''host'' = [] then
         (case ur_authority (rq_uri parts) of
            Some a \<Rightarrow> if hval_ok (au_text a) then [au_text a] else [] | None \<Rightarrow> [])
       else header_values (rq_headers parts) name)"
    unfolding set_host_def has
    by (auto simp: header_values_append split: option.split) (auto simp: header_values_def)
  show ?thesis by (simp add: to_origin_form_def Let_def drop host)
qed

text \<open>
  A request sent straight to its origin keeps its method and every header with all its
  values, except that \<open>proxy-connection\<close> is dropped and a missing \<open>host\<close> is filled in with
  the request's authority; its target is the path and query of the absolute form, or the
  root when there is none.\<close>

theorem origin_form_headers:
  "let parts' = to_origin_form hval_ok reparse parts in
     rq_method parts' = rq_method parts \<and>
     rq_uri parts' =
       (case reparse (case ur_path_and_query (rq_uri parts) of Some pq \<Rightarrow> pq | None \<Rightarrow> ''/'') of
          Some u \<Rightarrow> u
        | None \<Rightarrow> \<lparr>ur_authority = None, ur_path_and_query = Some ''/'', ur_text = ''/''\<rparr>) \<and>
     header_values (rq_headers parts') name =
       (if name = ''proxy-connection'' then []
        else if name = ''host'' \<and> header_values (rq_headers parts) ''host'' = [] then
          (case ur_authority (rq_uri parts) of
             Some a \<Rightarrow> if hval_ok (au_text a) then [au_text a] else []
           | None \<Rightarrow> [])
        else header_values (rq_headers parts) name)"
  unfolding Let_def origin_form_header_values by (simp add: to_origin_form_def Let_def)

text \<open>
  The comment on the last step speaks of hop-by-hop proxy headers, but the client's proxy
  credentials are not among the headers it drops: they reach the origin.\<close>

lemma origin_gets_proxy_credentials:
  "header_values (rq_headers parts) ''proxy-authorization'' = [v] \<Longrightarrow>
     header_values (rq_headers (to_origin_form ok reparse parts)) ''proxy-authorization'' = [v]"
  by (simp add: origin_form_header_values)

subsection \<open>Statuses and failures\<close>

definition records_failure :: "tracker_op list \<Rightarrow> bool" where
  "records_failure ops = list_ex (\<lambda>op. case op of TFail _ _ \<Rightarrow> True | _ \<Rightarrow> False) ops"

lemma records_failure_simps [simp]:
  "\<not> records_failure []" "records_failure (TFail i r # ops)"
  "records_failure (TSetRoute i s # ops) = records_failure ops"
  "records_failure (TSetStatus i st # ops) = records_failure ops"
  "records_failure (a @ b) \<longleftrightarrow> records_failure a \<or> records_failure b"
  by (simp_all add: records_failure_def)

text \<open>The handler of a request with a target, and the upstream it goes through.\<close>

definition dispatch ::
    "('f, 'r) network \<Rightarrow> request_parts \<Rightarrow> ('f, 'r) routing \<Rightarrow> client_endpoints \<Rightarrow> u64 \<Rightarrow> string \<Rightarrow> handled" where
  "dispatch nw parts routing client i target =
     (if rq_method parts = ''CONNECT'' then
        (case routing of
           RoutingDirect \<Rightarrow> handle_connect target client
         | RoutingUpstream upstream \<Rightarrow> handle_connect_upstream (nw_dial nw) i target upstream client
         | RoutingPac router \<Rightarrow> handle_connect_pac (nw_dial nw) (nw_resolve nw) i target router client)
      else forward_tracked (nw_origin nw) (nw_via nw) (nw_resolve nw) i routing parts)"

text \<open>
  The decision the routing makes for the request: an error, a direct connection, or an
  upstream.\<close>

definition decision ::
    "('f, 'r) network \<Rightarrow> request_parts \<Rightarrow> ('f, 'r) routing \<Rightarrow> string \<Rightarrow> io_error + 'f route_choice" where
  "decision nw parts routing target =
     (case routing of
        RoutingDirect \<Rightarrow> Inr ChoiceDirect
      | RoutingUpstream t \<Rightarrow> Inr (ChoiceUpstream t)
      | RoutingPac router \<Rightarrow>
          nw_resolve nw router (if rq_method parts = ''CONNECT'' then ''https://'' @ target else ur_text (rq_uri parts)))"

lemma proxy_service_dispatch:
  assumes "authority_target (rq_uri parts) = Some target"
    and "tracked_start (if rq_method parts = ''CONNECT'' then KindTunnel else KindHttp (rq_method parts) None)
          target (route_label routing) (ce_remote client) wall now m = (m1, i)"
  shows "proxy_service nw parts routing client wall now m =
     (let h = dispatch nw parts routing client i target
      in (fst (run tracker_step m1 (hd_ops h)), hd_status h, hd_background h))"
  using assms by (simp add: proxy_service_def dispatch_def Let_def)

text \<open>C6
  What a request does is what its routing decides. A PAC failure is a 502 that is recorded
  and dials nothing; a direct decision never uses an upstream and an upstream decision never
  goes around it: a tunnel in progress names the decided route, and a CONNECT through an
  upstream is answered 200 only on the stream the upstream granted.\<close>

theorem dispatch_follows_routing:
  "case (decision nw parts routing target, dispatch nw parts routing client i target) of
     (Inl e, h) \<Rightarrow> hd_status h = 502 \<and> records_failure (hd_ops h) \<and> hd_background h = BgNone
   | (Inr ChoiceDirect, h) \<Rightarrow>
       if rq_method parts = ''CONNECT''
       then hd_status h = 200 \<and> hd_background h = BgTunnel \<lparr>ti_client_remote = ce_remote client,
              ti_client_local = ce_local client, ti_target = target, ti_upstream = None\<rparr>
       else hd_status h = (case nw_origin nw parts of Inr s \<Rightarrow> s | Inl _ \<Rightarrow> 502) \<and> hd_background h = BgNone
   | (Inr (ChoiceUpstream t), h) \<Rightarrow>
       if rq_method parts = ''CONNECT''
       then (case nw_dial nw t target of
               Inl _ \<Rightarrow> hd_status h = 502 \<and> hd_background h = BgNone
             | Inr peer \<Rightarrow> hd_status h = 200 \<and> hd_background h = BgSplice \<lparr>ti_client_remote = ce_remote client,
                 ti_client_local = ce_local client, ti_target = target, ti_upstream = Some (ut_addr t)\<rparr> peer)
       else hd_status h = (case nw_via nw t parts of Inr s \<Rightarrow> s | Inl _ \<Rightarrow> 502) \<and> hd_background h = BgNone"
  by (cases routing)
    (auto simp: decision_def dispatch_def handler_defs Let_def
      split: sum.split route_choice.split)

text \<open>
  What a request with a target comes to, read off its routing's decision and the network:
  why the proxy could not serve it, or the status it is answered with.\<close>

definition request_outcome ::
    "('f, 'r) network \<Rightarrow> request_parts \<Rightarrow> ('f, 'r) routing \<Rightarrow> string \<Rightarrow> string + u16" where
  "request_outcome nw parts routing target =
     (let connect = rq_method parts = ''CONNECT'';
          forwarded = (\<lambda>r. case r of Inl e \<Rightarrow> Inl (show_forward_error e) | Inr status \<Rightarrow> Inr status)
      in case decision nw parts routing target of
           Inl e \<Rightarrow> Inl ((if connect then ''PAC resolution failed: '' else '''') @ io_message e)
         | Inr ChoiceDirect \<Rightarrow> if connect then Inr 200 else forwarded (nw_origin nw parts)
         | Inr (ChoiceUpstream t) \<Rightarrow>
             if connect
             then (case nw_dial nw t target of
                     Inl e \<Rightarrow> Inl (''upstream CONNECT failed: '' @ io_message e)
                   | Inr peer \<Rightarrow> Inr 200)
             else forwarded (nw_via nw t parts))"

lemma map_of_bt_insert_same [simp]: "map_of (bt_insert i e xs) i = Some e"
  by (induction xs) auto

lemma proxy_service_bad_request:
  "authority_target (rq_uri parts) = None \<Longrightarrow>
     proxy_service nw parts routing client wall now m = (m, 400, BgNone)"
  by (simp add: proxy_service_def error_response_def)

text \<open>A handler says where the request goes, and then how it ended.\<close>

definition last_ops :: "request_parts \<Rightarrow> u64 \<Rightarrow> string + u16 \<Rightarrow> tracker_op list" where
  "last_ops parts i result =
     (case result of
        Inl reason \<Rightarrow> [TFail i reason]
      | Inr status \<Rightarrow> if rq_method parts = ''CONNECT'' then [] else [TSetStatus i status])"

lemma dispatch_ops:
  "\<exists>pre. (pre = [] \<or> (\<exists>r. pre = [TSetRoute i r])) \<and>
     hd_ops (dispatch nw parts routing client i target) = pre @ last_ops parts i (request_outcome nw parts routing target)"
  by (cases routing; cases "rq_method parts = ''CONNECT''")
    (simp_all add: last_ops_def request_outcome_def decision_def dispatch_def handler_defs Let_def
      split: sum.split route_choice.split)

lemma dispatch_status:
  "case request_outcome nw parts routing target of
     Inl _ \<Rightarrow> hd_status (dispatch nw parts routing client i target) = 502 \<and>
       hd_background (dispatch nw parts routing client i target) = BgNone
   | Inr status \<Rightarrow> hd_status (dispatch nw parts routing client i target) = status"
  by (cases routing; cases "rq_method parts = ''CONNECT''")
    (simp_all add: request_outcome_def decision_def dispatch_def handler_defs Let_def
      split: sum.split route_choice.split)

lemma tracked_start_new:
  assumes "tracked_start kind target route client wall now m = (m1, i)"
  shows "i = mt_next_id m + 1" and "mt_failed_requests m1 = mt_failed_requests m"
    and "mt_total_requests m1 = mt_total_requests m + 1"
    and "\<exists>e. map_of (mt_open m1) i = Some e \<and> \<not> en_failed e \<and> en_state e = StConnecting"
  using assms by (auto simp: tracked_start_def Let_def incr_request_def)

lemma last_ops_effect:
  assumes "map_of (mt_open m) i = Some e" and "\<not> en_failed e" and "en_state e = StConnecting"
    and "m' = fst (run tracker_step m (last_ops parts i result))"
  shows "mt_total_requests m' = mt_total_requests m \<and>
    (case result of
       Inl reason \<Rightarrow> mt_failed_requests m' = mt_failed_requests m + 1 \<and>
         map_option en_state (map_of (mt_open m') i) = Some (StFailed reason)
     | Inr status \<Rightarrow> mt_failed_requests m' = mt_failed_requests m \<and>
         map_option en_state (map_of (mt_open m') i)
           = Some (if rq_method parts = ''CONNECT'' then StConnecting else StOpen))"
  using assms by (cases result)
    (simp_all add: last_ops_def tracked_fail_def set_status_def set_open_def incr_failed_def map_of_update_entry)


subsection \<open>A connection\<close>

text \<open>
  The requests that hyper reads from an accepted connection, one after the other, each with the
  network it meets; an upgrade ends them. The guard is held around them all.\<close>

definition handle_connection ::
    "string option \<Rightarrow> string option \<Rightarrow> ('f, 'r) routing
     \<Rightarrow> (('f, 'r) network \<times> request_parts \<times> millis \<times> millis) list
     \<Rightarrow> metrics \<Rightarrow> metrics \<times> (u16 \<times> background) list" where
  "handle_connection peer_addr local_addr routing requests m =
     (let client = \<lparr>ce_remote = peer_addr, ce_local = local_addr\<rparr>;
          (m', responses) = run (\<lambda>m (nw, parts, wall, now). proxy_service nw parts routing client wall now m)
                            (connection_guard m) requests
      in (drop_guard m', responses))"

lemma active_kept:
  "mt_active (set_route i r m) = mt_active m" "mt_active (set_status i s m) = mt_active m"
  "mt_active (tracked_fail i r m) = mt_active m"
  by (auto simp: set_route_def set_status_def set_open_def tracked_fail_def incr_failed_def split: option.split)

lemma proxy_service_active: "mt_active (fst (proxy_service nw parts routing client wall now m)) = mt_active m"
  by (auto simp: proxy_service_def handler_defs handler_defs tracked_start_def incr_request_def Let_def active_kept
      split: option.splits routing.splits sum.splits route_choice.splits prod.splits)

text \<open>Whatever the requests come to, each is answered and the connection counts as active only meanwhile.\<close>

lemma connection_guard_balanced:
  assumes "handle_connection peer_addr local_addr routing requests m = (m', outs)"
  shows "mt_active m' = mt_active m \<and> length outs = length requests"
proof -
  let ?step = "\<lambda>m (nw, parts, wall, now). proxy_service nw parts routing \<lparr>ce_remote = peer_addr, ce_local = local_addr\<rparr> wall now m"
  have "run ?step n requests = (n', as) \<Longrightarrow> mt_active n' = mt_active n \<and> length as = length requests" for n n' as
  proof (induction requests arbitrary: n as)
    case (Cons r rs)
    from Cons.prems obtain t x ys where step: "?step n r = (t, x)" and rest: "run ?step t rs = (n', ys)" and as: "as = x # ys"
      by (rule run_ConsE)
    obtain nw parts wall now where "r = (nw, parts, wall, now)" by (cases r)
    with step proxy_service_active [of nw parts routing "\<lparr>ce_remote = peer_addr, ce_local = local_addr\<rparr>" wall now n]
    have "mt_active t = mt_active n" by simp
    then show ?case using Cons.IH [OF rest] as by simp
  qed simp
  then show ?thesis
    using assms by (fastforce simp: handle_connection_def Let_def connection_guard_def drop_guard_def split: prod.splits)
qed

end
