(* ===== verification/Traces.thy ===== *)
theory Traces
  imports Machine
begin

text \<open>
  Executions of step relations, for the components whose tasks interleave: the events that
  led from one state to another, newest last. \<open>kept\<close> is the contract of a relation that
  keeps an invariant; \<open>wearing\<close> of one whose work uses up a weight, so that the work of an
  execution is bounded; \<open>ending\<close> of one whose every unfinished state moreover has work to do, so
  that an end stays in reach.
\<close>

inductive trace :: "('s \<Rightarrow> 'e \<Rightarrow> 's \<Rightarrow> bool) \<Rightarrow> 's \<Rightarrow> 'e list \<Rightarrow> 's \<Rightarrow> bool" for step where
  Here: "trace step s [] s"
| Then: "trace step s es t \<Longrightarrow> step t e u \<Longrightarrow> trace step s (es @ [e]) u"

lemma trace_one: "step s e t \<Longrightarrow> trace step s [e] t"
  using trace.Then [OF trace.Here] by fastforce

lemma trace_append: "trace step t fs u \<Longrightarrow> trace step s es t \<Longrightarrow> trace step s (es @ fs) u"
  by (induction rule: trace.induct) (auto simp flip: append_assoc intro: trace.Then)

lemma trace_appendE:
  assumes "trace step s (es @ fs) u"
  obtains t where "trace step s es t" and "trace step t fs u"
proof -
  have "\<exists>t. trace step s es t \<and> trace step t fs u"
    using assms
  proof (induction "es @ fs" u arbitrary: fs rule: trace.induct)
    case (Here s)
    then show ?case using trace.Here [of step s] by auto
  next
    case (Then s gs t e u)
    show ?case
    proof (cases fs rule: rev_cases)
      case Nil
      then show ?thesis using trace.Then [OF Then.hyps(1,3)] Then.hyps(4) trace.Here [of step u] by auto
    next
      case (snoc fs' f)
      then have "gs = es @ fs'" "f = e" using Then.hyps(4) by auto
      with Then.hyps(2,3) snoc show ?thesis by (blast intro: trace.Then)
    qed
  qed
  then show ?thesis using that by blast
qed

lemma trace_oneE: "trace step s [e] t \<Longrightarrow> step s e t"
  by (erule trace.cases) (auto elim: trace.cases)

locale kept =
  fixes step :: "'s \<Rightarrow> 'e \<Rightarrow> 's \<Rightarrow> bool"
    and inv :: "'s \<Rightarrow> bool"
  assumes step_kept: "inv s \<Longrightarrow> step s e t \<Longrightarrow> inv t"
begin

lemma trace_kept: "trace step s es t \<Longrightarrow> inv s \<Longrightarrow> inv t"
  by (induction rule: trace.induct) (auto dest: step_kept)

end

locale wearing = kept step inv
  for step :: "'s \<Rightarrow> 'e \<Rightarrow> 's \<Rightarrow> bool" and inv :: "'s \<Rightarrow> bool" +
  fixes weight :: "'s \<Rightarrow> nat"
    and work :: "'e \<Rightarrow> bool"
  assumes step_weight: "inv s \<Longrightarrow> step s e t \<Longrightarrow> weight t + (if work e then 1 else 0) \<le> weight s"
begin

lemma trace_work: "trace step s es t \<Longrightarrow> inv s \<Longrightarrow> weight t + length (filter work es) \<le> weight s"
proof (induction rule: trace.induct)
  case (Then s es t e u)
  have "inv t" using trace_kept Then.hyps(1) Then.prems by blast
  from step_weight [OF this Then.hyps(2)] Then.IH [OF Then.prems] show ?case by (cases "work e") simp_all
qed simp

end

locale ending = wearing step inv weight work
  for step :: "'s \<Rightarrow> 'e \<Rightarrow> 's \<Rightarrow> bool" and inv :: "'s \<Rightarrow> bool" and weight :: "'s \<Rightarrow> nat" and work :: "'e \<Rightarrow> bool" +
  fixes ended :: "'s \<Rightarrow> bool"
  assumes goes_on: "inv s \<Longrightarrow> \<not> ended s \<Longrightarrow> \<exists>e t. step s e t \<and> work e"
begin

lemma trace_ends: "inv s \<Longrightarrow> \<exists>es t. trace step s es t \<and> ended t \<and> list_all work es"
proof (induction "weight s" arbitrary: s rule: less_induct)
  case less
  show ?case
  proof (cases "ended s")
    case True
    then show ?thesis using trace.Here [of step s] by fastforce
  next
    case False
    with goes_on less.prems obtain e t where t: "step s e t" "work e" by blast
    then have "inv t" and "weight t < weight s"
      using step_kept step_weight less.prems by (blast, fastforce)
    then obtain es u where "trace step t es u" "ended u" "list_all work es"
      using less.hyps by blast
    then show ?thesis using t trace_append [OF _ trace_one [of step s e t]] by fastforce
  qed
qed

end

end
