(* ===== verification/Server.thy ===== *)
theory Server
  imports Http_Forward Traces
begin

text \<open>
  The accept loop, the live routing handle and graceful shutdown:
  \<^verbatim>\<open>crates/zicade-proxy/src/server.rs\<close> and \<^verbatim>\<open>error.rs\<close>. A connection is
  a number; the connections in the \<^verbatim>\<open>JoinSet\<close> are kept with the routing value cloned
  for them. The loop and the tasks interleave freely, so the server is a step relation
  labelled with events (\<open>server_step\<close>), and its properties hold of every reachable state.
\<close>

datatype proxy_error = ProxyBind string io_error | ProxyIo io_error

definition default_shutdown_timeout :: millis where
  "default_shutdown_timeout = 10000"

datatype phase = Accepting | Draining millis | Aborting | Stopped

record 'r server =
  sv_routing :: 'r
  sv_timeout :: millis
  sv_phase :: phase
  sv_next :: nat
  sv_conns :: "(nat \<times> 'r) list"
  sv_tunnels :: "(nat \<times> 'r) list"
  sv_clock :: millis

text \<open>\<open>bind\<close>: the listener's outcome is the environment's.\<close>

definition server_bind :: "string \<Rightarrow> io_error + unit \<Rightarrow> 'r \<Rightarrow> proxy_error + 'r server" where
  "server_bind a bound direct =
     (case bound of
        Inl e \<Rightarrow> Inl (ProxyBind a e)
      | Inr _ \<Rightarrow> Inr \<lparr>sv_routing = direct, sv_timeout = default_shutdown_timeout, sv_phase = Accepting,
                     sv_next = 0, sv_conns = [], sv_tunnels = [], sv_clock = 0\<rparr>)"

definition with_shutdown_timeout :: "millis \<Rightarrow> 'r server \<Rightarrow> 'r server" where
  "with_shutdown_timeout t s = s\<lparr>sv_timeout := t\<rparr>"

definition routing_current :: "'r server \<Rightarrow> 'r" where
  "routing_current s = sv_routing s"

definition routing_set :: "'r \<Rightarrow> 'r server \<Rightarrow> 'r server" where
  "routing_set r s = s\<lparr>sv_routing := r\<rparr>"

definition with_routing :: "'r \<Rightarrow> 'r server \<Rightarrow> 'r server" where
  "with_routing r s = routing_set r s"

definition accept_conn :: "'r server \<Rightarrow> 'r server" where
  "accept_conn s = s\<lparr>sv_next := Suc (sv_next s), sv_conns := sv_conns s @ [(sv_next s, routing_current s)]\<rparr>"

definition finish_conn :: "nat \<Rightarrow> 'r server \<Rightarrow> 'r server" where
  "finish_conn c s = s\<lparr>sv_conns := filter (\<lambda>(k, _). k \<noteq> c) (sv_conns s)\<rparr>"

text \<open>
  A CONNECT ends its connection's task in the set: the handler has spawned the tunnel as a
  task of its own, which the loop does not own.\<close>

definition detach_tunnel :: "nat \<Rightarrow> 'r server \<Rightarrow> 'r server" where
  "detach_tunnel c s =
     (finish_conn c s)\<lparr>sv_tunnels := sv_tunnels s @ filter (\<lambda>(k, _). k = c) (sv_conns s)\<rparr>"

datatype 'r server_event =
    EvAccept "io_error + unit"
  | EvSetRouting 'r
  | EvFinish nat
  | EvUpgrade nat
  | EvTunnelEnd nat
  | EvShutdown
  | EvTick millis
  | EvDrained
  | EvTimeout
  | EvAborted

inductive server_step :: "'r server \<Rightarrow> 'r server_event \<Rightarrow> 'r server \<Rightarrow> bool" where
  Accepted: "sv_phase s = Accepting \<Longrightarrow> server_step s (EvAccept (Inr ())) (accept_conn s)"
| AcceptError: "sv_phase s = Accepting \<Longrightarrow> server_step s (EvAccept (Inl e)) s"
| SetRouting: "server_step s (EvSetRouting r) (routing_set r s)"
| Finish: "c \<in> fst ` set (sv_conns s) \<Longrightarrow> sv_phase s \<noteq> Stopped \<Longrightarrow> server_step s (EvFinish c) (finish_conn c s)"
| Upgrade: "c \<in> fst ` set (sv_conns s) \<Longrightarrow> sv_phase s \<noteq> Stopped \<Longrightarrow> server_step s (EvUpgrade c) (detach_tunnel c s)"
| TunnelEnd: "server_step s (EvTunnelEnd c) (s\<lparr>sv_tunnels := filter (\<lambda>(k, _). k \<noteq> c) (sv_tunnels s)\<rparr>)"
| Shutdown: "sv_phase s = Accepting \<Longrightarrow>
    server_step s EvShutdown (s\<lparr>sv_phase := Draining (sv_clock s + sv_timeout s)\<rparr>)"
| Tick: "(\<And>d. sv_phase s = Draining d \<Longrightarrow> sv_clock s + n \<le> d) \<Longrightarrow> server_step s (EvTick n) (s\<lparr>sv_clock := sv_clock s + n\<rparr>)"
| Drained: "sv_phase s = Draining d \<Longrightarrow> sv_conns s = [] \<Longrightarrow> server_step s EvDrained (s\<lparr>sv_phase := Stopped\<rparr>)"
| Timeout: "sv_phase s = Draining d \<Longrightarrow> sv_clock s \<ge> d \<Longrightarrow> sv_conns s \<noteq> [] \<Longrightarrow>
    server_step s EvTimeout (s\<lparr>sv_phase := Aborting\<rparr>)"
| Aborted: "sv_phase s = Aborting \<Longrightarrow> server_step s EvAborted (s\<lparr>sv_phase := Stopped, sv_conns := []\<rparr>)"

inductive_cases server_stepE: "server_step s e s'"

text \<open>Executions, with the events that led to a state, newest last.\<close>

abbreviation server_run :: "'r server \<Rightarrow> 'r server_event list \<Rightarrow> 'r server \<Rightarrow> bool" where
  "server_run \<equiv> trace server_step"

lemmas server_here = trace.Here [where step = server_step]
lemmas server_then = trace.Then [where step = server_step]

subsection \<open>The routing of a connection\<close>

text \<open>The routing in force after a sequence of events.\<close>

fun routing_after :: "'r \<Rightarrow> 'r server_event list \<Rightarrow> 'r" where
  "routing_after r [] = r"
| "routing_after r (EvSetRouting r' # es) = routing_after r' es"
| "routing_after r (_ # es) = routing_after r es"

text \<open>The routings of the accepted connections, in the order of their numbers.\<close>

fun accepted_routings :: "'r \<Rightarrow> 'r server_event list \<Rightarrow> 'r list" where
  "accepted_routings r [] = []"
| "accepted_routings r (EvSetRouting r' # es) = accepted_routings r' es"
| "accepted_routings r (EvAccept (Inr _) # es) = r # accepted_routings r es"
| "accepted_routings r (_ # es) = accepted_routings r es"

lemma routing_after_append: "routing_after r (es @ fs) = routing_after (routing_after r es) fs"
  by (induction r es rule: routing_after.induct) auto

lemma accepted_routings_append:
  "accepted_routings r (es @ fs) = accepted_routings r es @ accepted_routings (routing_after r es) fs"
  by (induction r es rule: accepted_routings.induct) auto

definition numbered :: "'r list \<Rightarrow> nat \<times> 'r \<Rightarrow> bool" where
  "numbered rs p \<longleftrightarrow> fst p < length rs \<and> snd p = rs ! fst p"

definition holds_accepted :: "'r list \<Rightarrow> 'r server \<Rightarrow> bool" where
  "holds_accepted rs s \<longleftrightarrow> sv_next s = length rs \<and> distinct (map fst (sv_conns s)) \<and>
     list_all (numbered rs) (sv_conns s) \<and> list_all (numbered rs) (sv_tunnels s)"

lemma numbered_snoc: "list_all (numbered rs) ps \<Longrightarrow> list_all (numbered (rs @ [r])) ps"
  by (auto simp: numbered_def list_all_iff nth_append)

lemma numbered_fresh: "list_all (numbered rs) ps \<Longrightarrow> length rs \<notin> fst ` set ps"
  by (auto simp: numbered_def list_all_iff)

lemma holds_accepted_sub:
  assumes "holds_accepted rs t" and "sv_next u = sv_next t" and "distinct (map fst (sv_conns u))"
    and "set (sv_conns u) \<subseteq> set (sv_conns t)" and "set (sv_tunnels u) \<subseteq> set (sv_conns t) \<union> set (sv_tunnels t)"
  shows "holds_accepted rs u"
proof -
  have "\<forall>p \<in> set (sv_conns t) \<union> set (sv_tunnels t). numbered rs p"
    using assms(1) by (auto simp: holds_accepted_def list_all_iff)
  then have "\<forall>p \<in> set (sv_conns u). numbered rs p" and "\<forall>p \<in> set (sv_tunnels u). numbered rs p"
    using assms(4,5) by blast+
  with assms(1-3) show ?thesis by (simp add: holds_accepted_def list_all_iff)
qed

lemma holds_accepted_accept:
  assumes "holds_accepted rs t"
  shows "holds_accepted (rs @ [sv_routing t]) (accept_conn t)"
proof -
  have "numbered (rs @ [sv_routing t]) (length rs, sv_routing t)" by (simp add: numbered_def)
  with assms numbered_fresh [of rs "sv_conns t"] show ?thesis
    by (simp add: holds_accepted_def accept_conn_def routing_current_def numbered_snoc)
qed

lemma server_run_routing:
  assumes "server_run s es t" and "sv_next s = 0" and "sv_conns s = []" and "sv_tunnels s = []"
  shows "sv_routing t = routing_after (sv_routing s) es \<and>
     holds_accepted (accepted_routings (sv_routing s) es) t"
  using assms
proof (induction rule: trace.induct)
  case (Here s)
  then show ?case by (simp add: holds_accepted_def)
next
  case (Then s es t e u)
  let ?r = "routing_after (sv_routing s) es"
  let ?rs = "accepted_routings (sv_routing s) es"
  have r: "sv_routing t = ?r" and h: "holds_accepted ?rs t" using Then by auto
  have acc: "holds_accepted (?rs @ [?r]) (accept_conn t)"
    using holds_accepted_accept [OF h] r by simp
  note sub = holds_accepted_sub [OF h]
  have dist: "distinct (map fst (filter P (sv_conns t)))" for P
    using h by (simp add: holds_accepted_def distinct_map_filter)
  from Then.hyps(2) show ?case
  proof (cases rule: server_step.cases)
    case Accepted
    with acc r show ?thesis by (simp add: routing_after_append accepted_routings_append accept_conn_def)
  next
    case (Finish c)
    have "holds_accepted ?rs (finish_conn c t)"
      by (rule sub) (auto simp: finish_conn_def dist)
    with Finish r show ?thesis by (simp add: routing_after_append accepted_routings_append finish_conn_def)
  next
    case (Upgrade c)
    have "holds_accepted ?rs (detach_tunnel c t)"
      by (rule sub) (auto simp: detach_tunnel_def finish_conn_def dist)
    with Upgrade r show ?thesis
      by (simp add: routing_after_append accepted_routings_append detach_tunnel_def finish_conn_def)
  next
    case (TunnelEnd c)
    have "holds_accepted ?rs u" using TunnelEnd h by (intro sub) (auto simp: holds_accepted_def)
    with TunnelEnd r show ?thesis by (simp add: routing_after_append accepted_routings_append)
  qed (use r h in \<open>auto simp: routing_after_append accepted_routings_append routing_set_def holds_accepted_def\<close>)
qed

text \<open>C17
  A routing change applies to the next accepted connection and to no earlier one: in every
  reachable state each connection, running or tunneling, has the routing that was in force
  when it was accepted, and the live routing is the last one set (the initial one, if none
  was).\<close>

theorem connection_keeps_routing:
  assumes "server_bind a (Inr ()) direct = Inr s" and "server_run s es t"
  shows "sv_routing t = routing_after direct es \<and>
     list_all (numbered (accepted_routings direct es)) (sv_conns t @ sv_tunnels t)"
proof -
  have "sv_next s = 0" "sv_conns s = []" "sv_tunnels s = []" "sv_routing s = direct"
    using assms(1) by (auto simp: server_bind_def)
  with server_run_routing [OF assms(2)] show ?thesis by (auto simp: holds_accepted_def)
qed

definition demo_server :: "nat server" where
  "demo_server = \<lparr>sv_routing = 0, sv_timeout = default_shutdown_timeout, sv_phase = Accepting,
     sv_next = 0, sv_conns = [], sv_tunnels = [], sv_clock = 0\<rparr>"

lemma demo_bind: "server_bind ''127.0.0.1:3129'' (Inr ()) 0 = Inr demo_server"
  by (simp add: server_bind_def demo_server_def)

text \<open>A connection, a routing change, a second connection, then the shutdown signal.\<close>

definition demo_accepting :: "nat server" where
  "demo_accepting = accept_conn (routing_set 7 (accept_conn demo_server))"

definition demo_draining :: "nat server" where
  "demo_draining = demo_accepting\<lparr>sv_phase := Draining 10000\<rparr>"

lemma demo_run:
  "server_run demo_server ((([] @ [EvAccept (Inr ())]) @ [EvSetRouting 7]) @ [EvAccept (Inr ())]) demo_accepting"
  "server_run demo_server (((([] @ [EvAccept (Inr ())]) @ [EvSetRouting 7]) @ [EvAccept (Inr ())]) @ [EvShutdown]) demo_draining"
proof -
  show run: "server_run demo_server ((([] @ [EvAccept (Inr ())]) @ [EvSetRouting 7]) @ [EvAccept (Inr ())]) demo_accepting"
  proof -
    have "server_step demo_server (EvAccept (Inr ())) (accept_conn demo_server)"
      by (rule Accepted) (simp add: demo_server_def)
    moreover have "server_step (accept_conn demo_server) (EvSetRouting 7) (routing_set 7 (accept_conn demo_server))"
      by (rule SetRouting)
    moreover have "server_step (routing_set 7 (accept_conn demo_server)) (EvAccept (Inr ())) demo_accepting"
      unfolding demo_accepting_def by (rule Accepted) (simp add: demo_server_def accept_conn_def routing_set_def)
    ultimately show ?thesis
      by (blast intro: server_then [OF server_then [OF server_then [OF server_here]]])
  qed
  have "demo_draining = demo_accepting\<lparr>sv_phase := Draining (sv_clock demo_accepting + sv_timeout demo_accepting)\<rparr>"
    by (simp add: demo_draining_def demo_accepting_def demo_server_def accept_conn_def routing_set_def
        default_shutdown_timeout_def)
  moreover have "sv_phase demo_accepting = Accepting"
    by (simp add: demo_accepting_def demo_server_def accept_conn_def routing_set_def)
  ultimately have "server_step demo_accepting EvShutdown demo_draining" using Shutdown by metis
  with run show "server_run demo_server (((([] @ [EvAccept (Inr ())]) @ [EvSetRouting 7]) @ [EvAccept (Inr ())]) @ [EvShutdown]) demo_draining"
    by (rule server_then)
qed

lemma connection_keeps_routing_witness:
  "list_all (numbered [0, 7]) (sv_conns demo_accepting @ sv_tunnels demo_accepting)"
  using connection_keeps_routing [OF demo_bind demo_run(1)] by simp

subsection \<open>Shutdown\<close>

lemma not_accepting_stays: "server_step s e t \<Longrightarrow> sv_phase s \<noteq> Accepting \<Longrightarrow> sv_phase t \<noteq> Accepting \<and> sv_next t = sv_next s"
  by (erule server_stepE)
    (auto simp: accept_conn_def routing_set_def finish_conn_def detach_tunnel_def)

lemma run_not_accepting: "server_run s es t \<Longrightarrow> sv_phase s \<noteq> Accepting \<Longrightarrow> sv_phase t \<noteq> Accepting \<and> sv_next t = sv_next s"
  by (induction rule: trace.induct) (auto dest: not_accepting_stays)

text \<open>The time that passes in a sequence of events.\<close>

fun time_in :: "'r server_event list \<Rightarrow> nat" where
  "time_in [] = 0"
| "time_in (EvTick n # es) = n + time_in es"
| "time_in (_ # es) = time_in es"

lemma time_in_append [simp]: "time_in (es @ fs) = time_in es + time_in fs"
  by (induction es rule: time_in.induct) auto

lemma step_clock: "server_step s e t \<Longrightarrow> sv_clock t = sv_clock s + time_in [e] \<and> sv_timeout t = sv_timeout s"
  by (erule server_stepE) (auto simp: accept_conn_def routing_set_def finish_conn_def detach_tunnel_def)

lemma run_clock: "server_run s es t \<Longrightarrow> sv_clock t = sv_clock s + time_in es \<and> sv_timeout t = sv_timeout s"
  by (induction rule: trace.induct) (auto dest: step_clock)

text \<open>Draining keeps its deadline, and only the deadline leads to an abort.\<close>

definition drains_until :: "millis \<Rightarrow> 'r server \<Rightarrow> bool" where
  "drains_until d s \<longleftrightarrow>
     (case sv_phase s of
        Accepting \<Rightarrow> False
      | Draining d' \<Rightarrow> d' = d \<and> sv_clock s \<le> d
      | Aborting \<Rightarrow> d \<le> sv_clock s
      | Stopped \<Rightarrow> sv_conns s = [])"

lemma server_step_drains_until: "server_step s e t \<Longrightarrow> drains_until d s \<Longrightarrow> drains_until d t"
  by (erule server_stepE)
    (auto simp: drains_until_def accept_conn_def routing_set_def finish_conn_def detach_tunnel_def
      split: phase.splits)

interpretation draining: kept server_step "drains_until d" for d
  by unfold_locales (rule server_step_drains_until)

text \<open>An abort in the events happened at the deadline or later.\<close>

lemma timeout_at_deadline:
  "server_run s es t \<Longrightarrow> drains_until d s \<Longrightarrow> EvTimeout \<in> set es \<Longrightarrow> d \<le> sv_clock s + time_in es"
proof (induction rule: trace.induct)
  case (Then s es t e u)
  have kept: "drains_until d t" using draining.trace_kept Then.hyps(1) Then.prems(1) by blast
  show ?case
  proof (cases "EvTimeout \<in> set es")
    case True
    with Then.IH Then.prems(1) show ?thesis by simp
  next
    case False
    then have "e = EvTimeout" using Then.prems(2) by simp
    with Then.hyps(2) kept have "d \<le> sv_clock t"
      by (auto simp: drains_until_def elim!: server_stepE)
    then show ?thesis using run_clock [OF Then.hyps(1)] by simp
  qed
qed simp

text \<open>C18
  A shutdown is bounded by the configured timeout, ten seconds unless another is set. In
  every execution from the bound server, after the shutdown signal no connection is
  accepted any more (the accepted ones are those from before the signal); the loop drains
  for no longer than the timeout; it gives up on the connections that remain, to abort
  them, no earlier than that; and once it has stopped, its set of connections is empty.\<close>

theorem shutdown_drains:
  assumes "server_bind a (Inr ()) direct = Inr s"
    and "server_run (with_shutdown_timeout timeout s) (es @ [EvShutdown] @ fs) u"
  shows "with_shutdown_timeout 10000 s = s \<and> sv_phase u \<noteq> Accepting \<and>
     sv_next u = length (accepted_routings direct es) \<and>
     ((\<exists>d. sv_phase u = Draining d) \<longrightarrow> time_in fs \<le> timeout) \<and>
     (EvTimeout \<in> set fs \<longrightarrow> timeout \<le> time_in fs) \<and>
     (sv_phase u = Stopped \<longrightarrow> sv_conns u = [])"
proof -
  let ?s = "with_shutdown_timeout timeout s"
  have s: "sv_next ?s = 0" "sv_conns ?s = []" "sv_tunnels ?s = []" "sv_routing ?s = direct"
    "sv_timeout ?s = timeout" "with_shutdown_timeout 10000 s = s"
    using assms(1) by (auto simp: server_bind_def with_shutdown_timeout_def default_shutdown_timeout_def)
  obtain t t' where before: "server_run ?s es t" and signal: "server_run t [EvShutdown] t'"
    and after: "server_run t' fs u"
    using assms(2) by (metis trace_appendE)
  from trace_oneE [OF signal] have t': "t' = t\<lparr>sv_phase := Draining (sv_clock t + sv_timeout t)\<rparr>"
    by (auto elim: server_stepE)
  have timeout: "sv_timeout t = timeout" using run_clock [OF before] s by simp
  have starts: "drains_until (sv_clock t' + timeout) t'" by (simp add: t' drains_until_def timeout)
  then have ends: "drains_until (sv_clock t' + timeout) u" using draining.trace_kept after by blast
  have clock: "sv_clock u = sv_clock t' + time_in fs" using run_clock [OF after] by simp
  have "sv_next t = length (accepted_routings direct es)"
    using server_run_routing [OF before s(1-3)] s(4) by (simp add: holds_accepted_def)
  then have "sv_phase u \<noteq> Accepting \<and> sv_next u = length (accepted_routings direct es)"
    using run_not_accepting [OF after] by (simp add: t')
  with s(6) ends clock timeout_at_deadline [OF after starts] show ?thesis
    by (auto simp: drains_until_def)
qed

text \<open>A drain up to its deadline, with two connections stuck.\<close>

definition demo_stuck :: "nat server" where
  "demo_stuck = demo_draining\<lparr>sv_clock := 10000\<rparr>"

lemma shutdown_drains_witness: "sv_next demo_stuck = 2 \<and> time_in [EvTick 10000 :: nat server_event] \<le> 10000"
proof -
  have s: "with_shutdown_timeout 10000 demo_server = demo_server"
    by (simp add: with_shutdown_timeout_def demo_server_def default_shutdown_timeout_def)
  let ?es = "[EvAccept (Inr ()), EvSetRouting 7, EvAccept (Inr ())]"
  have "server_step demo_draining (EvTick 10000) (demo_draining\<lparr>sv_clock := sv_clock demo_draining + 10000\<rparr>)"
    by (rule Tick) (simp add: demo_draining_def demo_accepting_def demo_server_def accept_conn_def routing_set_def)
  moreover have "sv_clock demo_draining = 0"
    by (simp add: demo_draining_def demo_accepting_def demo_server_def accept_conn_def routing_set_def)
  ultimately have "server_step demo_draining (EvTick 10000) demo_stuck" by (simp add: demo_stuck_def)
  from server_then [OF demo_run(2) this]
  have run: "server_run (with_shutdown_timeout 10000 demo_server) (?es @ [EvShutdown] @ [EvTick 10000]) demo_stuck"
    by (simp add: s)
  have "\<exists>d. sv_phase demo_stuck = Draining d" by (simp add: demo_stuck_def demo_draining_def)
  with shutdown_drains [OF demo_bind run] show ?thesis by simp
qed

text \<open>
  Shutdown always finishes: from every state that is draining or aborting, whatever its
  connections do, there is an execution of the loop's own steps (time passing, the drain, the
  deadline, the abort) that stops the server, and it needs no connection to end by itself and
  no more time than is left to the deadline.\<close>

lemma server_can_stop:
  assumes "sv_phase t = Draining d \<or> sv_phase t = Aborting"
  shows "\<exists>fs u. server_run t fs u \<and> sv_phase u = Stopped \<and>
     set fs \<subseteq> {EvTick (d - sv_clock t), EvDrained, EvTimeout, EvAborted} \<and> time_in fs \<le> d - sv_clock t"
proof -
  have abort: "\<exists>u. server_run t' [EvAborted] u \<and> sv_phase u = Stopped" if "sv_phase t' = Aborting" for t' :: "'a server"
    using trace_one [of server_step, OF Aborted [OF that]] by auto
  show ?thesis
  proof (cases "sv_phase t = Aborting")
    case True
    from abort [OF this] show ?thesis by (auto intro!: exI [of _ "[EvAborted]"])
  next
    case False
    then have ph: "sv_phase t = Draining d" using assms by simp
    show ?thesis
    proof (cases "sv_conns t = []")
      case True
      have "server_run t [EvDrained] (t\<lparr>sv_phase := Stopped\<rparr>)"
        by (rule trace_one [of server_step, OF Drained [OF ph True]])
      then show ?thesis by (intro exI [of _ "[EvDrained]"]) auto
    next
      case False
      let ?t1 = "t\<lparr>sv_clock := sv_clock t + (d - sv_clock t)\<rparr>"
      let ?t2 = "?t1\<lparr>sv_phase := Aborting\<rparr>"
      let ?t3 = "?t2\<lparr>sv_phase := Stopped, sv_conns := []\<rparr>"
      let ?tick = "EvTick (d - sv_clock t)"
      consider "sv_clock t \<le> d" | "d < sv_clock t" by linarith
      then have tick: "\<exists>es. server_run t es ?t1 \<and> set es \<subseteq> {?tick} \<and> time_in es \<le> d - sv_clock t"
      proof cases
        case 1
        then have "server_step t ?tick ?t1" by (intro Tick) (use ph in simp)
        then have "server_run t [?tick] ?t1" by (rule trace_one)
        then show ?thesis by (intro exI [of _ "[?tick]"]) simp
      next
        case 2
        then show ?thesis using server_here by (intro exI [of _ "[]"]) simp
      qed
      then obtain es where es: "server_run t es ?t1" "set es \<subseteq> {?tick}" "time_in es \<le> d - sv_clock t" by blast
      have "server_step ?t1 EvTimeout ?t2" by (rule Timeout [of _ d]) (use ph False in auto)
      moreover have "server_step ?t2 EvAborted ?t3" by (rule Aborted) simp
      ultimately have "server_run t ((es @ [EvTimeout]) @ [EvAborted]) ?t3"
        using es(1) by (intro server_then)
      then show ?thesis using es(2,3)
        by (intro exI [of _ "(es @ [EvTimeout]) @ [EvAborted]"] exI [of _ ?t3]) auto
    qed
  qed
qed

text \<open>
  Tunnels are not connections of the set: a server can stop, its loop done, with an open
  tunnel that neither the drain waited for nor the abort ended.\<close>

lemma tunnel_outlives_shutdown:
  "\<exists>s es t. server_bind ''127.0.0.1:3129'' (Inr ()) (0 :: nat) = Inr s \<and> server_run s es t \<and>
     sv_phase t = Stopped \<and> sv_tunnels t = [(0, 0)]"
proof -
  let ?s = "\<lparr>sv_routing = (0 :: nat), sv_timeout = default_shutdown_timeout, sv_phase = Accepting,
     sv_next = 0, sv_conns = [], sv_tunnels = [], sv_clock = 0\<rparr>"
  let ?a = "accept_conn ?s" let ?b = "detach_tunnel 0 ?a"
  let ?c = "?b\<lparr>sv_phase := Draining (sv_clock ?b + sv_timeout ?b)\<rparr>"
  let ?d = "?c\<lparr>sv_phase := Stopped\<rparr>"
  have "server_step ?s (EvAccept (Inr ())) ?a" by (rule Accepted) simp
  moreover have "server_step ?a (EvUpgrade 0) ?b" by (rule Upgrade) (simp_all add: accept_conn_def)
  moreover have "server_step ?b EvShutdown ?c"
    by (rule Shutdown) (simp add: detach_tunnel_def finish_conn_def accept_conn_def)
  moreover have "server_step ?c EvDrained ?d"
    by (rule Drained) (simp_all add: detach_tunnel_def finish_conn_def accept_conn_def)
  ultimately have "server_run ?s (((([] @ [EvAccept (Inr ())]) @ [EvUpgrade 0]) @ [EvShutdown]) @ [EvDrained]) ?d"
    by (blast intro: server_then [OF server_then [OF server_then [OF server_then [OF server_here]]]])
  moreover have "sv_phase ?d = Stopped" and "sv_tunnels ?d = [(0, 0)]"
    by (simp_all add: detach_tunnel_def finish_conn_def accept_conn_def routing_current_def)
  moreover have "server_bind ''127.0.0.1:3129'' (Inr ()) 0 = Inr ?s" by (simp add: server_bind_def)
  ultimately show ?thesis by blast
qed

end
