(* ===== verification/Config.thy ===== *)
theory Config
  imports Zicade_Prelude
begin

text \<open>
  The configuration schema and its rules: \<^verbatim>\<open>crates/zicade-config/src/model.rs\<close>,
  \<^verbatim>\<open>validate.rs\<close> and \<^verbatim>\<open>error.rs\<close>. One record per struct with the struct's name
  as a prefix of its fields, one datatype per enum; \<^verbatim>\<open>u16\<close> and \<^verbatim>\<open>u64\<close>
  fields keep their width, \<^verbatim>\<open>usize\<close> is \<open>nat\<close>.
  The lemmas say when a configuration validates, which error it gets otherwise, and what
  redacting and restoring the stored passwords does to it.
\<close>

subsection \<open>The schema\<close>

datatype auth_mode = AuthNone | AuthBasic | AuthNegotiate

datatype sspi_package = PkgNtlm | PkgNegotiate

record auth_config =
  auth_mode :: auth_mode
  auth_package :: sspi_package
  auth_username :: "string option"
  auth_password :: "string option"

definition default_auth :: auth_config where
  "default_auth = \<lparr>auth_mode = AuthNone, auth_package = PkgNtlm,
                   auth_username = None, auth_password = None\<rparr>"

record listen_config =
  listen_host :: string
  listen_port :: u16

definition default_listen :: listen_config where
  "default_listen = \<lparr>listen_host = ''127.0.0.1'', listen_port = 3129\<rparr>"

datatype routing_mode = ModeDirect | ModeUpstream | ModePac

record upstream_config =
  up_host :: string
  up_port :: u16
  up_auth :: auth_config

record pool_config =
  pool_enabled :: bool
  pool_min_idle :: nat
  pool_idle_timeout_seconds :: u64

definition default_min_idle :: nat where
  "default_min_idle = 2"

definition default_idle_timeout_seconds :: u64 where
  "default_idle_timeout_seconds = 30"

definition default_pool :: pool_config where
  "default_pool = \<lparr>pool_enabled = False, pool_min_idle = default_min_idle,
                   pool_idle_timeout_seconds = default_idle_timeout_seconds\<rparr>"

definition max_min_idle :: nat where
  "max_min_idle = 16"

definition pool_is_default :: "pool_config \<Rightarrow> bool" where
  "pool_is_default p \<longleftrightarrow> p = default_pool"

datatype pac_source = PacAuto | PacFile | PacUrl

datatype fail_policy = FailError | FailDirect

record pac_config =
  pac_source :: pac_source
  pac_path :: "string option"
  pac_url :: "string option"
  pac_fail_policy :: fail_policy
  pac_auth :: auth_config

definition default_pac :: pac_config where
  "default_pac = \<lparr>pac_source = PacAuto, pac_path = None, pac_url = None,
                  pac_fail_policy = FailError, pac_auth = default_auth\<rparr>"

record corp_network_config =
  corp_enabled :: bool
  corp_dns_suffixes :: "string list"
  corp_poll_seconds :: u64

definition default_poll_seconds :: u64 where
  "default_poll_seconds = 30"

definition default_corp :: corp_network_config where
  "default_corp = \<lparr>corp_enabled = False, corp_dns_suffixes = [],
                   corp_poll_seconds = default_poll_seconds\<rparr>"

record routing_config =
  rt_mode :: routing_mode
  rt_upstream :: "upstream_config option"
  rt_pac :: "pac_config option"
  rt_corp_network :: "corp_network_config option"
  rt_pool :: pool_config

definition default_routing :: routing_config where
  "default_routing = \<lparr>rt_mode = ModeDirect, rt_upstream = None, rt_pac = None,
                      rt_corp_network = None, rt_pool = default_pool\<rparr>"

record logging_config =
  log_level :: string
  log_format :: string

definition default_logging :: logging_config where
  "default_logging = \<lparr>log_level = ''info'', log_format = ''json''\<rparr>"

record config =
  cfg_listen :: listen_config
  cfg_routing :: routing_config
  cfg_logging :: logging_config

definition default_config :: config where
  "default_config = \<lparr>cfg_listen = default_listen, cfg_routing = default_routing,
                     cfg_logging = default_logging\<rparr>"

subsection \<open>Secrets\<close>

text \<open>
  \<open>map_auth_slots\<close> is the loop over \<^verbatim>\<open>Config::auth_slots_mut\<close>: the auth
  section of the upstream, then that of the PAC section, where they are present.
\<close>

definition map_auth_slots :: "(auth_config \<Rightarrow> auth_config) \<Rightarrow> config \<Rightarrow> config" where
  "map_auth_slots f cfg =
     cfg\<lparr>cfg_routing := (cfg_routing cfg)
       \<lparr>rt_upstream := map_option (\<lambda>u. u\<lparr>up_auth := f (up_auth u)\<rparr>) (rt_upstream (cfg_routing cfg)),
        rt_pac := map_option (\<lambda>p. p\<lparr>pac_auth := f (pac_auth p)\<rparr>) (rt_pac (cfg_routing cfg))\<rparr>\<rparr>"

definition without_secrets :: "config \<Rightarrow> config" where
  "without_secrets cfg = map_auth_slots (\<lambda>a. a\<lparr>auth_password := None\<rparr>) cfg"

definition keep_password_from :: "auth_config \<Rightarrow> auth_config \<Rightarrow> auth_config" where
  "keep_password_from a saved =
     (if auth_password a = None \<and> auth_mode a = AuthBasic \<and> auth_mode saved = AuthBasic
         \<and> auth_username a = auth_username saved
      then a\<lparr>auth_password := auth_password saved\<rparr> else a)"

definition keep_secrets_from :: "config \<Rightarrow> config \<Rightarrow> config" where
  "keep_secrets_from cfg saved =
     (let r = cfg_routing cfg; s = cfg_routing saved;
          u' = (case (rt_upstream r, rt_upstream s) of
                  (Some u, Some old) \<Rightarrow> Some (u\<lparr>up_auth := keep_password_from (up_auth u) (up_auth old)\<rparr>)
                | (u, _) \<Rightarrow> u);
          p' = (case (rt_pac r, rt_pac s) of
                  (Some p, Some old) \<Rightarrow> Some (p\<lparr>pac_auth := keep_password_from (pac_auth p) (pac_auth old)\<rparr>)
                | (p, _) \<Rightarrow> p)
      in cfg\<lparr>cfg_routing := r\<lparr>rt_upstream := u', rt_pac := p'\<rparr>\<rparr>)"

definition pac_upstream :: "routing_config \<Rightarrow> string \<Rightarrow> u16 \<Rightarrow> upstream_config option" where
  "pac_upstream r host port =
     map_option (\<lambda>pac. \<lparr>up_host = host, up_port = port, up_auth = pac_auth pac\<rparr>) (rt_pac r)"

subsection \<open>Validation\<close>

datatype config_error =
    CfgParse string
  | CfgIo string string
  | InvalidPort string u16
  | MissingSection string string
  | NegotiateUnsupported string
  | MissingCredentials string
  | CorpNetworkInvalid string
  | PoolInvalid string

record validation_ctx =
  negotiate_supported :: bool

text \<open>\<^verbatim>\<open>ValidationCtx::host\<close> takes \<^verbatim>\<open>cfg!(windows)\<close> as its argument.\<close>

definition ctx_host :: "bool \<Rightarrow> validation_ctx" where
  "ctx_host cfg_windows = \<lparr>negotiate_supported = cfg_windows\<rparr>"

definition ctx_windows :: validation_ctx where
  "ctx_windows = \<lparr>negotiate_supported = True\<rparr>"

definition check_port :: "string \<Rightarrow> u16 \<Rightarrow> config_error + unit" where
  "check_port field port = (if port = 0 then Inl (InvalidPort field port) else Inr ())"

definition check_auth :: "auth_config \<Rightarrow> string \<Rightarrow> validation_ctx \<Rightarrow> config_error + unit" where
  "check_auth a field ctx =
     (if auth_mode a = AuthNegotiate \<and> \<not> negotiate_supported ctx then Inl (NegotiateUnsupported field)
      else if auth_mode a = AuthBasic
              \<and> trim (case auth_username a of None \<Rightarrow> [] | Some u \<Rightarrow> u) = []
      then Inl (MissingCredentials field)
      else Inr ())"

definition check_corp_network :: "corp_network_config \<Rightarrow> config_error + unit" where
  "check_corp_network c =
     (if \<not> corp_enabled c then Inr ()
      else if \<not> list_ex (\<lambda>s. trim s \<noteq> []) (corp_dns_suffixes c)
      then Inl (CorpNetworkInvalid ''enabled requires at least one non-empty dnsSuffixes entry'')
      else if corp_poll_seconds c = 0
      then Inl (CorpNetworkInvalid ''pollSeconds must be greater than zero'')
      else Inr ())"

definition check_pool :: "pool_config \<Rightarrow> config_error + unit" where
  "check_pool p =
     (if \<not> pool_enabled p then Inr ()
      else if pool_min_idle p = 0 \<or> pool_min_idle p > max_min_idle
      then Inl (PoolInvalid ''minIdle must be between 1 and 16'')
      else if pool_idle_timeout_seconds p = 0
      then Inl (PoolInvalid ''idleTimeoutSeconds must be greater than zero'')
      else Inr ())"

definition check_sections :: "routing_config \<Rightarrow> config_error + unit" where
  "check_sections r =
     (if rt_mode r = ModeUpstream \<and> rt_upstream r = None
      then Inl (MissingSection ''upstream'' ''upstream'')
      else if rt_mode r = ModePac \<and> rt_pac r = None
      then Inl (MissingSection ''pac'' ''pac'')
      else Inr ())"

definition validate :: "config \<Rightarrow> validation_ctx \<Rightarrow> config_error + unit" where
  "validate cfg ctx =
     (let r = cfg_routing cfg in
      and_then (check_port ''listen.port'' (listen_port (cfg_listen cfg))) (\<lambda>_.
      and_then (check_sections r) (\<lambda>_.
      and_then (case rt_upstream r of None \<Rightarrow> Inr ()
                | Some up \<Rightarrow> and_then (check_port ''routing.upstream.port'' (up_port up))
                              (\<lambda>_. check_auth (up_auth up) ''routing.upstream.auth'' ctx)) (\<lambda>_.
      and_then (case rt_pac r of None \<Rightarrow> Inr ()
                | Some pac \<Rightarrow> check_auth (pac_auth pac) ''routing.pac.auth'' ctx) (\<lambda>_.
      and_then (case rt_corp_network r of None \<Rightarrow> Inr () | Some c \<Rightarrow> check_corp_network c) (\<lambda>_.
      check_pool (rt_pool r)))))))"

subsection \<open>Every authentication slot of a configuration\<close>

text \<open>\<open>auth_slots\<close> lists the slots \<^verbatim>\<open>auth_slots_mut\<close> iterates over.\<close>

definition auth_slots :: "config \<Rightarrow> auth_config list" where
  "auth_slots cfg =
     (case rt_upstream (cfg_routing cfg) of None \<Rightarrow> [] | Some u \<Rightarrow> [up_auth u]) @
     (case rt_pac (cfg_routing cfg) of None \<Rightarrow> [] | Some p \<Rightarrow> [pac_auth p])"

lemma auth_slots_map: "auth_slots (map_auth_slots f cfg) = map f (auth_slots cfg)"
  by (simp add: auth_slots_def map_auth_slots_def split: option.split)

lemma map_auth_slots_comp: "map_auth_slots f (map_auth_slots g cfg) = map_auth_slots (f \<circ> g) cfg"
  by (simp add: map_auth_slots_def option.map_comp comp_def)

lemma map_auth_slots_cong:
  "(\<And>a. a \<in> set (auth_slots cfg) \<Longrightarrow> f a = g a) \<Longrightarrow> map_auth_slots f cfg = map_auth_slots g cfg"
  by (cases "rt_upstream (cfg_routing cfg)"; cases "rt_pac (cfg_routing cfg)")
    (simp_all add: auth_slots_def map_auth_slots_def)

lemma map_auth_slots_id: "map_auth_slots (\<lambda>a. a) cfg = cfg"
  by (simp add: map_auth_slots_def option.map_ident)

lemma map_auth_slots_frame [simp]:
  "cfg_listen (map_auth_slots f cfg) = cfg_listen cfg"
  "cfg_logging (map_auth_slots f cfg) = cfg_logging cfg"
  "rt_mode (cfg_routing (map_auth_slots f cfg)) = rt_mode (cfg_routing cfg)"
  "rt_corp_network (cfg_routing (map_auth_slots f cfg)) = rt_corp_network (cfg_routing cfg)"
  "rt_pool (cfg_routing (map_auth_slots f cfg)) = rt_pool (cfg_routing cfg)"
  by (simp_all add: map_auth_slots_def)

lemma keep_password_from_frame [simp]:
  "auth_mode (keep_password_from a b) = auth_mode a"
  "auth_package (keep_password_from a b) = auth_package a"
  "auth_username (keep_password_from a b) = auth_username a"
  by (simp_all add: keep_password_from_def)

lemma keep_secrets_from_frame [simp]:
  "cfg_listen (keep_secrets_from cfg s) = cfg_listen cfg"
  "cfg_logging (keep_secrets_from cfg s) = cfg_logging cfg"
  "rt_mode (cfg_routing (keep_secrets_from cfg s)) = rt_mode (cfg_routing cfg)"
  "rt_corp_network (cfg_routing (keep_secrets_from cfg s)) = rt_corp_network (cfg_routing cfg)"
  "rt_pool (cfg_routing (keep_secrets_from cfg s)) = rt_pool (cfg_routing cfg)"
  by (simp_all add: keep_secrets_from_def Let_def)

text \<open>A slot after a redacted configuration came back unchanged from an editor.\<close>

lemma keep_password_from_redacted:
  "keep_password_from (a\<lparr>auth_password := None\<rparr>) a =
     (if auth_mode a = AuthBasic then a else a\<lparr>auth_password := None\<rparr>)"
  by (simp add: keep_password_from_def)

lemma keep_password_from_given: "auth_password a = Some pw \<Longrightarrow> keep_password_from a b = a"
  by (simp add: keep_password_from_def)

text \<open>
  Redacting loses no password that the application uses. Serving a configuration to the
  user interface with \<open>without_secrets\<close>, and applying it back unchanged over the saved
  one with \<open>keep_secrets_from\<close>, restores every Basic slot exactly; only a password stored in
  a slot that does no Basic authentication is dropped, and nothing else changes.\<close>

lemma redact_restore:
  "keep_secrets_from (without_secrets cfg) cfg =
     map_auth_slots (\<lambda>a. if auth_mode a = AuthBasic then a else a\<lparr>auth_password := None\<rparr>) cfg"
  by (cases "rt_upstream (cfg_routing cfg)"; cases "rt_pac (cfg_routing cfg)")
    (simp_all add: keep_secrets_from_def without_secrets_def map_auth_slots_def
      keep_password_from_redacted)

subsection \<open>What a valid configuration is\<close>

definition auth_valid :: "auth_config \<Rightarrow> validation_ctx \<Rightarrow> bool" where
  "auth_valid a ctx \<longleftrightarrow>
     (auth_mode a = AuthNegotiate \<longrightarrow> negotiate_supported ctx) \<and>
     (auth_mode a = AuthBasic \<longrightarrow> (\<exists>u. auth_username a = Some u \<and> trim u \<noteq> []))"

definition corp_valid :: "corp_network_config \<Rightarrow> bool" where
  "corp_valid c \<longleftrightarrow>
     (corp_enabled c \<longrightarrow> (\<exists>s \<in> set (corp_dns_suffixes c). trim s \<noteq> []) \<and> corp_poll_seconds c \<noteq> 0)"

definition pool_valid :: "pool_config \<Rightarrow> bool" where
  "pool_valid p \<longleftrightarrow>
     (pool_enabled p \<longrightarrow> pool_min_idle p \<in> {1..16} \<and> pool_idle_timeout_seconds p \<noteq> 0)"

definition config_valid :: "config \<Rightarrow> validation_ctx \<Rightarrow> bool" where
  "config_valid cfg ctx \<longleftrightarrow>
     listen_port (cfg_listen cfg) \<noteq> 0 \<and>
     (rt_mode (cfg_routing cfg) = ModeUpstream \<longrightarrow> rt_upstream (cfg_routing cfg) \<noteq> None) \<and>
     (rt_mode (cfg_routing cfg) = ModePac \<longrightarrow> rt_pac (cfg_routing cfg) \<noteq> None) \<and>
     (\<forall>u. rt_upstream (cfg_routing cfg) = Some u \<longrightarrow> up_port u \<noteq> 0) \<and>
     (\<forall>a \<in> set (auth_slots cfg). auth_valid a ctx) \<and>
     (\<forall>c. rt_corp_network (cfg_routing cfg) = Some c \<longrightarrow> corp_valid c) \<and>
     pool_valid (rt_pool (cfg_routing cfg))"

text \<open>
  \<open>violates cfg ctx e\<close>: the configuration really has the fault that \<open>e\<close> reports, in the very
  field, section or slot that it names, and for the reason that it gives.\<close>

definition slot_named :: "config \<Rightarrow> string \<Rightarrow> auth_config option" where
  "slot_named cfg field =
     (if field = ''routing.upstream.auth'' then map_option up_auth (rt_upstream (cfg_routing cfg))
      else if field = ''routing.pac.auth'' then map_option pac_auth (rt_pac (cfg_routing cfg))
      else None)"

definition port_named :: "config \<Rightarrow> string \<Rightarrow> u16 option" where
  "port_named cfg field =
     (if field = ''listen.port'' then Some (listen_port (cfg_listen cfg))
      else if field = ''routing.upstream.port'' then map_option up_port (rt_upstream (cfg_routing cfg))
      else None)"

fun violates :: "config \<Rightarrow> validation_ctx \<Rightarrow> config_error \<Rightarrow> bool" where
  "violates cfg ctx (InvalidPort field port) \<longleftrightarrow> port_named cfg field = Some port \<and> port = 0"
| "violates cfg ctx (MissingSection mode missing) \<longleftrightarrow>
     mode = missing \<and>
     (mode = ''upstream'' \<and> rt_mode (cfg_routing cfg) = ModeUpstream \<and> rt_upstream (cfg_routing cfg) = None \<or>
      mode = ''pac'' \<and> rt_mode (cfg_routing cfg) = ModePac \<and> rt_pac (cfg_routing cfg) = None)"
| "violates cfg ctx (NegotiateUnsupported field) \<longleftrightarrow>
     \<not> negotiate_supported ctx \<and> (\<exists>a. slot_named cfg field = Some a \<and> auth_mode a = AuthNegotiate)"
| "violates cfg ctx (MissingCredentials field) \<longleftrightarrow>
     (\<exists>a. slot_named cfg field = Some a \<and> auth_mode a = AuthBasic \<and> (\<forall>u. auth_username a = Some u \<longrightarrow> trim u = []))"
| "violates cfg ctx (CorpNetworkInvalid reason) \<longleftrightarrow>
     (\<exists>c. rt_corp_network (cfg_routing cfg) = Some c \<and> corp_enabled c \<and>
        (reason = ''enabled requires at least one non-empty dnsSuffixes entry'' \<and>
           (\<forall>s \<in> set (corp_dns_suffixes c). trim s = []) \<or>
         reason = ''pollSeconds must be greater than zero'' \<and> corp_poll_seconds c = 0))"
| "violates cfg ctx (PoolInvalid reason) \<longleftrightarrow>
     pool_enabled (rt_pool (cfg_routing cfg)) \<and>
     (reason = ''minIdle must be between 1 and 16'' \<and> pool_min_idle (rt_pool (cfg_routing cfg)) \<notin> {1..16} \<or>
      reason = ''idleTimeoutSeconds must be greater than zero'' \<and>
        pool_idle_timeout_seconds (rt_pool (cfg_routing cfg)) = 0)"
| "violates cfg ctx (CfgParse _) \<longleftrightarrow> False"
| "violates cfg ctx (CfgIo _ _) \<longleftrightarrow> False"

text \<open>All faults there are, in the order in which they are looked for; the first one is reported.\<close>

definition fault_order :: "config_error list" where
  "fault_order =
     [InvalidPort ''listen.port'' 0] @
     [MissingSection ''upstream'' ''upstream'', MissingSection ''pac'' ''pac''] @
     ([InvalidPort ''routing.upstream.port'' 0] @
      [NegotiateUnsupported ''routing.upstream.auth'', MissingCredentials ''routing.upstream.auth'']) @
     [NegotiateUnsupported ''routing.pac.auth'', MissingCredentials ''routing.pac.auth''] @
     [CorpNetworkInvalid ''enabled requires at least one non-empty dnsSuffixes entry'',
      CorpNetworkInvalid ''pollSeconds must be greater than zero''] @
     [PoolInvalid ''minIdle must be between 1 and 16'', PoolInvalid ''idleTimeoutSeconds must be greater than zero'']"

definition first_fault :: "(config_error \<Rightarrow> bool) \<Rightarrow> config_error list \<Rightarrow> config_error + unit" where
  "first_fault P es = (case filter P es of [] \<Rightarrow> Inr () | e # _ \<Rightarrow> Inl e)"

lemma first_fault_simps [simp]:
  "first_fault P [] = Inr ()"
  "first_fault P (e # es) = (if P e then Inl e else first_fault P es)"
  by (simp_all add: first_fault_def)

lemma first_fault_append: "first_fault P (es @ fs) = and_then (first_fault P es) (\<lambda>_. first_fault P fs)"
  by (induction es) auto

lemma check_port_Inr [simp]: "check_port f p = Inr () \<longleftrightarrow> p \<noteq> 0"
  by (simp add: check_port_def)

lemma check_auth_Inr: "check_auth a f ctx = Inr () \<longleftrightarrow> auth_valid a ctx"
  by (cases "auth_mode a"; cases "auth_username a") (simp_all add: check_auth_def auth_valid_def)

lemma check_corp_Inr: "check_corp_network c = Inr () \<longleftrightarrow> corp_valid c"
  by (auto simp: check_corp_network_def corp_valid_def list_ex_iff)

lemma check_pool_Inr: "check_pool p = Inr () \<longleftrightarrow> pool_valid p"
  by (auto simp: check_pool_def pool_valid_def max_min_idle_def)

lemma check_sections_Inr:
  "check_sections r = Inr () \<longleftrightarrow>
     (rt_mode r = ModeUpstream \<longrightarrow> rt_upstream r \<noteq> None) \<and> (rt_mode r = ModePac \<longrightarrow> rt_pac r \<noteq> None)"
  by (cases "rt_mode r") (simp_all add: check_sections_def)

lemmas check_Inr = check_auth_Inr check_corp_Inr check_pool_Inr check_sections_Inr

lemma validate_Inr: "validate cfg ctx = Inr () \<longleftrightarrow> config_valid cfg ctx"
  by (cases "rt_upstream (cfg_routing cfg)"; cases "rt_pac (cfg_routing cfg)";
      cases "rt_corp_network (cfg_routing cfg)")
    (auto simp: validate_def Let_def and_then_Inr_iff check_Inr config_valid_def auth_slots_def)

lemma and_then_Inl_iff: "and_then r f = Inl e \<longleftrightarrow> r = Inl e \<or> (\<exists>a. r = Inr a \<and> f a = Inl e)"
  by (cases r) auto

text \<open>Each check looks for its part of the list.\<close>

lemma auth_first_fault:
  assumes "slot_named cfg field = Some a"
  shows "check_auth a field ctx = first_fault (violates cfg ctx) [NegotiateUnsupported field, MissingCredentials field]"
  using assms by (cases "auth_username a") (auto simp: check_auth_def)

lemma no_slot_fault:
  "slot_named cfg field = None \<Longrightarrow> first_fault (violates cfg ctx) [NegotiateUnsupported field, MissingCredentials field] = Inr ()"
  by simp

lemma sections_first_fault:
  "check_sections (cfg_routing cfg) =
     first_fault (violates cfg ctx) [MissingSection ''upstream'' ''upstream'', MissingSection ''pac'' ''pac'']"
  by (simp add: check_sections_def)

lemma corp_first_fault:
  "(case rt_corp_network (cfg_routing cfg) of None \<Rightarrow> Inr () | Some c \<Rightarrow> check_corp_network c) =
     first_fault (violates cfg ctx)
       [CorpNetworkInvalid ''enabled requires at least one non-empty dnsSuffixes entry'',
        CorpNetworkInvalid ''pollSeconds must be greater than zero'']"
  by (cases "rt_corp_network (cfg_routing cfg)") (auto simp: check_corp_network_def list_ex_iff)

lemma pool_first_fault:
  "check_pool (rt_pool (cfg_routing cfg)) =
     first_fault (violates cfg ctx)
       [PoolInvalid ''minIdle must be between 1 and 16'', PoolInvalid ''idleTimeoutSeconds must be greater than zero'']"
  by (auto simp: check_pool_def max_min_idle_def)

lemma upstream_first_fault:
  "(case rt_upstream (cfg_routing cfg) of None \<Rightarrow> Inr ()
    | Some up \<Rightarrow> and_then (check_port ''routing.upstream.port'' (up_port up))
                   (\<lambda>_. check_auth (up_auth up) ''routing.upstream.auth'' ctx)) =
     first_fault (violates cfg ctx)
       ([InvalidPort ''routing.upstream.port'' 0] @
        [NegotiateUnsupported ''routing.upstream.auth'', MissingCredentials ''routing.upstream.auth''])"
proof (cases "rt_upstream (cfg_routing cfg)")
  case (Some up)
  have "check_auth (up_auth up) ''routing.upstream.auth'' ctx = first_fault (violates cfg ctx)
      [NegotiateUnsupported ''routing.upstream.auth'', MissingCredentials ''routing.upstream.auth'']"
    using Some by (intro auth_first_fault) (simp add: slot_named_def)
  then show ?thesis unfolding first_fault_append using Some
    by (simp add: check_port_def port_named_def del: first_fault_simps(2)) (simp add: port_named_def)
qed (simp add: port_named_def slot_named_def)

lemma pac_first_fault:
  "(case rt_pac (cfg_routing cfg) of None \<Rightarrow> Inr () | Some pac \<Rightarrow> check_auth (pac_auth pac) ''routing.pac.auth'' ctx) =
     first_fault (violates cfg ctx) [NegotiateUnsupported ''routing.pac.auth'', MissingCredentials ''routing.pac.auth'']"
proof (cases "rt_pac (cfg_routing cfg)")
  case (Some pac)
  have "check_auth (pac_auth pac) ''routing.pac.auth'' ctx = first_fault (violates cfg ctx)
      [NegotiateUnsupported ''routing.pac.auth'', MissingCredentials ''routing.pac.auth'']"
    using Some by (intro auth_first_fault) (simp add: slot_named_def)
  with Some show ?thesis by simp
qed (simp add: slot_named_def)

lemma validate_first_fault: "validate cfg ctx = first_fault (violates cfg ctx) fault_order"
proof -
  have "check_port ''listen.port'' (listen_port (cfg_listen cfg)) = first_fault (violates cfg ctx) [InvalidPort ''listen.port'' 0]"
    by (simp add: check_port_def port_named_def)
  then show ?thesis
    unfolding validate_def fault_order_def Let_def
    by (simp only: first_fault_append upstream_first_fault pac_first_fault corp_first_fault [of cfg ctx] pool_first_fault [of cfg ctx] sections_first_fault [of cfg ctx])
qed

lemma validate_Inl: "validate cfg ctx = Inl e \<Longrightarrow> violates cfg ctx e"
proof -
  have "first_fault P es = Inl e \<Longrightarrow> P e" for P es by (induction es) (auto split: if_splits)
  then show "validate cfg ctx = Inl e \<Longrightarrow> violates cfg ctx e" unfolding validate_first_fault .
qed

text \<open>C22
  \<open>validate\<close> accepts exactly the configurations of the declarative specification
  \<open>config_valid\<close>, and on every other one it reports the first of the configuration's faults, in
  the order of \<open>fault_order\<close>: an error that names the very field, section or slot that is at
  fault and the reason why, as \<open>violates\<close> spells out, and one that no earlier fault hides.\<close>

theorem validate_correct:
  "(validate cfg ctx = Inr () \<longleftrightarrow> config_valid cfg ctx) \<and>
   validate cfg ctx = (case filter (violates cfg ctx) fault_order of [] \<Rightarrow> Inr () | e # _ \<Rightarrow> Inl e)"
  using validate_Inr validate_first_fault by (simp add: first_fault_def)

text \<open>Passwords play no part in validation.\<close>

lemma check_auth_password [simp]:
  "check_auth (a\<lparr>auth_password := pw\<rparr>) f ctx = check_auth a f ctx"
  "check_auth (keep_password_from a b) f ctx = check_auth a f ctx"
  by (simp_all add: check_auth_def)

lemma validate_without_secrets: "validate (without_secrets cfg) ctx = validate cfg ctx"
  by (cases "rt_upstream (cfg_routing cfg)"; cases "rt_pac (cfg_routing cfg)")
    (simp_all add: validate_def without_secrets_def map_auth_slots_def check_sections_def Let_def)

lemma validate_keep_secrets: "validate (keep_secrets_from cfg saved) ctx = validate cfg ctx"
  by (cases "rt_upstream (cfg_routing cfg)"; cases "rt_pac (cfg_routing cfg)";
      cases "rt_upstream (cfg_routing saved)"; cases "rt_pac (cfg_routing saved)")
    (simp_all add: validate_def keep_secrets_from_def check_sections_def Let_def)

lemma without_secrets_keep: "without_secrets (keep_secrets_from e s) = without_secrets e"
  by (cases "rt_upstream (cfg_routing e)"; cases "rt_pac (cfg_routing e)")
    (simp_all add: keep_secrets_from_def without_secrets_def map_auth_slots_def keep_password_from_def Let_def split: option.splits)

lemma without_secrets_no_password:
  "a \<in> set (auth_slots (without_secrets cfg)) \<Longrightarrow> auth_password a = None"
  by (auto simp: without_secrets_def auth_slots_map)

lemma default_config_valid: "config_valid default_config ctx"
  by (simp add: config_valid_def default_config_def default_listen_def default_routing_def
      default_pool_def pool_valid_def auth_slots_def)

end
