(* ===== verification/Pac.thy ===== *)
theory Pac
  imports Config
begin

text \<open>
  PAC results and route decisions: \<^verbatim>\<open>crates/zicade-routing/src/pac.rs\<close>,
  \<^verbatim>\<open>resolver.rs\<close>, \<^verbatim>\<open>fake.rs\<close> and \<^verbatim>\<open>error.rs\<close>. The backend
  trait \<^verbatim>\<open>PacBackend\<close> is a function from URLs to results; the WinHTTP implementation
  is an argument, the deterministic \<^verbatim>\<open>FakeBackend\<close> is modelled.
  The lemmas show what the parser returns on every rendered proxy list, that a parsed
  proxy address is always well formed, and what a route carries.
\<close>

datatype routing_error = BackendError string | RouteUnsupportedPlatform

datatype pac_result = PacDirect | PacProxy string u16

subsection \<open>Parsing\<close>

definition parse_addr :: "string \<Rightarrow> pac_result option" where
  "parse_addr token =
     (let addr = last (split_on (\<lambda>c. c = CHR ''='') token) in
      case rsplit_once (\<lambda>c. c = CHR '':'') addr of
        None \<Rightarrow> None
      | Some (host, port) \<Rightarrow>
          if host = [] then None
          else map_option (PacProxy host) (parse_u16 (trim port)))"

text \<open>One round of the loop: \<open>Some\<close> is a return, \<open>None\<close> goes on to the next entry.\<close>

definition parse_entry :: "string \<Rightarrow> pac_result option" where
  "parse_entry raw =
     (let entry = trim raw; tokens = split_whitespace entry in
      if entry = [] then None
      else (let keyword = (case tokens of [] \<Rightarrow> [] | t # _ \<Rightarrow> t);
                upper = to_ascii_uppercase keyword in
            if upper = ''DIRECT'' then Some PacDirect
            else if upper = ''PROXY''
            then (case tokens of _ # t # _ \<Rightarrow> parse_addr t | _ \<Rightarrow> None)
            else if prefix ''SOCKS'' upper then None
            else parse_addr keyword))"

fun parse_entries :: "string list \<Rightarrow> pac_result" where
  "parse_entries [] = PacDirect"
| "parse_entries (e # es) = (case parse_entry e of Some r \<Rightarrow> r | None \<Rightarrow> parse_entries es)"

definition entry_sep :: "char \<Rightarrow> bool" where
  "entry_sep c \<longleftrightarrow> c = CHR '';'' \<or> c = CHR 0x0A"

definition pac_parse :: "string \<Rightarrow> pac_result" where
  "pac_parse raw = parse_entries (split_on entry_sep raw)"

subsection \<open>Route decisions\<close>

datatype route_decision = RouteDirect | RouteUpstream upstream_config

type_synonym pac_backend = "string \<Rightarrow> routing_error + pac_result"

definition pac_route :: "pac_config \<Rightarrow> pac_backend \<Rightarrow> string \<Rightarrow> routing_error + route_decision" where
  "pac_route pac backend url =
     (case backend url of
        Inr PacDirect \<Rightarrow> Inr RouteDirect
      | Inr (PacProxy host port) \<Rightarrow>
          Inr (RouteUpstream \<lparr>up_host = host, up_port = port, up_auth = pac_auth pac\<rparr>)
      | Inl err \<Rightarrow> (case pac_fail_policy pac of FailError \<Rightarrow> Inl err | FailDirect \<Rightarrow> Inr RouteDirect))"

datatype fake_backend = FakeClassify string u16 | FakeFailing

fun fake_resolve :: "fake_backend \<Rightarrow> pac_backend" where
  "fake_resolve (FakeClassify proxy_host proxy_port) url =
     (if contains ''internal'' url then Inr PacDirect else Inr (PacProxy proxy_host proxy_port))"
| "fake_resolve FakeFailing url = Inl (BackendError ''fake backend failure'')"

subsection \<open>Well-formed addresses\<close>

definition proxy_host_ok :: "string \<Rightarrow> bool" where
  "proxy_host_ok h \<longleftrightarrow> h \<noteq> [] \<and> (\<forall>c \<in> set h. \<not> is_ws c \<and> c \<noteq> CHR ''='' \<and> \<not> entry_sep c)"

lemma parse_addr_Some:
  assumes "parse_addr t = Some r"
  shows "\<exists>h p. r = PacProxy h p \<and> h \<noteq> [] \<and> set h \<subseteq> set t \<and> CHR ''='' \<notin> set h"
proof -
  let ?a = "last (split_on (\<lambda>c. c = CHR ''='') t)"
  have mem: "?a \<in> set (split_on (\<lambda>c. c = CHR ''='') t)" by simp
  from assms obtain h q p where h: "rsplit_once (\<lambda>c. c = CHR '':'') ?a = Some (h, q)" "h \<noteq> []"
      "r = PacProxy h p"
    by (auto simp: parse_addr_def Let_def split: option.splits prod.splits if_splits)
  from h(1) obtain c where "?a = h @ c # q" by (rule rsplit_once_Some)
  then have sub: "set h \<subseteq> set ?a" by (metis Un_upper1 set_append)
  then have "set h \<subseteq> set t" using split_on_set [OF mem] by blast
  moreover have "CHR ''='' \<notin> set h" using sub split_on_pieces [OF mem] by blast
  ultimately show ?thesis using h by auto
qed

lemma parse_entry_Some:
  assumes "parse_entry e = Some r"
  shows "r = PacDirect \<or> (\<exists>h p t. r = PacProxy h p \<and> t \<in> set (split_whitespace (trim e)) \<and> parse_addr t = Some r)"
proof (rule ccontr)
  assume no: "\<not> ?thesis"
  then have "r \<noteq> PacDirect"
    and none: "\<And>t. t \<in> set (split_whitespace (trim e)) \<Longrightarrow> parse_addr t \<noteq> Some r"
    using parse_addr_Some by blast+
  moreover have "parse_addr [] = None"
    by (simp add: parse_addr_def rsplit_once_def split_once_def)
  ultimately show False using assms
    by (auto simp: parse_entry_def Let_def split: if_splits list.splits)
qed

lemma parse_entries_Proxy:
  "parse_entries es = PacProxy h p \<Longrightarrow> \<exists>e \<in> set es. parse_entry e = Some (PacProxy h p)"
  by (induction es) (auto split: option.splits)

text \<open>
  Whatever text WinHTTP or a PAC script returns, a proxy that the parser selects has a
  host that is not empty and holds no white space, no entry separator and no equals sign:
  a scheme prefix and the surrounding list syntax never leak into the address that is
  dialled.\<close>

theorem pac_parse_host_ok: "pac_parse raw = PacProxy h p \<Longrightarrow> proxy_host_ok h"
proof -
  assume "pac_parse raw = PacProxy h p"
  then obtain e where e: "e \<in> set (split_on entry_sep raw)" "parse_entry e = Some (PacProxy h p)"
    unfolding pac_parse_def by (blast dest: parse_entries_Proxy)
  then obtain t where t: "t \<in> set (split_whitespace (trim e))" "parse_addr t = Some (PacProxy h p)"
    using parse_entry_Some [of e] by auto
  from t(2) have h: "h \<noteq> []" "set h \<subseteq> set t" "CHR ''='' \<notin> set h"
    using parse_addr_Some [OF t(2)] by auto
  moreover have "\<forall>c \<in> set t. \<not> is_ws c" and "set t \<subseteq> set e"
    using split_whitespace_pieces [OF t(1)] set_trim [of e] by blast+
  moreover have "\<forall>c \<in> set e. \<not> entry_sep c" using split_on_pieces [OF e(1)] by blast
  ultimately show "proxy_host_ok h" unfolding proxy_host_ok_def by blast
qed

lemma pac_parse_host_ok_witness:
  "proxy_host_ok ''proxy.example.com''"
  by (rule pac_parse_host_ok [of "''SOCKS s:1; https=proxy.example.com:8080''" _ 8080]) code_simp

subsection \<open>Rendered proxy lists\<close>

text \<open>
  The entries that the two wire formats of the module header describe, and their text.
  \<open>first_usable\<close> is the documented rule: the first usable entry wins, SOCKS entries are
  skipped, and nothing usable means a direct connection.
\<close>

datatype pac_entry =
    EDirect
  | EProxy string u16
  | ESocks string
  | EBare string string u16

fun render_entry :: "pac_entry \<Rightarrow> string" where
  "render_entry EDirect = ''DIRECT''"
| "render_entry (EProxy h p) = ''PROXY '' @ h @ '':'' @ show_word p"
| "render_entry (ESocks t) = ''SOCKS '' @ t"
| "render_entry (EBare scheme h p) =
     (if scheme = [] then [] else scheme @ ''='') @ h @ '':'' @ show_word p"

definition plain_token :: "string \<Rightarrow> bool" where
  "plain_token t \<longleftrightarrow> t \<noteq> [] \<and> (\<forall>c \<in> set t. \<not> is_ws c \<and> \<not> entry_sep c \<and> c \<noteq> CHR ''='')"

definition plain_bare :: "string \<Rightarrow> bool" where
  "plain_bare s \<longleftrightarrow> (\<forall>c \<in> set s. \<not> is_ws c)"

fun entry_ok :: "pac_entry \<Rightarrow> bool" where
  "entry_ok EDirect = True"
| "entry_ok (EProxy h p) = plain_token h"
| "entry_ok (ESocks t) = plain_token t"
| "entry_ok (EBare scheme h p) =
     (plain_token h \<and> (scheme = [] \<or> plain_token scheme) \<and>
      \<not> prefix ''SOCKS'' (to_ascii_uppercase (render_entry (EBare scheme h p))))"

fun first_usable :: "pac_entry list \<Rightarrow> pac_result" where
  "first_usable [] = PacDirect"
| "first_usable (EDirect # es) = PacDirect"
| "first_usable (EProxy h p # es) = PacProxy h p"
| "first_usable (ESocks t # es) = first_usable es"
| "first_usable (EBare scheme h p # es) = PacProxy h p"

lemma show_word_chars:
  assumes "c \<in> set (show_word w)"
  shows "is_digit c" and "\<not> is_ws c" and "\<not> entry_sep c" and "c \<noteq> CHR ''=''" and "c \<noteq> CHR '':''"
proof -
  show d: "is_digit c" using assms by (rule show_word_digits)
  show "\<not> is_ws c" by (rule is_digit_not_ws [OF d])
  show "\<not> entry_sep c" using is_digit_neqs [OF d] by (auto simp: entry_sep_def)
  show "c \<noteq> CHR ''=''" and "c \<noteq> CHR '':''" using is_digit_neqs [OF d] by auto
qed

definition addr_text :: "string \<Rightarrow> u16 \<Rightarrow> string" where
  "addr_text h p = h @ '':'' @ show_word p"

lemma addr_text_token:
  assumes "plain_token h"
  shows "plain_token (addr_text h p)"
proof -
  have "\<not> is_ws c \<and> \<not> entry_sep c \<and> c \<noteq> CHR ''=''" if "c \<in> set (addr_text h p)" for c
  proof -
    from that consider "c \<in> set h" | "c = CHR '':''" | "c \<in> set (show_word p)"
      by (auto simp: addr_text_def)
    then show ?thesis
      by cases (use assms in \<open>simp add: plain_token_def\<close>, simp add: is_ws_def entry_sep_def,
        simp add: show_word_chars)
  qed
  then show ?thesis using assms by (simp add: plain_token_def addr_text_def)
qed

lemma parse_addr_text:
  assumes "plain_token h" and "scheme = [] \<or> plain_token scheme"
  shows "parse_addr ((if scheme = [] then [] else scheme @ ''='') @ addr_text h p) = Some (PacProxy h p)"
proof -
  let ?eq = "\<lambda>c. c = CHR ''=''"
  have tok: "split_on ?eq (addr_text h p) = [addr_text h p]"
    by (rule split_on_no_sep) (use addr_text_token [OF assms(1), of p] in \<open>auto simp: plain_token_def\<close>)
  have "split_on ?eq scheme = [scheme]" if "scheme \<noteq> []"
    by (rule split_on_no_sep) (use assms(2) that in \<open>auto simp: plain_token_def\<close>)
  then have "last (split_on ?eq ((if scheme = [] then [] else scheme @ ''='') @ addr_text h p)) = addr_text h p"
    using tok by (simp add: split_on_append_sep)
  moreover have "rsplit_once (\<lambda>c. c = CHR '':'') (addr_text h p) = Some (h, show_word p)"
    unfolding addr_text_def append_Cons append_Nil
    by (rule rsplit_once_found) (auto dest: show_word_chars(5))
  ultimately show ?thesis
    using assms(1) by (simp add: parse_addr_def plain_token_def)
qed

lemma trim_ends:
  assumes "s \<noteq> []" and "\<not> is_ws (hd s)" and "\<not> is_ws (last s)"
  shows "trim s = s"
  using assms by (intro trim_id) auto

lemma not_ws_letters [simp]: "\<not> is_ws (CHR ''P'')" "\<not> is_ws (CHR ''S'')" "is_ws (CHR '' '')"
  by (simp_all add: is_ws_def)

lemma split_whitespace_keyword:
  assumes "plain_token t" and "\<forall>c \<in> set k. \<not> is_ws c" and "k \<noteq> []"
  shows "split_whitespace (k @ CHR '' '' # t) = [k, t]"
proof -
  have "split_whitespace k = [k]" and "split_whitespace t = [t]"
    using assms by (auto simp: plain_token_def intro!: split_whitespace_word)
  then show ?thesis by (simp add: split_whitespace_space)
qed

lemma parse_entry_keyword:
  assumes "plain_token t" and "\<forall>c \<in> set k. \<not> is_ws c" and "k \<noteq> []"
  shows "parse_entry (k @ CHR '' '' # t) =
     (let upper = to_ascii_uppercase k in
      if upper = ''DIRECT'' then Some PacDirect
      else if upper = ''PROXY'' then parse_addr t
      else if prefix ''SOCKS'' upper then None else parse_addr k)"
proof -
  have "trim (k @ CHR '' '' # t) = k @ CHR '' '' # t"
    using assms by (intro trim_ends) (auto simp: plain_token_def hd_append)
  then show ?thesis
    by (simp add: parse_entry_def split_whitespace_keyword [OF assms] Let_def)
qed

lemma to_ascii_uppercase_colon:
  assumes "CHR '':'' \<in> set s"
  shows "to_ascii_uppercase s \<noteq> ''DIRECT''" and "to_ascii_uppercase s \<noteq> ''PROXY''"
proof -
  have "to_upper_char (CHR '':'') = CHR '':''" by code_simp
  then have "CHR '':'' \<in> set (to_ascii_uppercase s)"
    using assms by (force simp: to_ascii_uppercase_def)
  then show "to_ascii_uppercase s \<noteq> ''DIRECT''" and "to_ascii_uppercase s \<noteq> ''PROXY''"
    by (intro notI; simp)+
qed

lemma parse_entry_bare:
  assumes "plain_bare s" and "CHR '':'' \<in> set s" and "\<not> prefix ''SOCKS'' (to_ascii_uppercase s)"
  shows "parse_entry s = parse_addr s"
proof -
  have "s \<noteq> []" and ws: "\<forall>c \<in> set s. \<not> is_ws c"
    using assms(1,2) by (auto simp: plain_bare_def)
  then have "trim s = s" and "split_whitespace s = [s]"
    by (simp_all add: trim_no_ws split_whitespace_word)
  with \<open>s \<noteq> []\<close> show ?thesis
    using assms(3) to_ascii_uppercase_colon [OF assms(2)] by (simp add: parse_entry_def Let_def)
qed

fun entry_result :: "pac_entry \<Rightarrow> pac_result option" where
  "entry_result EDirect = Some PacDirect"
| "entry_result (EProxy h p) = Some (PacProxy h p)"
| "entry_result (ESocks t) = None"
| "entry_result (EBare scheme h p) = Some (PacProxy h p)"

lemma parse_render_entry: "entry_ok e \<Longrightarrow> parse_entry (render_entry e) = entry_result e"
proof (induction e)
  case EDirect
  then show ?case by code_simp
next
  case (EProxy h p)
  have "parse_entry (''PROXY'' @ CHR '' '' # addr_text h p) = parse_addr (addr_text h p)"
    by (subst parse_entry_keyword) (use EProxy addr_text_token in \<open>auto simp: is_ws_def to_ascii_uppercase_def to_upper_char_def is_lower_def code_of_def\<close>)
  then show ?case using EProxy parse_addr_text [of h "[]" p] by (simp add: addr_text_def)
next
  case (ESocks t)
  have "parse_entry (''SOCKS'' @ CHR '' '' # t) = None"
    by (subst parse_entry_keyword) (use ESocks in \<open>auto simp: is_ws_def to_ascii_uppercase_def to_upper_char_def is_lower_def code_of_def\<close>)
  then show ?case by simp
next
  case (EBare scheme h p)
  have "plain_bare (render_entry (EBare scheme h p))"
    using EBare addr_text_token [of h p]
    by (auto simp: plain_bare_def plain_token_def addr_text_def is_ws_def)
  then have "parse_entry (render_entry (EBare scheme h p)) = parse_addr (render_entry (EBare scheme h p))"
    by (rule parse_entry_bare) (use EBare in auto)
  then show ?case using EBare parse_addr_text [of h scheme p] by (simp add: addr_text_def)
qed

lemma render_entry_no_sep: "entry_ok e \<Longrightarrow> c \<in> set (render_entry e) \<Longrightarrow> \<not> entry_sep c"
  using show_word_chars(3) by (induction e) (auto simp: plain_token_def entry_sep_def split: if_splits)

lemma parse_entries_render:
  "list_all entry_ok es \<Longrightarrow> parse_entries (map render_entry es) = first_usable es"
  by (induction es rule: first_usable.induct)
    (simp_all add: parse_render_entry del: render_entry.simps entry_ok.simps)

text \<open>
  The parser implements the documented rule on both wire formats: of a list of DIRECT,
  PROXY, SOCKS and bare (optionally scheme-prefixed) entries joined by semicolons it
  returns the first usable one, with the very host and port that were written.\<close>

theorem pac_parse_first_usable:
  assumes "list_all entry_ok es"
  shows "pac_parse (join '';'' (map render_entry es)) = first_usable es"
proof (cases "es = []")
  case True
  show ?thesis unfolding True by code_simp
next
  case False
  have "split_on entry_sep (join '';'' (map render_entry es)) = map render_entry es"
    by (rule split_on_join)
      (use assms False render_entry_no_sep in \<open>auto simp: entry_sep_def list_all_iff\<close>)
  then show ?thesis
    by (simp add: pac_parse_def parse_entries_render [OF assms])
qed

lemma pac_parse_first_usable_witness:
  "pac_parse ''SOCKS s:1080;https=gw:8080;DIRECT'' = PacProxy ''gw'' 8080"
proof -
  have "list_all entry_ok [ESocks ''s:1080'', EBare ''https'' ''gw'' 8080, EDirect]" by code_simp
  then have "pac_parse (join '';'' (map render_entry [ESocks ''s:1080'', EBare ''https'' ''gw'' 8080, EDirect]))
      = first_usable [ESocks ''s:1080'', EBare ''https'' ''gw'' 8080, EDirect]"
    by (rule pac_parse_first_usable)
  moreover have "join '';'' (map render_entry [ESocks ''s:1080'', EBare ''https'' ''gw'' 8080, EDirect])
      = ''SOCKS s:1080;https=gw:8080;DIRECT''" by code_simp
  ultimately show ?thesis by simp
qed

text \<open>
  The prefix test of the SOCKS rule is wider than a SOCKS entry: a bare proxy whose host
  name starts with those letters is skipped, and so is a whole white-space separated
  WinHTTP list that starts with a \<^verbatim>\<open>socks=\<close> member.
\<close>

lemma pac_parse_socks_prefix_hosts:
  "pac_parse ''socksgw.example.com:8080'' = PacDirect"
  "pac_parse ''socks=s:1080 https=gw:8080'' = PacDirect"
  by code_simp+

subsection \<open>What a route carries\<close>

text \<open>
  Every upstream a PAC route selects carries the authentication section of
  \<open>routing.pac\<close> and the address the backend named; the resolver fails exactly when the
  backend fails under the \<open>error\<close> policy, and with that very error; under the
  \<open>direct\<close> policy a failing backend means a direct connection.\<close>

theorem pac_route_correct:
  "pac_route pac backend url =
     (case (backend url, pac_fail_policy pac) of
        (Inr (PacProxy h p), _) \<Rightarrow>
          Inr (RouteUpstream (the (pac_upstream (default_routing\<lparr>rt_pac := Some pac\<rparr>) h p)))
      | (Inr PacDirect, _) \<Rightarrow> Inr RouteDirect
      | (Inl e, FailError) \<Rightarrow> Inl e
      | (Inl _, FailDirect) \<Rightarrow> Inr RouteDirect)"
  by (simp add: pac_route_def pac_upstream_def split: sum.split pac_result.split fail_policy.split)

lemma pac_route_upstream_auth:
  "pac_route pac backend url = Inr (RouteUpstream up) \<Longrightarrow>
     up_auth up = pac_auth pac \<and> backend url = Inr (PacProxy (up_host up) (up_port up))"
  by (auto simp: pac_route_def split: sum.splits pac_result.splits fail_policy.splits)

lemma pac_route_Inl: "pac_route pac backend url = Inl e \<longleftrightarrow> backend url = Inl e \<and> pac_fail_policy pac = FailError"
  by (auto simp: pac_route_def split: sum.splits pac_result.splits fail_policy.splits)

end
