(* ===== verification/Pac_Router.thy ===== *)
theory Pac_Router
  imports Upstream_Forward Pac
begin

text \<open>
  From a configuration to live routing: \<^verbatim>\<open>apps/zicade/src/routing.rs\<close> and
  \<^verbatim>\<open>pac_router.rs\<close>. An \<^verbatim>\<open>AuthFactory\<close> closure is the data it captures, a
  PAC router the values its closure owns. Its requests run concurrently, each a lookup and
  later, on a miss, the end of a resolution (\<open>router_op\<close>), in any interleaving.
  WinHTTP, SSPI, path canonicalisation and base64 are arguments.
  The lemmas show what the cache may answer, what a route choice carries, and when building
  the routing fails.
\<close>

subsection \<open>Authentication\<close>

datatype win_error = WinUnsupportedPlatform | WinSspi "32 word" | WinTray string

datatype win_sspi_package = WinNtlm | WinNegotiate

record sspi_factory =
  sf_spn :: string
  sf_package :: win_sspi_package

fun map_package :: "sspi_package \<Rightarrow> win_sspi_package" where
  "map_package PkgNtlm = WinNtlm"
| "map_package PkgNegotiate = WinNegotiate"

definition sspi_factory_for :: "string \<Rightarrow> win_sspi_package \<Rightarrow> sspi_factory" where
  "sspi_factory_for host package = \<lparr>sf_spn = ''HTTP/'' @ host, sf_package = package\<rparr>"

text \<open>A call of the factory; \<open>sspi_new\<close> is \<^verbatim>\<open>SspiNegotiate::new\<close>.\<close>

definition make_authenticator ::
    "(string option \<Rightarrow> win_sspi_package \<Rightarrow> win_error + 's) \<Rightarrow> sspi_factory \<Rightarrow> win_error + 's" where
  "make_authenticator sspi_new f = sspi_new (Some (sf_spn f)) (sf_package f)"

definition deferred_step ::
    "(win_error \<Rightarrow> string) \<Rightarrow> 's authenticator \<Rightarrow> (win_error + 's) authenticator" where
  "deferred_step show_err inner d challenge =
     (case d of
        Inr s \<Rightarrow> (case inner s challenge of (r, s') \<Rightarrow> (r, Inr s'))
      | Inl err \<Rightarrow> (Inl (AuthenticatorFailed (''SSPI Negotiate initialization failed: '' @ show_err err)), d))"

definition unwrap_or_default :: "string option \<Rightarrow> string" where
  "unwrap_or_default s = (case s of Some t \<Rightarrow> t | None \<Rightarrow> [])"

definition build_auth :: "b64_encode \<Rightarrow> auth_config \<Rightarrow> string \<Rightarrow> sspi_factory upstream_auth" where
  "build_auth enc a host =
     (case auth_mode a of
        AuthNone \<Rightarrow> UaNone
      | AuthBasic \<Rightarrow> UaBasic (build_basic_authorization enc (unwrap_or_default (auth_username a))
                                (unwrap_or_default (auth_password a)))
      | AuthNegotiate \<Rightarrow> UaNegotiate (sspi_factory_for host (map_package (auth_package a))))"

subsection \<open>Pools and the static upstream\<close>

definition pool_settings :: "pool_config \<Rightarrow> pool_limits option" where
  "pool_settings p =
     (if pool_enabled p
      then Some \<lparr>pl_min_idle = pool_min_idle p, pl_idle_timeout = unat (pool_idle_timeout_seconds p) * 1000\<rparr>
      else None)"

text \<open>Pools are numbered within their routing snapshot; a static upstream has the pool 0.\<close>

definition build_upstream ::
    "b64_encode \<Rightarrow> config \<Rightarrow> string + sspi_factory upstream_target \<times> pool_limits option" where
  "build_upstream enc cfg =
     (case rt_upstream (cfg_routing cfg) of
        None \<Rightarrow> Inl ''routing.mode = upstream requires a [routing.upstream] section''
      | Some up \<Rightarrow>
          let addr = up_host up @ '':'' @ show_word (up_port up);
              a = build_auth enc (up_auth up) (up_host up);
              pool = pool_settings (rt_pool (cfg_routing cfg))
          in Inr (\<lparr>ut_addr = addr, ut_auth = a, ut_pool = map_option (\<lambda>_. 0) pool\<rparr>, pool))"

subsection \<open>The decision cache\<close>

definition resolve_timeout :: millis where
  "resolve_timeout = 5000"

definition cache_ttl :: millis where
  "cache_ttl = 300000"

definition cache_max_entries :: nat where
  "cache_max_entries = 4096"

record pac_cache =
  pc_ttl :: millis
  pc_entries :: "(string \<times> millis \<times> pac_result) list"

definition cache_new :: "millis \<Rightarrow> pac_cache" where
  "cache_new ttl = \<lparr>pc_ttl = ttl, pc_entries = []\<rparr>"

definition cache_get :: "millis \<Rightarrow> string \<Rightarrow> pac_cache \<Rightarrow> pac_result option" where
  "cache_get now url c =
     (case map_of (pc_entries c) url of
        None \<Rightarrow> None
      | Some (stored_at, decision) \<Rightarrow> if now - stored_at < pc_ttl c then Some decision else None)"

definition cache_put :: "millis \<Rightarrow> string \<Rightarrow> pac_result \<Rightarrow> pac_cache \<Rightarrow> pac_cache" where
  "cache_put now url decision c =
     (let entries = (if length (pc_entries c) \<ge> cache_max_entries then [] else pc_entries c)
      in c\<lparr>pc_entries := (url, now, decision) # filter (\<lambda>(k, _). k \<noteq> url) entries\<rparr>)"

subsection \<open>The resolver thread\<close>

fun show_routing_error :: "routing_error \<Rightarrow> string" where
  "show_routing_error (BackendError msg) = ''PAC backend resolution failed: '' @ msg"
| "show_routing_error RouteUnsupportedPlatform = ''unsupported platform (not Windows)''"

definition replace_char :: "char \<Rightarrow> char \<Rightarrow> string \<Rightarrow> string" where
  "replace_char a b s = map (\<lambda>c. if c = a then b else c) s"

definition file_url :: "(string \<Rightarrow> string option) \<Rightarrow> string \<Rightarrow> string" where
  "file_url canonicalize path =
     (let absolute = (case canonicalize path of Some p \<Rightarrow> p | None \<Rightarrow> path);
          slashed = replace_char (CHR 0x5C) (CHR ''/'') absolute;
          trimmed = (case strip_prefix ''//?/'' slashed of Some t \<Rightarrow> t | None \<Rightarrow> slashed)
      in ''file:///'' @ trim_start_matches (\<lambda>c. c = CHR ''/'') trimmed)"

definition build_backend ::
    "(string \<Rightarrow> string option) \<Rightarrow> routing_error + pac_backend \<Rightarrow> (string \<Rightarrow> routing_error + pac_backend)
     \<Rightarrow> pac_source \<Rightarrow> string option \<Rightarrow> string option \<Rightarrow> string + pac_backend" where
  "build_backend canonicalize from_system with_config_url source url path =
     and_then
       (case source of
          PacAuto \<Rightarrow> Inr from_system
        | PacUrl \<Rightarrow> (case url of
              None \<Rightarrow> Inl ''routing.pac.url is required for source = \"url\"''
            | Some u \<Rightarrow> Inr (with_config_url u))
        | PacFile \<Rightarrow> (case path of
              None \<Rightarrow> Inl ''routing.pac.path is required for source = \"file\"''
            | Some p \<Rightarrow> Inr (with_config_url (file_url canonicalize p))))
       (\<lambda>backend. case backend of Inl err \<Rightarrow> Inl (show_routing_error err) | Inr b \<Rightarrow> Inr b)"

definition serve_job :: "string + pac_backend \<Rightarrow> string \<Rightarrow> routing_error + pac_result" where
  "serve_job backend url = (case backend of Inr b \<Rightarrow> b url | Inl msg \<Rightarrow> Inl (BackendError msg))"

text \<open>What the requester sees of its round-trip through the thread.\<close>

datatype thread_outcome = ThreadStopped | ThreadReply "routing_error + pac_result" | ThreadDropped | ThreadTimedOut

definition resolve_via_thread :: "thread_outcome \<Rightarrow> routing_error + pac_result" where
  "resolve_via_thread outcome =
     (case outcome of
        ThreadStopped \<Rightarrow> Inl (BackendError ''PAC resolver thread stopped'')
      | ThreadReply r \<Rightarrow> r
      | ThreadDropped \<Rightarrow> Inl (BackendError ''PAC resolver dropped the request'')
      | ThreadTimedOut \<Rightarrow> Inl (BackendError (''PAC resolution timed out after ''
            @ show_nat (resolve_timeout div 1000) @ ''s (resolver busy or WinHTTP call wedged)'')))"

subsection \<open>The router\<close>

definition to_route_choice ::
    "b64_encode \<Rightarrow> routing_error + pac_result \<Rightarrow> routing_config \<Rightarrow> io_error + sspi_factory route_choice" where
  "to_route_choice enc resolved r =
     (case resolved of
        Inr PacDirect \<Rightarrow> Inr ChoiceDirect
      | Inr (PacProxy host port) \<Rightarrow>
          (case pac_upstream r host port of
             None \<Rightarrow> Inl (io_other ''PAC selected a proxy but no [routing.pac] config is present'')
           | Some up \<Rightarrow>
               Inr (ChoiceUpstream \<lparr>ut_addr = host @ '':'' @ show_word port,
                                    ut_auth = build_auth enc (up_auth up) host, ut_pool = None\<rparr>))
      | Inl err \<Rightarrow>
          (case (case rt_pac r of Some p \<Rightarrow> pac_fail_policy p | None \<Rightarrow> FailError) of
             FailDirect \<Rightarrow> Inr ChoiceDirect
           | FailError \<Rightarrow> Inl (io_other (''PAC resolution failed: '' @ show_routing_error err))))"

definition with_pool ::
    "'f route_choice \<Rightarrow> pool_registry option \<Rightarrow> 'f route_choice \<times> pool_registry option" where
  "with_pool choice pools =
     (case (choice, pools) of
        (ChoiceUpstream target, Some ps) \<Rightarrow>
          (case pools_get ps (ut_addr target) of
             (ps', pool) \<Rightarrow> (ChoiceUpstream (target\<lparr>ut_pool := pool\<rparr>), Some ps'))
      | _ \<Rightarrow> (choice, pools))"

record pac_router =
  pa_routing :: routing_config
  pa_cache :: pac_cache
  pa_pools :: "pool_registry option"

definition finish_route ::
    "b64_encode \<Rightarrow> routing_error + pac_result \<Rightarrow> pac_router \<Rightarrow> pac_router \<times> (io_error + sspi_factory route_choice)" where
  "finish_route enc resolved s =
     (case to_route_choice enc resolved (pa_routing s) of
        Inl err \<Rightarrow> (s, Inl err)
      | Inr choice \<Rightarrow> (case with_pool choice (pa_pools s) of (c, ps) \<Rightarrow> (s\<lparr>pa_pools := ps\<rparr>, Inr c)))"

datatype router_op = RoLookup millis string | RoResolved millis string thread_outcome

datatype router_answer = AskThread string | RouteAnswer "io_error + sspi_factory route_choice"

fun router_step :: "b64_encode \<Rightarrow> pac_router \<Rightarrow> router_op \<Rightarrow> pac_router \<times> router_answer" where
  "router_step enc s (RoLookup now url) =
     (case cache_get now url (pa_cache s) of
        Some decision \<Rightarrow> (case finish_route enc (Inr decision) s of (s', r) \<Rightarrow> (s', RouteAnswer r))
      | None \<Rightarrow> (s, AskThread url))"
| "router_step enc s (RoResolved now url outcome) =
     (let resolved = resolve_via_thread outcome;
          s = (case resolved of
                 Inr decision \<Rightarrow> s\<lparr>pa_cache := cache_put now url decision (pa_cache s)\<rparr>
               | Inl _ \<Rightarrow> s)
      in case finish_route enc resolved s of (s', r) \<Rightarrow> (s', RouteAnswer r))"

text \<open>\<open>spawned\<close> is the outcome of starting the resolver thread.\<close>

definition build_pac :: "io_error + unit \<Rightarrow> config \<Rightarrow> string + pac_router" where
  "build_pac spawned cfg =
     (case rt_pac (cfg_routing cfg) of
        None \<Rightarrow> Inl ''routing.mode = pac requires a [routing.pac] section''
      | Some pac \<Rightarrow>
          (case spawned of
             Inl e \<Rightarrow> Inl (''start the PAC resolver thread: '' @ io_message e)
           | Inr _ \<Rightarrow>
               Inr \<lparr>pa_routing = cfg_routing cfg, pa_cache = cache_new cache_ttl,
                    pa_pools = map_option pools_new (pool_settings (rt_pool (cfg_routing cfg)))\<rparr>))"

definition build_routing ::
    "b64_encode \<Rightarrow> io_error + unit \<Rightarrow> config \<Rightarrow> string + (sspi_factory, pac_router) routing" where
  "build_routing enc spawned cfg =
     (case rt_mode (cfg_routing cfg) of
        ModeDirect \<Rightarrow> Inr RoutingDirect
      | ModeUpstream \<Rightarrow> map_sum id (RoutingUpstream \<circ> fst) (build_upstream enc cfg)
      | ModePac \<Rightarrow> map_sum id RoutingPac (build_pac spawned cfg))"

subsection \<open>What the cache may answer\<close>

text \<open>The last successful resolution of each URL, with its time, from the operations alone.\<close>

fun note_resolved :: "(string \<rightharpoonup> millis \<times> pac_result) \<Rightarrow> router_op \<Rightarrow> (string \<rightharpoonup> millis \<times> pac_result)" where
  "note_resolved m (RoLookup now url) = m"
| "note_resolved m (RoResolved now url outcome) =
     (case resolve_via_thread outcome of Inr d \<Rightarrow> m(url \<mapsto> (now, d)) | Inl _ \<Rightarrow> m)"

definition cache_within :: "(string \<rightharpoonup> millis \<times> pac_result) \<Rightarrow> pac_cache \<Rightarrow> bool" where
  "cache_within m c \<longleftrightarrow> length (pc_entries c) \<le> cache_max_entries \<and> map_of (pc_entries c) \<subseteq>\<^sub>m m"

lemma map_of_filter_key: "map_of (filter (\<lambda>(k, _). k \<noteq> a) es) x = (if x = a then None else map_of es x)"
  by (induction es) auto

lemma cache_put_within:
  assumes "cache_within m c"
  shows "cache_within (m(url \<mapsto> (now, d))) (cache_put now url d c)"
proof -
  let ?es = "if length (pc_entries c) \<ge> cache_max_entries then [] else pc_entries c"
  have "length ?es < cache_max_entries" by (simp add: cache_max_entries_def)
  moreover have "length (filter (\<lambda>(k, _). k \<noteq> url) ?es) \<le> length ?es" by (rule length_filter_le)
  ultimately have "Suc (length (filter (\<lambda>(k, _). k \<noteq> url) ?es)) \<le> cache_max_entries" by linarith
  then have "length (pc_entries (cache_put now url d c)) \<le> cache_max_entries"
    by (simp add: cache_put_def Let_def)
  with assms show ?thesis
    by (auto simp: cache_within_def cache_put_def Let_def map_le_def dom_def map_of_filter_key)
qed

lemma finish_route_cache [simp]:
  "finish_route enc resolved s = (s', x) \<Longrightarrow> pa_cache s' = pa_cache s \<and> pa_routing s' = pa_routing s"
  by (auto simp: finish_route_def split: sum.splits prod.splits)

lemma router_step_cache:
  assumes "router_step enc s op = (s', x)" and "cache_within m (pa_cache s)"
  shows "cache_within (note_resolved m op) (pa_cache s') \<and> pc_ttl (pa_cache s') = pc_ttl (pa_cache s)"
proof (cases op)
  case (RoLookup now url)
  with assms show ?thesis
    by (auto split: option.splits prod.splits dest!: finish_route_cache)
next
  case (RoResolved now url outcome)
  with assms show ?thesis
    by (auto simp: Let_def cache_put_within split: sum.splits prod.splits dest!: finish_route_cache)
      (auto simp: cache_put_def Let_def)
qed

lemma run_router_cache:
  assumes "run (router_step enc) s ops = (s', xs)" and "cache_within m (pa_cache s)"
  shows "cache_within (foldl note_resolved m ops) (pa_cache s') \<and> pc_ttl (pa_cache s') = pc_ttl (pa_cache s)"
  using assms
proof (induction ops arbitrary: s m xs)
  case (Cons op ops)
  from Cons.prems(1) obtain t x ys where
    "router_step enc s op = (t, x)" "run (router_step enc) t ops = (s', ys)" by (rule run_ConsE)
  with Cons router_step_cache show ?case by fastforce
qed simp

definition router_new :: "routing_config \<Rightarrow> pool_registry option \<Rightarrow> pac_router" where
  "router_new r ps = \<lparr>pa_routing = r, pa_cache = cache_new cache_ttl, pa_pools = ps\<rparr>"

text \<open>C19
  The PAC cache never invents or outlives a decision. After any interleaving of requests, a
  lookup is either sent to the resolver, or answered with the decision of the last successful
  resolution of exactly that URL, less than 300 seconds old; errors and timeouts are never
  answered from the cache, and it never holds more than 4096 URLs.\<close>

theorem cached_decision_is_last:
  "let s = fst (run (router_step enc) (router_new r ps) ops) in
     length (pc_entries (pa_cache s)) \<le> 4096 \<and>
     (case router_step enc s (RoLookup now url) of
        (s', AskThread u) \<Rightarrow> u = url \<and> s' = s
      | (s', RouteAnswer a) \<Rightarrow>
          (case foldl note_resolved Map.empty ops url of
             None \<Rightarrow> False
           | Some (t, d) \<Rightarrow> now - t < 300000 \<and> a = snd (finish_route enc (Inr d) s)))"
proof -
  obtain s xs where run: "run (router_step enc) (router_new r ps) ops = (s, xs)" by fastforce
  have "cache_within Map.empty (pa_cache (router_new r ps))"
    by (simp add: cache_within_def router_new_def cache_new_def)
  from run_router_cache [OF run this]
  have within: "cache_within (foldl note_resolved Map.empty ops) (pa_cache s)"
    and ttl: "pc_ttl (pa_cache s) = 300000"
    by (simp_all add: router_new_def cache_new_def cache_ttl_def)
  have "foldl note_resolved Map.empty ops url = Some e" if "map_of (pc_entries (pa_cache s)) url = Some e" for e
    using within that by (metis cache_within_def map_le_def domI)
  with run ttl within show ?thesis
    by (auto simp: Let_def cache_get_def cache_within_def cache_max_entries_def
        split: option.splits prod.splits)
qed

text \<open>A hit after a resolution: the cache does answer.\<close>

lemma cache_hit_after_put:
  "now - t < pc_ttl c \<Longrightarrow> cache_get now url (cache_put t url d c) = Some d"
  by (simp add: cache_get_def cache_put_def Let_def)

subsection \<open>Route choices\<close>

text \<open>C20
  The live PAC router decides as the reference router of \<^verbatim>\<open>zicade-routing\<close> does:
  direct where it says direct, the resolved \<open>host:port\<close> where it selects a proxy, an error
  only under the \<^verbatim>\<open>error\<close> policy. A selected proxy carries the credentials of
  \<^verbatim>\<open>routing.pac.auth\<close>, with the Negotiate principal named after the resolved host.\<close>

theorem route_choice_follows_pac:
  "to_route_choice enc (backend url) (r\<lparr>rt_pac := Some pac\<rparr>) =
     (case pac_route pac backend url of
        Inl err \<Rightarrow> Inl (io_other (''PAC resolution failed: '' @ show_routing_error err))
      | Inr RouteDirect \<Rightarrow> Inr ChoiceDirect
      | Inr (RouteUpstream up) \<Rightarrow>
          Inr (ChoiceUpstream
            \<lparr>ut_addr = addr_text (up_host up) (up_port up),
             ut_auth = (case auth_mode (pac_auth pac) of
                          AuthNone \<Rightarrow> UaNone
                        | AuthBasic \<Rightarrow> UaBasic (build_basic_authorization enc
                            (unwrap_or_default (auth_username (pac_auth pac)))
                            (unwrap_or_default (auth_password (pac_auth pac))))
                        | AuthNegotiate \<Rightarrow> UaNegotiate
                            \<lparr>sf_spn = ''HTTP/'' @ up_host up, sf_package = map_package (auth_package (pac_auth pac))\<rparr>),
             ut_pool = None\<rparr>))"
proof (cases "backend url")
  case (Inl e)
  then show ?thesis
    by (simp add: to_route_choice_def pac_route_def split: fail_policy.split)
next
  case (Inr res)
  then show ?thesis
    by (cases res)
      (simp_all add: to_route_choice_def pac_route_def pac_upstream_def addr_text_def build_auth_def
        sspi_factory_for_def split: auth_mode.split)
qed

lemma pac_router_needs_pac: "to_route_choice enc (Inr (PacProxy h p)) (r\<lparr>rt_pac := None\<rparr>) =
    Inl (io_other ''PAC selected a proxy but no [routing.pac] config is present'')"
  by (simp add: to_route_choice_def pac_upstream_def)

text \<open>A deferred authenticator whose construction failed fails at each step, with the reason.\<close>

lemma deferred_failure:
  "deferred_step show_err inner (Inl e) c =
     (Inl (AuthenticatorFailed (''SSPI Negotiate initialization failed: '' @ show_err e)), Inl e)"
  by (simp add: deferred_step_def)

text \<open>A path always becomes a \<^verbatim>\<open>file:///\<close> URL with forward slashes only.\<close>

lemma file_url_slashes: "CHR 0x5C \<notin> set (file_url canon path)"
proof -
  let ?s = "replace_char (CHR 0x5C) (CHR ''/'') (case canon path of Some p \<Rightarrow> p | None \<Rightarrow> path)"
  have s: "CHR 0x5C \<notin> set ?s" by (auto simp: replace_char_def)
  have "set (case strip_prefix ''//?/'' ?s of Some t \<Rightarrow> t | None \<Rightarrow> ?s) \<subseteq> set ?s"
    by (auto simp: strip_prefix_def split: option.splits if_splits dest: in_set_dropD)
  with s have "CHR 0x5C \<notin> set (trim_start_matches (\<lambda>c. c = CHR ''/'')
      (case strip_prefix ''//?/'' ?s of Some t \<Rightarrow> t | None \<Rightarrow> ?s))"
    by (auto simp: trim_start_matches_def dest: set_dropWhileD)
  then show ?thesis by (simp add: file_url_def Let_def)
qed

subsection \<open>Valid configurations build\<close>

fun mode_kind :: "routing_mode \<Rightarrow> string" where
  "mode_kind ModeDirect = ''Direct''"
| "mode_kind ModeUpstream = ''Upstream''"
| "mode_kind ModePac = ''Pac''"

text \<open>C39
  A configuration that passes validation has routing: \<open>build_routing\<close> succeeds on it whenever
  the resolver thread starts, and gives the kind of routing its mode names.\<close>

theorem valid_config_builds:
  assumes "validate cfg ctx = Inr ()"
  shows "case build_routing enc (Inr ()) cfg of
           Inl _ \<Rightarrow> False | Inr routing \<Rightarrow> debug_routing routing = mode_kind (rt_mode (cfg_routing cfg))"
proof -
  have "config_valid cfg ctx" using assms by (simp add: validate_Inr)
  then show ?thesis
    by (cases "rt_mode (cfg_routing cfg)")
      (auto simp: config_valid_def build_routing_def build_upstream_def build_pac_def Let_def)
qed

lemma valid_config_builds_witness:
  "let cfg = default_config\<lparr>cfg_routing := default_routing\<lparr>rt_mode := ModePac, rt_pac := Some default_pac\<rparr>\<rparr>
   in case build_routing id (Inr ()) cfg of
        Inl _ \<Rightarrow> False | Inr routing \<Rightarrow> debug_routing routing = mode_kind (rt_mode (cfg_routing cfg))"
  unfolding Let_def
  by (rule valid_config_builds [where ctx = ctx_windows])
    (simp add: validate_Inr config_valid_def default_config_def default_listen_def default_routing_def
      default_pool_def pool_valid_def auth_slots_def auth_valid_def default_pac_def default_auth_def)

text \<open>The pool of a valid configuration keeps between 1 and 16 sockets, for at least a second.\<close>

lemma valid_pool_settings:
  assumes "pool_valid p" and "pool_settings p = Some l"
  shows "pl_min_idle l \<in> {1..16}" and "1000 \<le> pl_idle_timeout l"
proof -
  have p: "pool_enabled p" and l: "pl_min_idle l = pool_min_idle p"
      "pl_idle_timeout l = unat (pool_idle_timeout_seconds p) * 1000"
    using assms(2) by (auto simp: pool_settings_def split: if_splits)
  then show "pl_min_idle l \<in> {1..16}" using assms(1) by (simp add: pool_valid_def)
  have "0 < unat (pool_idle_timeout_seconds p)"
    using assms(1) p by (simp add: pool_valid_def unat_gt_0)
  then show "1000 \<le> pl_idle_timeout l" by (simp add: l)
qed

end
