(* ===== verification/Gate.thy ===== *)
theory Gate
  imports Config Machine
begin

text \<open>
  The corporate-network gate: \<^verbatim>\<open>apps/zicade/src/netmon/mod.rs\<close> (the decision) and
  \<^verbatim>\<open>netmon/gate.rs\<close> (the supervisor), with the wiring of \<^verbatim>\<open>app.rs\<close> that
  builds it. The routing values are a parameter \<open>'r\<close>, the closure that rebuilds them from a
  configuration an argument \<open>rebuild\<close>, and each operation carries the DNS suffixes its call
  of \<^verbatim>\<open>detect\<close> finds. All operations run under one mutex, so the monitor thread and the
  apply hook are a sequence of operations. The gate only acts on transitions; it implements
  a memoryless gate that recomputes the routing each time (the refinement below).
\<close>

subsection \<open>The decision\<close>

definition normalize_suffix :: "string \<Rightarrow> string option" where
  "normalize_suffix s =
     (let t = to_ascii_lowercase (trim_matches (\<lambda>c. c = CHR ''.'') (trim s))
      in if t = [] then None else Some t)"

definition suffix_matches :: "string \<Rightarrow> string \<Rightarrow> bool" where
  "suffix_matches a c \<longleftrightarrow> a = c \<or> suffix (CHR ''.'' # c) a"

definition on_corp :: "string list \<Rightarrow> string list \<Rightarrow> bool" where
  "on_corp active configured =
     (let wanted = List.map_filter normalize_suffix configured
      in if wanted = [] then False
         else list_ex (\<lambda>a. list_ex (suffix_matches a) wanted) (List.map_filter normalize_suffix active))"

subsection \<open>The supervisor\<close>

definition gate_enabled :: "config \<Rightarrow> bool" where
  "gate_enabled cfg = (case rt_corp_network (cfg_routing cfg) of Some c \<Rightarrow> corp_enabled c | None \<Rightarrow> False)"

definition gate_params :: "config \<Rightarrow> bool \<times> string list \<times> u64" where
  "gate_params cfg =
     (case rt_corp_network (cfg_routing cfg) of
        Some c \<Rightarrow> if corp_enabled c then (True, corp_dns_suffixes c, max (corp_poll_seconds c) 1)
                  else (False, [], 30)
      | None \<Rightarrow> (False, [], 30))"

text \<open>
  The fields of \<^verbatim>\<open>GateInner\<close>; \<open>gt_routing\<close> is the value behind the routing handle it
  holds and \<open>gt_cell\<close> the on-corp cell its \<^verbatim>\<open>report\<close> closure writes.\<close>

record 'r gate =
  gt_routing :: 'r
  gt_enabled :: bool
  gt_suffixes :: "string list"
  gt_poll :: u64
  gt_config :: config
  gt_last :: "bool option"
  gt_cell :: "bool option"

definition gate_new :: "'r \<Rightarrow> config \<Rightarrow> 'r gate" where
  "gate_new r cfg =
     (case gate_params cfg of
        (enabled, wanted, poll) \<Rightarrow>
          \<lparr>gt_routing = r, gt_enabled = enabled, gt_suffixes = wanted, gt_poll = poll,
           gt_config = cfg, gt_last = None, gt_cell = None\<rparr>)"

definition gate_apply :: "(config \<Rightarrow> 'r) \<Rightarrow> 'r \<Rightarrow> bool \<Rightarrow> 'r gate \<Rightarrow> 'r gate" where
  "gate_apply rebuild direct corp g =
     g\<lparr>gt_routing := (if corp then rebuild (gt_config g) else direct), gt_cell := Some corp\<rparr>"

text \<open>The answer of an operation says whether it called \<^verbatim>\<open>report\<close>.\<close>

definition gate_evaluate ::
    "(config \<Rightarrow> 'r) \<Rightarrow> 'r \<Rightarrow> string list \<Rightarrow> 'r gate \<Rightarrow> 'r gate \<times> bool" where
  "gate_evaluate rebuild direct detected g =
     (if \<not> gt_enabled g then (g, False)
      else let corp = on_corp detected (gt_suffixes g)
           in if gt_last g = Some corp then (g, False)
              else ((gate_apply rebuild direct corp g)\<lparr>gt_last := Some corp\<rparr>, True))"

definition gate_reconfigure ::
    "(config \<Rightarrow> 'r) \<Rightarrow> 'r \<Rightarrow> config \<Rightarrow> string list \<Rightarrow> 'r gate \<Rightarrow> 'r gate \<times> bool" where
  "gate_reconfigure rebuild direct cfg detected g =
     (case gate_params cfg of
        (enabled, wanted, poll) \<Rightarrow>
          let g = g\<lparr>gt_enabled := enabled, gt_suffixes := wanted, gt_poll := poll,
                    gt_config := cfg, gt_last := None\<rparr>
          in if gt_enabled g then gate_evaluate rebuild direct detected g
             else (g\<lparr>gt_routing := rebuild (gt_config g), gt_cell := None\<rparr>, True))"

text \<open>\<open>GoEvaluate\<close> is a turn of the monitor, \<open>GoReconfigure\<close> a call of the apply hook.\<close>

datatype gate_op = GoEvaluate "string list" | GoReconfigure config "string list"

fun gate_step :: "(config \<Rightarrow> 'r) \<Rightarrow> 'r \<Rightarrow> 'r gate \<Rightarrow> gate_op \<Rightarrow> 'r gate \<times> bool" where
  "gate_step rebuild direct g (GoEvaluate detected) = gate_evaluate rebuild direct detected g"
| "gate_step rebuild direct g (GoReconfigure cfg detected) =
     gate_reconfigure rebuild direct cfg detected g"

text \<open>
  The monitor thread: before each turn it looks at the shutdown flag. The waits between the
  turns (\<open>gt_poll\<close> at most) only decide when the next one happens.\<close>

fun gate_monitor ::
    "(config \<Rightarrow> 'r) \<Rightarrow> 'r \<Rightarrow> 'r gate \<Rightarrow> (bool \<times> string list) list \<Rightarrow> 'r gate \<times> u64 list" where
  "gate_monitor rebuild direct g [] = (g, [])"
| "gate_monitor rebuild direct g ((shutdown, detected) # turns) =
     (if shutdown then (g, [])
      else let g' = fst (gate_evaluate rebuild direct detected g)
           in case gate_monitor rebuild direct g' turns of (g'', waits) \<Rightarrow> (g'', gt_poll g' # waits))"

text \<open>
  \<^verbatim>\<open>App::start\<close> binds the proxy with \<open>direct\<close> and fixes the configured routing when the
  gate is off; then \<^verbatim>\<open>build_apply_hook_and_gate\<close> builds the gate and evaluates it.\<close>

definition build_gate :: "(config \<Rightarrow> 'r) \<Rightarrow> 'r \<Rightarrow> config \<Rightarrow> string list \<Rightarrow> 'r gate" where
  "build_gate rebuild direct cfg detected =
     fst (gate_evaluate rebuild direct detected
            (gate_new (if gate_enabled cfg then direct else rebuild cfg) cfg))"

lemmas [step_defs] = gate_evaluate_def gate_reconfigure_def gate_apply_def

subsection \<open>What the decision means\<close>

definition labels :: "string \<Rightarrow> string list" where
  "labels s = split_on (\<lambda>c. c = CHR ''.'') s"

lemma suffix_matches_labels: "suffix_matches a c \<longleftrightarrow> suffix (labels c) (labels a)"
proof
  assume "suffix_matches a c"
  then show "suffix (labels c) (labels a)"
    by (auto simp: suffix_matches_def suffix_def labels_def split_on_append_sep)
next
  assume "suffix (labels c) (labels a)"
  then obtain ws where ws: "labels a = ws @ labels c" by (auto simp: suffix_def)
  have a: "a = join ''.'' (labels a)" and c: "c = join ''.'' (labels c)"
    by (simp_all add: labels_def join_split_on)
  have join: "join ''.'' (vs @ labels c) = (if vs = [] then c else join ''.'' vs @ ''.'' @ c)" for vs
  proof (induction vs)
    case Nil
    then show ?case using c by simp
  next
    case (Cons v vs)
    have "vs @ labels c \<noteq> []" by (simp add: labels_def)
    then have "join ''.'' ((v # vs) @ labels c) = v @ ''.'' @ join ''.'' (vs @ labels c)"
      by (cases "vs @ labels c") simp_all
    with Cons show ?case by (cases vs) simp_all
  qed
  from a ws join [of ws] show "suffix_matches a c"
    by (auto simp: suffix_matches_def suffix_def split: if_splits)
qed

text \<open>
  The decision: some active suffix lies at or below some configured one in the DNS tree, when
  both are read as lists of labels, with case, surrounding white space and outer dots
  dropped. An empty suffix takes no part on either side.\<close>

theorem on_corp_spec:
  "on_corp active configured \<longleftrightarrow>
     (\<exists>a \<in> set active. \<exists>c \<in> set configured. \<exists>a' c'.
        normalize_suffix a = Some a' \<and> normalize_suffix c = Some c' \<and> suffix (labels c') (labels a'))"
proof -
  have "on_corp active configured \<longleftrightarrow>
      (\<exists>a' \<in> set (List.map_filter normalize_suffix active).
         \<exists>c' \<in> set (List.map_filter normalize_suffix configured). suffix_matches a' c')"
    by (auto simp: on_corp_def Let_def list_ex_iff)
  then show ?thesis by (force simp: List.map_filter_def suffix_matches_labels)
qed

subsection \<open>The gate implements a memoryless gate\<close>

text \<open>What the routing and the report should be, from the configuration and the last detection.\<close>

definition intended_report :: "config \<Rightarrow> string list \<Rightarrow> bool option" where
  "intended_report cfg detected =
     (case rt_corp_network (cfg_routing cfg) of
        Some c \<Rightarrow> if corp_enabled c then Some (on_corp detected (corp_dns_suffixes c)) else None
      | None \<Rightarrow> None)"

definition intended_routing :: "(config \<Rightarrow> 'r) \<Rightarrow> 'r \<Rightarrow> config \<Rightarrow> string list \<Rightarrow> 'r" where
  "intended_routing rebuild direct cfg detected =
     (if intended_report cfg detected = Some False then direct else rebuild cfg)"

record 'r free_gate =
  fg_config :: config
  fg_routing :: 'r
  fg_report :: "bool option"

definition recompute :: "(config \<Rightarrow> 'r) \<Rightarrow> 'r \<Rightarrow> config \<Rightarrow> string list \<Rightarrow> 'r free_gate" where
  "recompute rebuild direct cfg detected =
     \<lparr>fg_config = cfg, fg_routing = intended_routing rebuild direct cfg detected,
      fg_report = intended_report cfg detected\<rparr>"

fun free_step :: "(config \<Rightarrow> 'r) \<Rightarrow> 'r \<Rightarrow> 'r free_gate \<Rightarrow> gate_op \<Rightarrow> 'r free_gate \<times> bool" where
  "free_step rebuild direct a (GoEvaluate detected) =
     (let b = recompute rebuild direct (fg_config a) detected in (b, fg_report b \<noteq> fg_report a))"
| "free_step rebuild direct a (GoReconfigure cfg detected) = (recompute rebuild direct cfg detected, True)"

definition gate_view :: "'r gate \<Rightarrow> 'r free_gate" where
  "gate_view g = \<lparr>fg_config = gt_config g, fg_routing = gt_routing g, fg_report = gt_cell g\<rparr>"

definition gate_ok :: "(config \<Rightarrow> 'r) \<Rightarrow> 'r \<Rightarrow> 'r gate \<Rightarrow> bool" where
  "gate_ok rebuild direct g \<longleftrightarrow>
     gate_params (gt_config g) = (gt_enabled g, gt_suffixes g, gt_poll g) \<and>
     gt_last g = gt_cell g \<and> (gt_enabled g \<longleftrightarrow> gt_cell g \<noteq> None) \<and>
     gt_routing g = (if gt_cell g = Some False then direct else rebuild (gt_config g))"

lemma gate_params_report:
  "gate_params cfg = (e, s, p) \<Longrightarrow> intended_report cfg d = (if e then Some (on_corp d s) else None)"
  by (auto simp: gate_params_def intended_report_def split: option.splits if_splits)

lemma gate_enabled_params: "gate_enabled cfg = fst (gate_params cfg)"
  by (simp add: gate_enabled_def gate_params_def split: option.split)

text \<open>Evaluating a gate whose last decision was forgotten applies the new one.\<close>

lemma gate_evaluate_fresh:
  assumes "gate_params (gt_config g) = (gt_enabled g, gt_suffixes g, gt_poll g)"
    and "gt_last g = None" and "gt_enabled g"
    and "gate_evaluate rebuild direct d g = (g', x)"
  shows "gate_ok rebuild direct g' \<and> gate_view g' = recompute rebuild direct (gt_config g) d \<and> x"
  using assms
  by (auto simp: step_defs Let_def gate_ok_def gate_view_def recompute_def intended_routing_def
      gate_params_report)

lemma gate_evaluate_ok:
  assumes "gate_ok rebuild direct g" and "gate_evaluate rebuild direct d g = (g', x)"
  shows "gate_ok rebuild direct g' \<and>
    free_step rebuild direct (gate_view g) (GoEvaluate d) = (gate_view g', x)"
  using assms
  by (auto simp: step_defs Let_def gate_ok_def gate_view_def recompute_def intended_routing_def
      gate_params_report split: if_splits)

lemma gate_reconfigure_ok:
  assumes "gate_reconfigure rebuild direct cfg d g = (g', x)"
  shows "gate_ok rebuild direct g' \<and> gate_view g' = recompute rebuild direct cfg d \<and> x"
proof -
  obtain e s p where params: "gate_params cfg = (e, s, p)" by (cases "gate_params cfg") auto
  show ?thesis
  proof (cases e)
    case True
    with assms params show ?thesis
      by (auto simp: gate_reconfigure_def Let_def dest!: gate_evaluate_fresh [rotated 3])
  next
    case False
    with assms params show ?thesis
      by (auto simp: gate_reconfigure_def Let_def gate_ok_def gate_view_def recompute_def
          intended_routing_def gate_params_report)
  qed
qed

lemma build_gate_ok:
  "gate_ok rebuild direct (build_gate rebuild direct cfg d) \<and>
   gate_view (build_gate rebuild direct cfg d) = recompute rebuild direct cfg d"
proof (cases "gate_enabled cfg")
  case True
  then have "gt_enabled (gate_new direct cfg)"
    by (cases "gate_params cfg") (simp add: gate_new_def gate_enabled_params)
  moreover obtain g x where "gate_evaluate rebuild direct d (gate_new direct cfg) = (g, x)"
    by (cases "gate_evaluate rebuild direct d (gate_new direct cfg)") auto
  ultimately show ?thesis
    using True gate_evaluate_fresh [of "gate_new direct cfg" rebuild direct d g x]
    by (auto simp: build_gate_def gate_new_def split: prod.splits)
next
  case False
  then show ?thesis
    by (auto simp: build_gate_def gate_new_def gate_enabled_params gate_evaluate_def gate_ok_def
        gate_view_def recompute_def intended_routing_def gate_params_report split: prod.splits)
qed

interpretation corp_gate: implements "gate_step rebuild direct" "gate_ok rebuild direct"
    gate_view "free_step rebuild direct" for rebuild direct
proof unfold_locales
  fix g :: "'a gate" and op g' x
  assume ok: "gate_ok rebuild direct g" and step: "gate_step rebuild direct g op = (g', x)"
  then show "gate_ok rebuild direct g'"
    by (cases op) (auto dest: gate_evaluate_ok gate_reconfigure_ok)
  from ok step show "free_step rebuild direct (gate_view g) op = (gate_view g', x)"
    by (cases op) (auto dest: gate_evaluate_ok gate_reconfigure_ok)
qed

text \<open>The configuration in force and the last suffixes detected, from the operations alone.\<close>

fun gate_seen :: "config \<times> string list \<Rightarrow> gate_op \<Rightarrow> config \<times> string list" where
  "gate_seen (c, _) (GoEvaluate d) = (c, d)"
| "gate_seen _ (GoReconfigure c d) = (c, d)"

lemma run_free_gate:
  "fst (run (free_step rebuild direct) (recompute rebuild direct cfg d) ops) =
     (case foldl gate_seen (cfg, d) ops of (c, d') \<Rightarrow> recompute rebuild direct c d')"
proof (induction ops arbitrary: cfg d)
  case (Cons op ops)
  have "fg_config (recompute rebuild direct cfg d) = cfg" by (simp add: recompute_def)
  with Cons show ?case by (cases op) (simp_all add: run_fst_Cons Let_def del: run.simps)
qed simp

text \<open>C7
  The gate governs the live routing without memory. Whatever sequence of monitor turns and
  applied configurations has run since the application started, the live routing is the one
  the configuration in force asks for, unless the gate is enabled and the last detection was
  off the corporate network, when it is \<open>Direct\<close>; and the status cell says on-corp or off-corp
  exactly when the gate is enabled. So acting on transitions only never leaves a stale routing,
  and neither switching the gate on or off nor a change of the suffix list needs a restart.\<close>

theorem gate_governs_routing:
  "case foldl gate_seen (cfg, d) ops of (c, d') \<Rightarrow>
     let g = fst (run (gate_step rebuild direct) (build_gate rebuild direct cfg d) ops)
     in gt_config g = c
        \<and> gt_routing g = intended_routing rebuild direct c d'
        \<and> gt_cell g = intended_report c d'"
proof -
  let ?g0 = "build_gate rebuild direct cfg d"
  obtain g as where run: "run (gate_step rebuild direct) ?g0 ops = (g, as)" by fastforce
  then have "run (free_step rebuild direct) (recompute rebuild direct cfg d) ops = (gate_view g, as)"
    using corp_gate.run_abs [of rebuild direct ?g0 ops g as] build_gate_ok [of rebuild direct cfg d]
    by simp
  with run_free_gate [of rebuild direct cfg d ops] have
    "(case foldl gate_seen (cfg, d) ops of (c, d') \<Rightarrow> recompute rebuild direct c d') = gate_view g"
    by simp
  with run show ?thesis by (auto simp: gate_view_def recompute_def split: prod.splits)
qed

text \<open>A reload of the routing happens only on a transition: an evaluation that finds what the
  last one found does nothing at all.\<close>

lemma gate_evaluate_idle:
  "gate_ok rebuild direct g \<Longrightarrow> intended_report (gt_config g) d = gt_cell g \<Longrightarrow>
     gate_evaluate rebuild direct d g = (g, False)"
  by (auto simp: gate_evaluate_def gate_ok_def Let_def gate_params_report)

text \<open>The monitor is a sequence of evaluations, and never waits for less than a second.\<close>

lemma gate_monitor_run:
  "fst (gate_monitor rebuild direct g turns) =
     fst (run (gate_step rebuild direct) g
       (map (\<lambda>(_, d). GoEvaluate d) (takeWhile (\<lambda>(stop, _). \<not> stop) turns)))"
proof (induction turns arbitrary: g)
  case (Cons t turns)
  obtain stop d where t: "t = (stop, d)" by fastforce
  with Cons [of "fst (gate_evaluate rebuild direct d g)"] show ?case
    by (auto simp: run_fst_Cons Let_def simp del: run.simps(2) split: prod.split)
qed simp

lemma gate_params_poll: "gate_params cfg = (e, s, p) \<Longrightarrow> 0 < p"
  by (auto simp: gate_params_def max_def word_le_def word_less_def unat_gt_0 split: option.splits if_splits)

lemma gate_monitor_waits:
  "gate_ok rebuild direct g \<Longrightarrow> gate_monitor rebuild direct g turns = (g', waits) \<Longrightarrow>
     w \<in> set waits \<Longrightarrow> 0 < w"
proof (induction turns arbitrary: g waits)
  case (Cons t turns)
  obtain stop d where t: "t = (stop, d)" by fastforce
  obtain g1 x where e: "gate_evaluate rebuild direct d g = (g1, x)" by fastforce
  have ok: "gate_ok rebuild direct g1" using gate_evaluate_ok [OF Cons.prems(1) e] by simp
  then have "0 < gt_poll g1" by (auto simp: gate_ok_def dest: gate_params_poll)
  with Cons.prems(2,3) t e ok Cons.IH [OF ok] show ?case
    by (auto simp: Let_def split: if_splits prod.splits)
qed simp

text \<open>An enabled gate whose suffixes are all blank is never on the corporate network, so such a
  configuration would send everything \<open>Direct\<close>; \<open>validate\<close> refuses it.\<close>

lemma on_corp_needs_suffix: "on_corp active configured \<Longrightarrow> list_ex (\<lambda>s. trim s \<noteq> []) configured"
proof -
  have "normalize_suffix s = Some t \<Longrightarrow> trim s \<noteq> []" for s t
    by (auto simp: normalize_suffix_def Let_def trim_matches_def trim_start_matches_def
        trim_end_matches_def split: if_splits)
  then show "on_corp active configured \<Longrightarrow> ?thesis" unfolding on_corp_spec list_ex_iff by blast
qed

end
