(* ===== verification/Discovery.thy ===== *)
theory Discovery
  imports Pac
begin

text \<open>
  Proxy discovery of \<^verbatim>\<open>source = "auto"\<close>:
  \<^verbatim>\<open>crates/zicade-win/src/winhttp/discovery.rs\<close> and the backend choice of
  \<^verbatim>\<open>winhttp/win.rs\<close>. The reads of the per-user settings and the WinHTTP session are
  arguments. The main lemma shows that the greedy wildcard matcher of the bypass list is the
  glob relation.
\<close>

subsection \<open>The strategy\<close>

record ie_proxy_config =
  ie_auto_config_url :: "string option"
  ie_auto_detect :: bool
  ie_proxy :: "string option"
  ie_bypass :: "string option"

definition ie_empty :: ie_proxy_config where
  "ie_empty = \<lparr>ie_auto_config_url = None, ie_auto_detect = False, ie_proxy = None, ie_bypass = None\<rparr>"

datatype strategy = StConfigUrl string | StWpad | StStaticProxy string "string option" | StDirect

definition filled :: "string option \<Rightarrow> bool" where
  "filled s = (case s of Some t \<Rightarrow> trim t \<noteq> [] | None \<Rightarrow> False)"

definition select_strategy :: "ie_proxy_config \<Rightarrow> strategy" where
  "select_strategy cfg =
     (if filled (ie_auto_config_url cfg) then StConfigUrl (the (ie_auto_config_url cfg))
      else if ie_auto_detect cfg then StWpad
      else if filled (ie_proxy cfg) then StStaticProxy (the (ie_proxy cfg)) (ie_bypass cfg)
      else StDirect)"

subsection \<open>The bypass list\<close>

text \<open>\<open>find_sub p s\<close> is \<^verbatim>\<open>s.find(p)\<close>: the offset of the leftmost occurrence.\<close>

fun find_sub :: "string \<Rightarrow> string \<Rightarrow> nat option" where
  "find_sub p [] = (if p = [] then Some 0 else None)"
| "find_sub p (c # s) = (if prefix p (c # s) then Some 0 else map_option Suc (find_sub p s))"

text \<open>The loop over the segments after the first, on what is left of the text.\<close>

fun wildcard_rest :: "string list \<Rightarrow> string \<Rightarrow> bool" where
  "wildcard_rest [] rest = True"
| "wildcard_rest [part] rest = suffix part rest"
| "wildcard_rest (part # p # ps) rest =
     (if part = [] then wildcard_rest (p # ps) rest
      else (case find_sub part rest of
              Some off \<Rightarrow> wildcard_rest (p # ps) (drop (off + length part) rest)
            | None \<Rightarrow> False))"

definition wildcard_match :: "string \<Rightarrow> string \<Rightarrow> bool" where
  "wildcard_match pat subject =
     (if CHR ''*'' \<notin> set pat then pat = subject
      else let parts = split_on (\<lambda>c. c = CHR ''*'') pat
           in case strip_prefix (hd parts) subject of
                None \<Rightarrow> False
              | Some rest \<Rightarrow> wildcard_rest (tl parts) rest)"

definition host_bypassed :: "string \<Rightarrow> string list \<Rightarrow> bool" where
  "host_bypassed host entries =
     list_ex (\<lambda>entry. if entry = ''<local>'' then CHR ''.'' \<notin> set host else wildcard_match entry host) entries"

definition after_scheme :: "string \<Rightarrow> string" where
  "after_scheme url = (case find_sub ''://'' url of Some k \<Rightarrow> drop (k + 3) url | None \<Rightarrow> url)"

definition host_of :: "string \<Rightarrow> string" where
  "host_of url =
     (let authority = hd (split_on (\<lambda>c. c \<in> {CHR ''/'', CHR ''?'', CHR ''#''}) (after_scheme url));
          host_port = (case rsplit_once (\<lambda>c. c = CHR ''@'') authority of Some (_, hp) \<Rightarrow> hp | None \<Rightarrow> authority);
          host = (case strip_prefix ''['' host_port of
                    Some stripped \<Rightarrow>
                      (case split_once (\<lambda>c. c = CHR '']'') stripped of Some (h, _) \<Rightarrow> h | None \<Rightarrow> host_port)
                  | None \<Rightarrow> (case split_once (\<lambda>c. c = CHR '':'') host_port of Some (h, _) \<Rightarrow> h | None \<Rightarrow> host_port))
      in to_ascii_lowercase host)"

record static_resolver =
  sr_proxy :: pac_result
  sr_bypass :: "string list"

definition static_new :: "string \<Rightarrow> string option \<Rightarrow> static_resolver" where
  "static_new proxy bypass =
     \<lparr>sr_proxy = pac_parse proxy,
      sr_bypass = (case bypass of
          None \<Rightarrow> []
        | Some l \<Rightarrow> map to_ascii_lowercase (filter (\<lambda>e. e \<noteq> []) (map trim
            (split_on (\<lambda>c. c \<in> {CHR '';'', CHR '' '', CHR 0x09, CHR 0x0A, CHR 0x0D}) l))))\<rparr>"

definition static_resolve :: "static_resolver \<Rightarrow> string \<Rightarrow> pac_result" where
  "static_resolve r url = (if host_bypassed (host_of url) (sr_bypass r) then PacDirect else sr_proxy r)"

subsection \<open>The backend\<close>

datatype 's win_backend = WbSession 's | WbStatic static_resolver | WbDirect

text \<open>
  \<open>ie_read\<close> is the WinHTTP call for the settings: \<open>Inl None\<close> is \<^verbatim>\<open>ERROR_FILE_NOT_FOUND\<close>,
  \<open>Inl (Some msg)\<close> any other failure.\<close>

definition read_ie_proxy_config :: "string option + ie_proxy_config \<Rightarrow> routing_error + ie_proxy_config" where
  "read_ie_proxy_config ie_read =
     (case ie_read of
        Inl None \<Rightarrow> Inr ie_empty
      | Inl (Some msg) \<Rightarrow> Inl (BackendError (''WinHttpGetIEProxyConfigForCurrentUser failed: '' @ msg))
      | Inr cfg \<Rightarrow> Inr cfg)"

definition backend_from_system ::
    "(string option \<Rightarrow> routing_error + 's) \<Rightarrow> string option + ie_proxy_config \<Rightarrow> routing_error + 's win_backend" where
  "backend_from_system open_session ie_read =
     and_then (read_ie_proxy_config ie_read) (\<lambda>cfg.
       case select_strategy cfg of
         StConfigUrl url \<Rightarrow> map_sum id WbSession (open_session (Some url))
       | StWpad \<Rightarrow> map_sum id WbSession (open_session None)
       | StStaticProxy proxy bypass \<Rightarrow> Inr (WbStatic (static_new proxy bypass))
       | StDirect \<Rightarrow> Inr WbDirect)"

text \<open>
  A session's answer is the \<^verbatim>\<open>lpszProxy\<close> string of \<^verbatim>\<open>WinHttpGetProxyForUrl\<close>
  (\<open>None\<close> when it is null), or the text of its failure.\<close>

definition session_resolve :: "('s \<Rightarrow> string \<Rightarrow> string + string option) \<Rightarrow> 's \<Rightarrow> string \<Rightarrow> routing_error + pac_result" where
  "session_resolve winhttp s url =
     (case winhttp s url of
        Inl code \<Rightarrow> Inl (BackendError (''WinHttpGetProxyForUrl failed: '' @ code))
      | Inr None \<Rightarrow> Inr PacDirect
      | Inr (Some raw) \<Rightarrow> Inr (pac_parse raw))"

fun backend_resolve ::
    "('s \<Rightarrow> string \<Rightarrow> string + string option) \<Rightarrow> 's win_backend \<Rightarrow> string \<Rightarrow> routing_error + pac_result" where
  "backend_resolve winhttp (WbSession s) url = session_resolve winhttp s url"
| "backend_resolve winhttp (WbStatic r) url = Inr (static_resolve r url)"
| "backend_resolve winhttp WbDirect url = Inr PacDirect"

subsection \<open>Leftmost occurrences\<close>

lemma find_sub_None: "find_sub p s = None \<Longrightarrow> s \<noteq> a @ p @ b"
proof (induction s arbitrary: a)
  case (Cons c s)
  then show ?case by (cases a) (auto split: if_splits)
qed (auto split: if_splits)

lemma find_sub_Some: "find_sub p s = Some k \<Longrightarrow> \<exists>a b. s = a @ p @ b \<and> length a = k"
proof (induction s arbitrary: k)
  case (Cons c s)
  show ?case
  proof (cases "prefix p (c # s)")
    case True
    then obtain b where b: "c # s = [] @ p @ b" by (auto simp: prefix_def)
    have "k = 0" using True Cons.prems by simp
    then show ?thesis using b by (intro exI [of _ "[]"] exI [of _ b]) simp
  next
    case False
    with Cons.prems obtain j where j: "find_sub p s = Some j" "k = Suc j" by auto
    from Cons.IH [OF j(1)] obtain a b where "s = a @ p @ b" "length a = j" by blast
    then show ?thesis using j(2) by (intro exI [of _ "c # a"] exI [of _ b]) simp
  qed
qed (auto split: if_splits)

lemma find_sub_least: "find_sub p (a @ p @ b) = Some k \<Longrightarrow> k \<le> length a"
proof (induction a arbitrary: k)
  case Nil
  show ?case
  proof (cases "p @ b")
    case Nil
    with \<open>find_sub p ([] @ p @ b) = Some k\<close> show ?thesis by simp
  next
    case (Cons c s)
    then have "prefix p (c # s)" by (metis prefixI)
    with Cons \<open>find_sub p ([] @ p @ b) = Some k\<close> show ?thesis by simp
  qed
next
  case (Cons c a)
  then show ?case by (auto split: if_splits)
qed

subsection \<open>The wildcard matcher is the glob relation\<close>

text \<open>The meaning of a pattern: a star stands for any run of characters, anything else for itself.\<close>

fun glob :: "string \<Rightarrow> string \<Rightarrow> bool" where
  "glob [] t \<longleftrightarrow> t = []"
| "glob (c # p) t \<longleftrightarrow>
     (if c = CHR ''*'' then list_ex (\<lambda>k. glob p (drop k t)) [0..<Suc (length t)]
      else (case t of [] \<Rightarrow> False | d # t' \<Rightarrow> c = d \<and> glob p t'))"

text \<open>The same on the segments between the stars: at the start of the text, and anywhere.\<close>

fun at_start :: "string list \<Rightarrow> string \<Rightarrow> bool" where
  "at_start [] t \<longleftrightarrow> True"
| "at_start [p] t \<longleftrightarrow> t = p"
| "at_start (p # q # ps) t \<longleftrightarrow> (\<exists>u. t = p @ u \<and> (\<exists>a b. u = a @ b \<and> at_start (q # ps) b))"

definition anywhere :: "string list \<Rightarrow> string \<Rightarrow> bool" where
  "anywhere ps t \<longleftrightarrow> (\<exists>a b. t = a @ b \<and> at_start ps b)"

lemma anywhere_grow: "anywhere ps b \<Longrightarrow> anywhere ps (c @ b)"
  unfolding anywhere_def by (metis append.assoc)

lemma anywhere_single: "anywhere [p] t \<longleftrightarrow> suffix p t"
  by (auto simp: anywhere_def suffix_def)

lemma anywhere_Cons: "anywhere (p # q # ps) t \<longleftrightarrow> (\<exists>a b. t = a @ p @ b \<and> anywhere (q # ps) b)"
proof
  assume "anywhere (p # q # ps) t"
  then show "\<exists>a b. t = a @ p @ b \<and> anywhere (q # ps) b" by (auto simp: anywhere_def)
next
  assume "\<exists>a b. t = a @ p @ b \<and> anywhere (q # ps) b"
  then obtain a b where "t = a @ (p @ b)" "anywhere (q # ps) b" by blast
  then show "anywhere (p # q # ps) t"
    unfolding anywhere_def at_start.simps by blast
qed

lemma anywhere_empty: "anywhere ([] # q # ps) t \<longleftrightarrow> anywhere (q # ps) t"
  unfolding anywhere_Cons by (auto intro: anywhere_grow exI [of _ "[]"])

text \<open>Taking the leftmost occurrence of a segment loses nothing.\<close>

lemma anywhere_leftmost:
  "anywhere (p # q # ps) t \<longleftrightarrow>
     (case find_sub p t of Some off \<Rightarrow> anywhere (q # ps) (drop (off + length p) t) | None \<Rightarrow> False)"
proof (cases "find_sub p t")
  case None
  then show ?thesis using find_sub_None by (auto simp: anywhere_Cons)
next
  case (Some k)
  obtain a b where t: "t = a @ p @ b" "length a = k" using find_sub_Some [OF Some] by blast
  then have b: "b = drop (k + length p) t" by simp
  have "anywhere (q # ps) b" if t': "t = a' @ p @ b'" and any: "anywhere (q # ps) b'" for a' b'
  proof -
    have "k \<le> length a'" using Some t' find_sub_least by blast
    then have "drop (k + length p) t = drop (k + length p) (a' @ p) @ b'"
      unfolding t' by simp
    then show ?thesis using any b anywhere_grow by metis
  qed
  then have "anywhere (p # q # ps) t \<longleftrightarrow> anywhere (q # ps) b"
    unfolding anywhere_Cons using t(1) by blast
  then show ?thesis using Some b by simp
qed

lemma wildcard_rest_anywhere: "ps \<noteq> [] \<Longrightarrow> wildcard_rest ps t \<longleftrightarrow> anywhere ps t"
proof (induction ps t rule: wildcard_rest.induct)
  case (3 part p ps rest)
  show ?case
  proof (cases "part = []")
    case True
    then show ?thesis using 3 by (simp add: anywhere_empty)
  next
    case False
    then show ?thesis using 3 by (simp add: anywhere_leftmost split: option.split)
  qed
qed (simp_all add: anywhere_single)

lemma glob_literal: "CHR ''*'' \<notin> set p \<Longrightarrow> glob (p @ q) t \<longleftrightarrow> (\<exists>u. t = p @ u \<and> glob q u)"
  by (induction p arbitrary: t) (auto split: list.splits)

lemma glob_star: "glob (CHR ''*'' # p) t \<longleftrightarrow> (\<exists>a b. t = a @ b \<and> glob p b)"
proof
  assume "glob (CHR ''*'' # p) t"
  then obtain k where "glob p (drop k t)" by (auto simp: list_ex_iff simp del: upt_Suc)
  then show "\<exists>a b. t = a @ b \<and> glob p b" by (metis append_take_drop_id)
next
  assume "\<exists>a b. t = a @ b \<and> glob p b"
  then obtain a b where t: "t = a @ b" and g: "glob p b" by blast
  then have "glob p (drop (length a) t)" "length a \<in> set [0..<Suc (length t)]" by simp_all
  then show "glob (CHR ''*'' # p) t" unfolding glob.simps list_ex_iff by (simp only: simp_thms if_True) blast
qed

lemma glob_parts:
  "ps \<noteq> [] \<Longrightarrow> list_all (\<lambda>p. CHR ''*'' \<notin> set p) ps \<Longrightarrow> glob (join ''*'' ps) t \<longleftrightarrow> at_start ps t"
proof (induction ps t rule: at_start.induct)
  case (2 p t)
  then show ?case using glob_literal [of p "[]" t] by simp
next
  case (3 p q ps t)
  then have "glob (join ''*'' (p # q # ps)) t \<longleftrightarrow>
      (\<exists>u. t = p @ u \<and> glob (CHR ''*'' # join ''*'' (q # ps)) u)"
    using glob_literal [of p "CHR ''*'' # join ''*'' (q # ps)" t] by simp
  with 3 show ?case by (simp add: glob_star del: glob.simps)
qed simp

lemma wildcard_match_is_glob: "wildcard_match pat subject \<longleftrightarrow> glob pat subject"
proof (cases "CHR ''*'' \<in> set pat")
  case False
  then show ?thesis using glob_literal [of pat "[]" subject] by (auto simp: wildcard_match_def)
next
  case True
  define ps where "ps = split_on (\<lambda>c. c = CHR ''*'') pat"
  have join: "join ''*'' ps = pat" unfolding ps_def by (rule join_split_on)
  have pieces: "list_all (\<lambda>p. CHR ''*'' \<notin> set p) ps"
    unfolding list_all_iff ps_def using split_on_pieces by blast
  obtain p q qs where ps: "ps = p # q # qs"
  proof (cases ps)
    case Nil
    then show thesis by (simp add: ps_def)
  next
    case (Cons p rest)
    then show thesis using that True join pieces by (cases rest) auto
  qed
  have "wildcard_match pat subject \<longleftrightarrow> (\<exists>u. subject = p @ u \<and> wildcard_rest (q # qs) u)"
    using True ps unfolding wildcard_match_def ps_def[symmetric] Let_def
    by (auto simp: strip_prefix_def prefix_def split: option.split)
  also have "\<dots> \<longleftrightarrow> at_start ps subject" by (simp add: ps wildcard_rest_anywhere anywhere_def)
  also have "\<dots> \<longleftrightarrow> glob pat subject" using glob_parts [of ps subject] pieces ps join by simp
  finally show ?thesis .
qed

text \<open>C21
  The matcher of the bypass list is correct: its greedy scan, which takes the leftmost
  occurrence of each segment and compares the last one at the end, accepts exactly the texts
  of the glob relation, where a star stands for any run of characters.\<close>

theorem wildcard_match_glob: "wildcard_match pat subject \<longleftrightarrow> glob pat subject"
  by (rule wildcard_match_is_glob)

text \<open>What a static proxy answers: direct for a bypassed host, the parsed proxy otherwise.\<close>

lemma static_resolve_spec:
  "static_resolve (static_new proxy bypass) url =
     (if \<exists>e \<in> set (sr_bypass (static_new proxy bypass)).
           if e = ''<local>'' then CHR ''.'' \<notin> set (host_of url) else glob e (host_of url)
      then PacDirect else pac_parse proxy)"
proof -
  have "sr_proxy (static_new proxy bypass) = pac_parse proxy" by (simp add: static_new_def)
  then show ?thesis
    unfolding static_resolve_def host_bypassed_def list_ex_iff wildcard_match_is_glob by (simp only: Bex_def)
qed

end
