(* ===== verification/Observe.thy ===== *)
theory Observe
  imports Tracker
begin

text \<open>
  The log pipeline: \<^verbatim>\<open>crates/zicade-observe\<close> (\<^verbatim>\<open>event.rs\<close>,
  \<^verbatim>\<open>layer.rs\<close>, \<^verbatim>\<open>store.rs\<close>) and what the window shows of it
  (\<^verbatim>\<open>zicade-ui/src/log_buffer.rs\<close> and the model part of
  \<^verbatim>\<open>views/logs.rs\<close>). Both ends keep a bounded ring; a push of the store is its
  three steps (number, ring, broadcast), so that concurrent pushes can interleave.
  The lemmas show what the rings hold and that the view shows each event once; a concrete
  interleaving shows when it loses one.
\<close>

subsection \<open>Events\<close>

text \<open>A \<^verbatim>\<open>BTreeMap\<close> of strings is its list of entries in key order.\<close>

record log_event =
  le_seq :: u64
  le_timestamp :: u64
  le_level :: string
  le_target :: string
  le_message :: string
  le_fields :: "(string \<times> string) list"

definition event_now :: "u64 \<Rightarrow> string \<Rightarrow> string \<Rightarrow> string \<Rightarrow> (string \<times> string) list \<Rightarrow> log_event" where
  "event_now now level target message flds =
     \<lparr>le_seq = 0, le_timestamp = now, le_level = level, le_target = target,
      le_message = message, le_fields = flds\<rparr>"

text \<open>
  \<open>unix_millis\<close>: the clock is before the epoch when there is no duration since it; the
  milliseconds are cut to 64 bits.\<close>

definition unix_millis :: "nat option \<Rightarrow> u64" where
  "unix_millis since_epoch = (case since_epoch of Some ms \<Rightarrow> of_nat ms | None \<Rightarrow> 0)"

subsection \<open>The layer\<close>

text \<open>
  What \<^verbatim>\<open>tracing\<close> calls the visitor with: one method per type, and \<^verbatim>\<open>record_debug\<close> for
  every type without a method of its own. A \<^verbatim>\<open>&dyn Debug\<close> is the text it formats to.
\<close>

datatype recorded =
    RecStr string
  | RecI64 "64 word"
  | RecU64 "64 word"
  | RecBool bool
  | RecDebug string

fun recorded_text :: "recorded \<Rightarrow> string" where
  "recorded_text (RecStr s) = s"
| "recorded_text (RecI64 w) =
     (if sint w < 0 then ''-'' @ show_nat (nat (- sint w)) else show_nat (nat (sint w)))"
| "recorded_text (RecU64 w) = show_nat (unat w)"
| "recorded_text (RecBool b) = (if b then ''true'' else ''false'')"
| "recorded_text (RecDebug s) = s"

record field_visitor =
  fv_message :: string
  fv_fields :: "(string \<times> string) list"

definition visitor_record :: "field_visitor \<Rightarrow> string \<times> recorded \<Rightarrow> field_visitor" where
  "visitor_record v f =
     (case f of (name, val) \<Rightarrow>
        if name = ''message'' then v\<lparr>fv_message := recorded_text val\<rparr>
        else v\<lparr>fv_fields := bt_insert name (recorded_text val) (fv_fields v)\<rparr>)"

text \<open>\<open>on_event\<close> up to the push.\<close>

definition layer_event :: "nat option \<Rightarrow> string \<Rightarrow> string \<Rightarrow> (string \<times> recorded) list \<Rightarrow> log_event" where
  "layer_event clock level target recorded =
     (let visitor = foldl visitor_record \<lparr>fv_message = [], fv_fields = []\<rparr> recorded
      in event_now (unix_millis clock) level target (fv_message visitor) (fv_fields visitor))"

subsection \<open>The store\<close>

text \<open>\<open>deque_push\<close> is the shared shape: drop the front of a full deque, then append.\<close>

definition deque_push :: "nat \<Rightarrow> 'a list \<Rightarrow> 'a \<Rightarrow> 'a list" where
  "deque_push cap xs x = (if length xs = cap then drop 1 xs else xs) @ [x]"

definition broadcast_depth :: nat where
  "broadcast_depth = 256"

record log_store =
  ls_ring :: "log_event list"
  ls_cap :: nat
  ls_depth :: nat
  ls_seq :: u64

definition log_store_new :: "nat \<Rightarrow> log_store" where
  "log_store_new cap =
     (let cap = max cap 1
      in \<lparr>ls_ring = [], ls_cap = cap, ls_depth = max broadcast_depth cap, ls_seq = 0\<rparr>)"

text \<open>
  A push is three steps that nothing serialises: an atomic increment gives the number, then
  the ring is changed under its lock, then the event is sent. The lock is never poisoned, as
  nothing panics under it.\<close>

definition log_stamp :: "log_event \<Rightarrow> log_store \<Rightarrow> log_store \<times> log_event" where
  "log_stamp e s = (s\<lparr>ls_seq := ls_seq s + 1\<rparr>, e\<lparr>le_seq := ls_seq s + 1\<rparr>)"

definition log_insert :: "log_store \<Rightarrow> log_event \<Rightarrow> log_store" where
  "log_insert s e = s\<lparr>ls_ring := deque_push (ls_cap s) (ls_ring s) e\<rparr>"

definition log_recent :: "log_store \<Rightarrow> log_event list" where
  "log_recent s = ls_ring s"

definition log_capacity :: "log_store \<Rightarrow> nat" where
  "log_capacity s = ls_cap s"

text \<open>
  The store and the threads that push to it: where each is in its push, with the event it
  holds, and everything sent so far. A step that is not the thread's next one does nothing,
  so any list of steps is an interleaving of pushes.\<close>

datatype log_op = is_stamp: LoStamp nat log_event | is_insert: LoInsert nat | is_send: LoSend nat

datatype push_stage = Numbered log_event | Stored log_event

record log_sys =
  lg_store :: log_store
  lg_held :: "nat \<Rightarrow> push_stage option"
  lg_sent :: "log_event list"

definition log_start :: "nat \<Rightarrow> log_sys" where
  "log_start cap = \<lparr>lg_store = log_store_new cap, lg_held = (\<lambda>_. None), lg_sent = []\<rparr>"

fun log_step :: "log_sys \<Rightarrow> log_op \<Rightarrow> log_sys \<times> unit" where
  "log_step s (LoStamp t e) =
     (case lg_held s t of
        None \<Rightarrow>
          (case log_stamp e (lg_store s) of (st, e') \<Rightarrow>
             (s\<lparr>lg_store := st, lg_held := (lg_held s)(t := Some (Numbered e'))\<rparr>, ()))
      | Some _ \<Rightarrow> (s, ()))"
| "log_step s (LoInsert t) =
     (case lg_held s t of
        Some (Numbered e) \<Rightarrow>
          (s\<lparr>lg_store := log_insert (lg_store s) e, lg_held := (lg_held s)(t := Some (Stored e))\<rparr>, ())
      | _ \<Rightarrow> (s, ()))"
| "log_step s (LoSend t) =
     (case lg_held s t of
        Some (Stored e) \<Rightarrow> (s\<lparr>lg_sent := lg_sent s @ [e], lg_held := (lg_held s)(t := None)\<rparr>, ())
      | _ \<Rightarrow> (s, ()))"

text \<open>A thread's push, and the layer's on an event, as the steps it takes.\<close>

definition log_push :: "nat \<Rightarrow> log_event \<Rightarrow> log_op list" where
  "log_push t e = [LoStamp t e, LoInsert t, LoSend t]"

definition layer_on_event :: "nat option \<Rightarrow> string \<Rightarrow> string \<Rightarrow> (string \<times> recorded) list \<Rightarrow> nat \<Rightarrow> log_op list" where
  "layer_on_event clock level target recorded t = log_push t (layer_event clock level target recorded)"

subsection \<open>The view's buffer\<close>

definition max_lines :: nat where
  "max_lines = 2000"

record log_buffer =
  lb_capacity :: nat
  lb_last_seq :: u64
  lb_events :: "log_event list"

definition buffer_new :: "nat \<Rightarrow> log_buffer" where
  "buffer_new capacity = \<lparr>lb_capacity = capacity, lb_last_seq = 0, lb_events = []\<rparr>"

definition buffer_push :: "log_buffer \<Rightarrow> log_event \<Rightarrow> log_buffer" where
  "buffer_push b e =
     (if le_seq e \<noteq> 0 \<and> le_seq e \<le> lb_last_seq b then b
      else b\<lparr>lb_last_seq := max (lb_last_seq b) (le_seq e),
             lb_events := deque_push (lb_capacity b) (lb_events b) e\<rparr>)"

definition describe :: "log_event \<Rightarrow> string" where
  "describe e =
     ''['' @ le_level e @ ''] '' @ le_target e @ '': '' @ le_message e
       @ concat (map (\<lambda>(k, v). '' '' @ k @ ''='' @ v) (le_fields e))"

datatype log_levels = LevelsAll | LevelsWarnings | LevelsErrors

fun admits :: "log_levels \<Rightarrow> string \<Rightarrow> bool" where
  "admits LevelsAll level = True"
| "admits LevelsWarnings level = (level = ''WARN'' \<or> level = ''ERROR'')"
| "admits LevelsErrors level = (level = ''ERROR'')"

text \<open>What a live subscriber receives: an event, or that it fell behind.\<close>

datatype live = LiveEvent log_event | LiveLagged nat

fun view_receive :: "log_buffer \<Rightarrow> live \<Rightarrow> log_buffer" where
  "view_receive b (LiveEvent e) = buffer_push b e"
| "view_receive b (LiveLagged _) = b"

definition view_new :: "log_event list \<Rightarrow> log_buffer" where
  "view_new backlog = foldl buffer_push (buffer_new max_lines) backlog"

definition shown :: "log_levels \<Rightarrow> string \<Rightarrow> log_buffer \<Rightarrow> log_event list" where
  "shown levels search b =
     (let needle = to_lowercase (trim search)
      in filter (\<lambda>e. needle = [] \<or> contains needle (to_lowercase (describe e)))
           (filter (\<lambda>e. admits levels (le_level e)) (lb_events b)))"

subsection \<open>What an event carries\<close>

lemma map_of_bt_insert_eq [simp]: "map_of (bt_insert k v xs) i = (if i = k then Some v else map_of xs i)"
  by (induction xs) auto

text \<open>The fields of an event answer with the last value recorded under a name; the message is its own.\<close>

lemma visited:
  "fv_message (foldl visitor_record \<lparr>fv_message = [], fv_fields = []\<rparr> rs)
     = (case map_of (rev rs) ''message'' of None \<Rightarrow> [] | Some v \<Rightarrow> recorded_text v)"
  "map_of (fv_fields (foldl visitor_record \<lparr>fv_message = [], fv_fields = []\<rparr> rs)) k
     = (if k = ''message'' then None else map_option recorded_text (map_of (rev rs) k))"
  by (induction rs rule: rev_induct) (auto simp: visitor_record_def)

lemma layer_on_event_recent:
  assumes "lg_held s t = None"
    and s': "s' = fst (run log_step s (layer_on_event clock level target rs t))"
  shows "last (log_recent (lg_store s')) = last (lg_sent s')"
    and "map_of (le_fields (last (lg_sent s'))) k
      = (if k = ''message'' then None else map_option recorded_text (map_of (rev rs) k))"
    and "le_message (last (lg_sent s'))
      = (case map_of (rev rs) ''message'' of None \<Rightarrow> [] | Some v \<Rightarrow> recorded_text v)"
  using assms(1)
  by (simp_all add: s' layer_on_event_def log_push_def log_stamp_def log_insert_def log_recent_def
      deque_push_def layer_event_def event_now_def visited)

subsection \<open>Rings\<close>

interpretation deque: bounded_ring "deque_push cap" id "\<lambda>_. cap" "\<lambda>xs. length xs \<le> cap \<and> 0 < cap" for cap
  by unfold_locales (auto simp: deque_push_def newest_def)

definition store_ok :: "log_store \<Rightarrow> bool" where
  "store_ok s \<longleftrightarrow> length (ls_ring s) \<le> ls_cap s \<and> 0 < ls_cap s"

interpretation log_ring: bounded_ring log_insert ls_ring ls_cap store_ok
proof unfold_locales
  fix s x
  assume ok: "store_ok s"
  then show "ls_ring (log_insert s x) = newest (ls_cap s) (ls_ring s @ [x])"
    using deque.push_items [of "ls_ring s" "ls_cap s" x] by (simp add: log_insert_def store_ok_def)
  then show "store_ok (log_insert s x)" using ok by (simp add: store_ok_def newest_length log_insert_def)
qed (simp_all add: store_ok_def log_insert_def)

lemma log_store_new_ok [simp]: "store_ok (log_store_new cap)"
  by (simp add: store_ok_def log_store_new_def Let_def)

lemma log_store_new_cap: "ls_cap (log_store_new cap) = max cap 1"
  by (simp add: log_store_new_def Let_def)

subsection \<open>Every interleaving\<close>

text \<open>The view, opened between two steps of the pushers: it subscribes after \<open>before\<close>, reads the
  backlog after \<open>between\<close> and then receives. Its subscription has what is sent from then on.\<close>

definition log_after :: "nat \<Rightarrow> log_op list \<Rightarrow> log_sys" where
  "log_after cap ops = fst (run log_step (log_start cap) ops)"

definition log_backlog :: "nat \<Rightarrow> log_op list \<Rightarrow> log_event list" where
  "log_backlog cap ops = log_recent (lg_store (log_after cap ops))"

definition log_stream :: "nat \<Rightarrow> log_op list \<Rightarrow> log_op list \<Rightarrow> log_event list" where
  "log_stream cap before after =
     drop (length (lg_sent (log_after cap before))) (lg_sent (log_after cap (before @ after)))"

definition log_view :: "log_event list \<Rightarrow> live list \<Rightarrow> log_buffer" where
  "log_view backlog got = foldl view_receive (view_new backlog) got"

text \<open>
  What a subscriber of \<^verbatim>\<open>broadcast\<close> may have received of a stream: its events in
  order, up to some point, with gaps that it is told of.\<close>

fun delivers :: "log_event list \<Rightarrow> live list \<Rightarrow> bool" where
  "delivers es [] = True"
| "delivers es (LiveEvent e # ls) = (case es of [] \<Rightarrow> False | x # xs \<Rightarrow> x = e \<and> delivers xs ls)"
| "delivers es (LiveLagged n # ls) = (n \<le> length es \<and> delivers (drop n es) ls)"

fun live_events :: "live list \<Rightarrow> log_event list" where
  "live_events [] = []"
| "live_events (LiveEvent e # ls) = e # live_events ls"
| "live_events (LiveLagged n # ls) = live_events ls"

text \<open>The events that no event with the same or a higher number comes before.\<close>

fun rising :: "u64 \<Rightarrow> log_event list \<Rightarrow> log_event list" where
  "rising n [] = []"
| "rising n (e # es) = (if n < le_seq e then e # rising (le_seq e) es else rising n es)"

lemma rising_above: "e \<in> set (rising n es) \<Longrightarrow> n < le_seq e"
  by (induction n es rule: rising.induct) (auto split: if_splits intro: order.strict_trans)

lemma rising_sorted: "sorted_wrt (<) (map le_seq (rising n es))"
  by (induction n es rule: rising.induct) (auto dest: rising_above)

lemma rising_set: "set (rising n es) \<subseteq> set es"
  by (induction n es rule: rising.induct) auto

lemma rising_skip: "\<forall>e \<in> set es. le_seq e \<le> n \<Longrightarrow> rising n (es @ fs) = rising n fs"
  by (induction es) auto

lemma rising_all: "sorted_wrt (<) (n # map le_seq es) \<Longrightarrow> rising n es = es"
  by (induction es arbitrary: n) auto

lemma rising_append:
  "sorted_wrt (<) (n # map le_seq es) \<Longrightarrow>
     rising n (es @ fs) = es @ rising (if es = [] then n else le_seq (last es)) fs"
  by (induction es arbitrary: n) auto

text \<open>The buffer keeps the rising events, when each has a number.\<close>

lemma buffer_rising:
  assumes "length (lb_events b) \<le> lb_capacity b" and "0 < lb_capacity b" and "\<forall>e \<in> set es. le_seq e \<noteq> 0"
  shows "lb_events (foldl buffer_push b es) = newest (lb_capacity b) (lb_events b @ rising (lb_last_seq b) es)"
  using assms
proof (induction es arbitrary: b)
  case (Cons e es)
  show ?case
  proof (cases "lb_last_seq b < le_seq e")
    case True
    then have push: "buffer_push b e = b\<lparr>lb_last_seq := le_seq e,
        lb_events := newest (lb_capacity b) (lb_events b @ [e])\<rparr>"
      using deque.push_items [of "lb_events b" "lb_capacity b" e] Cons.prems
      by (auto simp: buffer_push_def)
    have "newest k (newest k (xs @ [e]) @ ys) = newest k (xs @ e # ys)" for k xs ys
      using newest_newest_append [of k "xs @ [e]" ys] by simp
    then show ?thesis
      using Cons.IH [of "buffer_push b e"] Cons.prems True by (simp add: push newest_length)
  next
    case False
    with Cons.prems have "buffer_push b e = b" by (simp add: buffer_push_def)
    with False Cons show ?thesis by simp
  qed
qed simp

lemma receive_live: "foldl view_receive b got = foldl buffer_push b (live_events got)"
  by (induction got arbitrary: b rule: live_events.induct) simp_all

lemma view_rising:
  assumes "\<forall>e \<in> set backlog \<union> set (live_events got). le_seq e \<noteq> 0"
  shows "lb_events (log_view backlog got) = newest 2000 (rising 0 (backlog @ live_events got))"
proof -
  have "lb_events (foldl buffer_push (buffer_new max_lines) (backlog @ live_events got)) =
      newest 2000 (rising 0 (backlog @ live_events got))"
    using buffer_rising [of "buffer_new max_lines" "backlog @ live_events got"] assms
    by (simp add: buffer_new_def max_lines_def del: foldl_append)
  then show ?thesis by (simp add: log_view_def view_new_def receive_live)
qed

text \<open>What the store, the threads and the stream hold has been pushed, and has a number.\<close>

definition pushed_in :: "log_op list \<Rightarrow> log_event \<Rightarrow> bool" where
  "pushed_in ops x \<longleftrightarrow> le_seq x \<noteq> 0 \<and> (\<exists>t e. LoStamp t e \<in> set ops \<and> x = e\<lparr>le_seq := le_seq x\<rparr>)"

fun held_event :: "push_stage \<Rightarrow> log_event" where
  "held_event (Numbered e) = e"
| "held_event (Stored e) = e"

definition log_sys_ok :: "log_op list \<Rightarrow> log_sys \<Rightarrow> bool" where
  "log_sys_ok ops s \<longleftrightarrow> unat (ls_seq (lg_store s)) \<le> length ops \<and>
     (\<forall>x \<in> set (ls_ring (lg_store s)) \<union> set (lg_sent s). pushed_in ops x) \<and>
     (\<forall>t h. lg_held s t = Some h \<longrightarrow> pushed_in ops (held_event h))"

lemma pushed_in_snoc: "pushed_in ops x \<Longrightarrow> pushed_in (ops @ [op]) x"
  by (auto simp: pushed_in_def)

lemma set_deque_push: "set (deque_push cap xs x) \<subseteq> insert x (set xs)"
  by (auto simp: deque_push_def dest: in_set_dropD)

lemma log_step_ok:
  assumes "log_sys_ok ops s" and "length ops < 2 ^ 64 - 1"
  shows "log_sys_ok (ops @ [op]) (fst (log_step s op))"
proof -
  have seq: "unat (ls_seq (lg_store s)) \<le> length ops"
    and ring: "\<And>x. x \<in> set (ls_ring (lg_store s)) \<Longrightarrow> pushed_in (ops @ [op]) x"
    and sent: "\<And>x. x \<in> set (lg_sent s) \<Longrightarrow> pushed_in (ops @ [op]) x"
    and held: "\<And>t h. lg_held s t = Some h \<Longrightarrow> pushed_in (ops @ [op]) (held_event h)"
    using assms(1) pushed_in_snoc by (auto simp: log_sys_ok_def)
  have idle: "log_sys_ok (ops @ [op]) s" using seq ring sent held by (auto simp: log_sys_ok_def)
  show ?thesis
  proof (cases op)
    case (LoStamp t e)
    let ?n = "ls_seq (lg_store s) + 1"
    have n: "unat ?n = Suc (unat (ls_seq (lg_store s)))"
      using seq assms(2) by (intro unat_add_lem [THEN iffD1, THEN trans]) simp_all
    then have "?n \<noteq> 0" by (metis unat_0 nat.distinct(1))
    then have "pushed_in (ops @ [op]) (e\<lparr>le_seq := ?n\<rparr>)" by (auto simp: pushed_in_def LoStamp)
    with idle ring sent held n seq show ?thesis
      by (cases "lg_held s t") (simp_all add: LoStamp, simp_all add: log_sys_ok_def log_stamp_def LoStamp)
  next
    case (LoInsert t)
    show ?thesis
    proof (cases "\<exists>e. lg_held s t = Some (Numbered e)")
      case True
      then obtain e where e: "lg_held s t = Some (Numbered e)" by blast
      with held have "pushed_in (ops @ [op]) e" by fastforce
      with e seq ring sent held set_deque_push [of "ls_cap (lg_store s)" "ls_ring (lg_store s)" e] show ?thesis
        by (auto simp: LoInsert log_sys_ok_def log_insert_def)
    next
      case False
      then have "fst (log_step s op) = s" by (auto simp: LoInsert split: option.split push_stage.split)
      with idle show ?thesis by simp
    qed
  next
    case (LoSend t)
    show ?thesis
    proof (cases "\<exists>e. lg_held s t = Some (Stored e)")
      case True
      then obtain e where e: "lg_held s t = Some (Stored e)" by blast
      with held have "pushed_in (ops @ [op]) e" by fastforce
      with e seq ring sent held show ?thesis by (auto simp: LoSend log_sys_ok_def)
    next
      case False
      then have "fst (log_step s op) = s" by (auto simp: LoSend split: option.split push_stage.split)
      with idle show ?thesis by simp
    qed
  qed
qed

lemma log_after_ok: "length ops < 2 ^ 64 \<Longrightarrow> log_sys_ok ops (log_after cap ops)"
proof (induction ops rule: rev_induct)
  case Nil
  show ?case by (simp add: log_after_def log_start_def log_sys_ok_def log_store_new_def Let_def)
next
  case (snoc op ops)
  have "log_after cap (ops @ [op]) = fst (log_step (log_after cap ops) op)"
    by (simp add: log_after_def run_snoc split: prod.split)
  with snoc log_step_ok [of ops "log_after cap ops" op] show ?case by simp
qed

lemma delivers_set: "delivers es got \<Longrightarrow> set (live_events got) \<subseteq> set es"
  by (induction es got rule: delivers.induct) (auto split: list.splits dest: in_set_dropD)

lemma delivers_all: "delivers es (map LiveEvent es)" "live_events (map LiveEvent es) = es"
  by (induction es) simp_all

subsection \<open>Pushes one after the other\<close>

definition pushes_of :: "(nat \<times> log_event) list \<Rightarrow> log_op list" where
  "pushes_of ps = concat (map (\<lambda>(t, e). log_push t e) ps)"

lemma pushes_of_simps [simp]:
  "pushes_of [] = []" "pushes_of ((t, e) # ps) = LoStamp t e # LoInsert t # LoSend t # pushes_of ps"
  by (simp_all add: pushes_of_def log_push_def)

text \<open>The events with the numbers that they get after \<open>n\<close>.\<close>

fun stamped :: "u64 \<Rightarrow> log_event list \<Rightarrow> log_event list" where
  "stamped n [] = []"
| "stamped n (e # es) = e\<lparr>le_seq := n + 1\<rparr> # stamped (n + 1) es"

lemma stamped_length [simp]: "length (stamped n es) = length es"
  by (induction es arbitrary: n) auto

lemma stamped_append: "stamped n (es @ fs) = stamped n es @ stamped (n + of_nat (length es)) fs"
  by (induction es arbitrary: n) (simp_all add: add.assoc)

lemma stamped_sorted: "unat n + length es < 2 ^ 64 \<Longrightarrow> sorted_wrt (<) (n # map le_seq (stamped n es))"
proof (induction es arbitrary: n)
  case (Cons e es)
  then have "unat (n + 1) = Suc (unat n)"
    by (intro unat_add_lem [THEN iffD1, THEN trans]) simp_all
  then have "n < n + 1" and "unat (n + 1) + length es < 2 ^ 64"
    using Cons.prems by (simp_all add: word_less_nat_alt)
  with Cons.IH [of "n + 1"] show ?case by (auto intro: order.strict_trans)
qed simp

lemma insert_seq: "(log_insert s e)\<lparr>ls_seq := k\<rparr> = log_insert (s\<lparr>ls_seq := k\<rparr>) e" "ls_seq (log_insert s e) = ls_seq s"
  by (simp_all add: log_insert_def)

lemma one_push:
  assumes "lg_held s = (\<lambda>_. None)"
  defines "q \<equiv> ls_seq (lg_store s) + 1"
  shows "fst (log_step (fst (log_step (fst (log_step s (LoStamp t e))) (LoInsert t))) (LoSend t)) =
    s\<lparr>lg_store := log_insert ((lg_store s)\<lparr>ls_seq := q\<rparr>) (e\<lparr>le_seq := q\<rparr>), lg_sent := lg_sent s @ [e\<lparr>le_seq := q\<rparr>]\<rparr>"
  using assms(1) by (cases s) (simp add: q_def log_stamp_def fun_eq_iff)

lemma run_pushes:
  "lg_held s = (\<lambda>_. None) \<Longrightarrow>
   fst (run log_step s (pushes_of ps)) =
     s\<lparr>lg_store := foldl log_insert ((lg_store s)\<lparr>ls_seq := ls_seq (lg_store s) + of_nat (length ps)\<rparr>)
                    (stamped (ls_seq (lg_store s)) (map snd ps)),
       lg_sent := lg_sent s @ stamped (ls_seq (lg_store s)) (map snd ps)\<rparr>"
proof (induction ps arbitrary: s)
  case (Cons p ps)
  obtain t e where p: "p = (t, e)" by fastforce
  let ?q = "ls_seq (lg_store s)"
  let ?e = "e\<lparr>le_seq := ?q + 1\<rparr>"
  let ?s = "s\<lparr>lg_store := log_insert ((lg_store s)\<lparr>ls_seq := ?q + 1\<rparr>) ?e, lg_sent := lg_sent s @ [?e]\<rparr>"
  have "fst (run log_step s (pushes_of (p # ps))) = fst (run log_step ?s (pushes_of ps))"
    using one_push [OF Cons.prems] by (simp only: p pushes_of_simps run_fst_Cons)
  also have "\<dots> = ?s\<lparr>lg_store := foldl log_insert ((lg_store ?s)\<lparr>ls_seq := ?q + 1 + of_nat (length ps)\<rparr>)
      (stamped (?q + 1) (map snd ps)), lg_sent := lg_sent ?s @ stamped (?q + 1) (map snd ps)\<rparr>"
    using Cons.IH [of ?s] Cons.prems by (simp add: insert_seq(2))
  also have "\<dots> = s\<lparr>lg_store := foldl log_insert ((lg_store s)\<lparr>ls_seq := ?q + of_nat (length (p # ps))\<rparr>)
      (stamped ?q (map snd (p # ps))), lg_sent := lg_sent s @ stamped ?q (map snd (p # ps))\<rparr>"
    by (simp add: p insert_seq ac_simps)
  finally show ?case .
qed simp

lemma pushes_cut:
  assumes "prefix p (pushes_of ps)"
  obtains ended rest part where "ps = ended @ rest" and "p = pushes_of ended @ part"
    and "part = [] \<or> (\<exists>t e more. rest = (t, e) # more \<and> part \<in> {[LoStamp t e], [LoStamp t e, LoInsert t]})"
proof -
  have "\<exists>ended rest part. ps = ended @ rest \<and> p = pushes_of ended @ part \<and>
    (part = [] \<or> (\<exists>t e more. rest = (t, e) # more \<and> part \<in> {[LoStamp t e], [LoStamp t e, LoInsert t]}))"
    using assms
  proof (induction ps arbitrary: p)
    case (Cons x ps)
    obtain t e where x: "x = (t, e)" by fastforce
    consider "p = []" | "p = [LoStamp t e]" | "p = [LoStamp t e, LoInsert t]"
      | p' where "p = LoStamp t e # LoInsert t # LoSend t # p'" "prefix p' (pushes_of ps)"
      using Cons.prems by (auto simp: x prefix_Cons)
    then show ?case
    proof cases
      case (4 p')
      then obtain ended rest part where "ps = ended @ rest" "p' = pushes_of ended @ part"
        "part = [] \<or> (\<exists>t e more. rest = (t, e) # more \<and> part \<in> {[LoStamp t e], [LoStamp t e, LoInsert t]})"
        using Cons.IH by blast
      with 4(1) show ?thesis
        by (intro exI [where x = "x # ended"] exI [where x = rest] exI [where x = part]) (simp add: x)
    qed (rule exI [of _ "[]"], rule exI [of _ "x # ps"], rule exI [of _ p], simp add: x)+
  qed simp
  with that show thesis by blast
qed

text \<open>How far the pushes have come, at any step.\<close>

abbreviation stores_done :: "log_op list \<Rightarrow> nat" where
  "stores_done ops \<equiv> length (filter is_insert ops)"

abbreviation sends_done :: "log_op list \<Rightarrow> nat" where
  "sends_done ops \<equiv> length (filter is_send ops)"

lemma counts_pushes [simp]: "stores_done (pushes_of ps) = length ps" "sends_done (pushes_of ps) = length ps"
  by (induction ps) auto

lemma after_pushes:
  "ls_ring (lg_store (log_after cap (pushes_of ps))) = newest (max cap 1) (stamped 0 (map snd ps))"
  "lg_sent (log_after cap (pushes_of ps)) = stamped 0 (map snd ps)"
  "ls_seq (lg_store (log_after cap (pushes_of ps))) = of_nat (length ps)"
  "ls_cap (lg_store (log_after cap (pushes_of ps))) = max cap 1"
  "lg_held (log_after cap (pushes_of ps)) = (\<lambda>_. None)"
proof -
  let ?s0 = "(log_store_new cap)\<lparr>ls_seq := of_nat (length ps)\<rparr>"
  let ?all = "stamped 0 (map snd ps)"
  have "log_after cap (pushes_of ps) =
      \<lparr>lg_store = foldl log_insert ?s0 ?all, lg_held = (\<lambda>_. None), lg_sent = ?all\<rparr>"
    by (simp add: log_after_def run_pushes log_start_def log_store_new_def Let_def)
  moreover have ok: "store_ok ?s0" and "ls_ring ?s0 = []" "ls_cap ?s0 = max cap 1"
    by (simp_all add: store_ok_def log_store_new_def Let_def)
  moreover have "ls_seq (foldl log_insert t xs) = ls_seq t \<and> ls_cap (foldl log_insert t xs) = ls_cap t" for t xs
    by (induction xs arbitrary: t) (simp_all add: log_insert_def)
  ultimately show
    "ls_ring (lg_store (log_after cap (pushes_of ps))) = newest (max cap 1) (stamped 0 (map snd ps))"
    "lg_sent (log_after cap (pushes_of ps)) = stamped 0 (map snd ps)"
    "ls_seq (lg_store (log_after cap (pushes_of ps))) = of_nat (length ps)"
    "ls_cap (lg_store (log_after cap (pushes_of ps))) = max cap 1"
    "lg_held (log_after cap (pushes_of ps)) = (\<lambda>_. None)"
    using log_ring.pushes_items [OF ok, of ?all] by simp_all
qed

lemma cut_state:
  assumes "prefix p (pushes_of ps)" and every_def: "every = stamped 0 (map snd ps)"
  shows "log_backlog cap p = newest (max cap 1) (take (stores_done p) every) \<and>
    lg_sent (log_after cap p) = take (sends_done p) every \<and> sends_done p \<le> stores_done p \<and> stores_done p \<le> length ps"
proof -
  obtain ended rest part where cut: "ps = ended @ rest" "p = pushes_of ended @ part"
    and part: "part = [] \<or> (\<exists>t e more. rest = (t, e) # more \<and> part \<in> {[LoStamp t e], [LoStamp t e, LoInsert t]})"
    using pushes_cut [OF assms(1)] .
  note ended = after_pushes [of cap ended]
  have at: "log_after cap (pushes_of ended @ r) = fst (run log_step (log_after cap (pushes_of ended)) r)" for r
    by (simp add: log_after_def run_append split: prod.split)
  have first: "take (length ended) every = stamped 0 (map snd ended)"
    by (simp add: every_def cut stamped_append)
  from part consider "part = []" | t e more where "rest = (t, e) # more" "part = [LoStamp t e]"
    | t e more where "rest = (t, e) # more" "part = [LoStamp t e, LoInsert t]" by blast
  then show ?thesis
  proof cases
    case 3
    have later: "take (Suc (length ended)) every = stamped 0 (map snd ended) @ [e\<lparr>le_seq := of_nat (length ended) + 1\<rparr>]"
      by (simp add: every_def cut 3 stamped_append)
    have "length (newest (max cap 1) (stamped 0 (map snd ended))) \<le> max cap 1" by (simp add: newest_length)
    then have "deque_push (max cap 1) (newest (max cap 1) (stamped 0 (map snd ended))) x =
        newest (max cap 1) (stamped 0 (map snd ended) @ [x])" for x
      using deque.push_items [of "newest (max cap 1) (stamped 0 (map snd ended))" "max cap 1" x]
      by (simp add: newest_newest_snoc)
    then show ?thesis
      using 3 later first
      by (simp add: log_backlog_def log_recent_def at ended log_stamp_def log_insert_def cut)
  qed (use first in \<open>simp_all add: log_backlog_def log_recent_def at ended log_stamp_def cut\<close>)
qed

lemma newest_snoc: "0 < n \<Longrightarrow> \<exists>ys. newest n (xs @ [x]) = ys @ [x]"
  by (auto simp: newest_def Suc_le_eq)

text \<open>The stream repeats the backlog's end; what rises is the backlog, then what came later.\<close>

lemma rising_overlap:
  assumes "sorted_wrt (<) (0 # map le_seq (ys @ zs))" and "0 < c" and "j \<le> length ys"
  shows "rising 0 (newest c ys @ drop j ys @ zs) = newest c ys @ zs"
proof (cases ys rule: rev_cases)
  case Nil
  with assms show ?thesis by (simp add: rising_all)
next
  case (snoc us u)
  obtain vs where newest: "newest c ys = vs @ [u]" using newest_snoc [OF assms(2), of us u] snoc by blast
  have sorted: "sorted_wrt (<) (map le_seq ys)" "\<forall>y \<in> set ys. 0 < le_seq y"
    "sorted_wrt (<) (le_seq u # map le_seq zs)"
    using assms(1) snoc by (auto simp: sorted_wrt_append)
  have "sorted_wrt (<) (map le_seq (newest c ys))" using sorted_wrt_newest [OF sorted(1)] by (simp add: newest_map)
  with sorted(2) newest_set [of c ys] have "sorted_wrt (<) (0 # map le_seq (newest c ys))" by auto
  from rising_append [OF this] newest
  have "rising 0 (newest c ys @ drop j ys @ zs) = newest c ys @ rising (le_seq u) (drop j ys @ zs)" by simp
  moreover have "\<forall>y \<in> set ys. le_seq y \<le> le_seq u"
    using sorted(1) snoc by (auto simp: sorted_wrt_append less_imp_le)
  then have "\<forall>y \<in> set (drop j ys). le_seq y \<le> le_seq u" by (auto dest: in_set_dropD)
  then have "rising (le_seq u) (drop j ys @ zs) = rising (le_seq u) zs" by (rule rising_skip)
  ultimately show ?thesis using rising_all [OF sorted(3)] by simp
qed

lemma serialised_view:
  assumes "before @ between @ later = pushes_of ps" and "length (before @ between @ later) < 2 ^ 64"
    and every_def: "every = stamped 0 (map snd ps)" and k_def: "k = stores_done (before @ between)"
  shows "rising 0 (log_backlog cap (before @ between) @ log_stream cap before (between @ later)) =
    newest (max cap 1) (take k every) @ drop k every"
proof -
  let ?j = "sends_done before"
  have "prefix before (pushes_of ps)" and "prefix (before @ between) (pushes_of ps)"
    using assms(1) [symmetric] by simp_all
  note start = cut_state [OF this(1) every_def, of cap] and read = cut_state [OF this(2) every_def, of cap]
  have jk: "?j \<le> k" using read by (simp add: k_def)
  have stream: "log_stream cap before (between @ later) = drop ?j every"
    using start read jk by (simp add: log_stream_def assms(1) after_pushes every_def k_def min_def)
  have "length ps \<le> length (pushes_of ps)" by (metis counts_pushes(1) length_filter_le)
  with assms(1,2) have "sorted_wrt (<) (0 # map le_seq every)"
    unfolding every_def by (intro stamped_sorted) simp
  then have sorted: "sorted_wrt (<) (0 # map le_seq (take k every @ drop k every))" by simp
  have "k \<le> length every" using read by (simp add: k_def every_def)
  with jk have "drop ?j every = drop ?j (take k every) @ drop k every"
    by (metis append_take_drop_id drop_append length_take min_absorb2 diff_is_0_eq' drop0)
  then show ?thesis
    using rising_overlap [OF sorted, of "max cap 1" ?j] jk \<open>k \<le> length every\<close> read stream
    by (simp add: k_def every_def)
qed

text \<open>C27
  The log view shows every event once and in the order of their numbers, as far as the pushes
  let it. Whatever threads push, in whatever interleaving of their steps, and wherever the view
  subscribes and then reads the backlog: the view holds, of the backlog followed by what it
  received, the newest 2000 events that no higher number came before; so none twice, each one
  that was pushed, in increasing order. When moreover the pushes do not overlap and the view
  has received its whole stream without lagging, it holds the newest 2000 of the backlog
  and of every event stored after it: the overlap of backlog and stream is dropped, and nothing
  is lost in between, even if the view opens in the middle of a push. (Overlapping pushes can
  hide an event: \<open>interleaved_push_loses_a_line\<close>.) The bound keeps the 64-bit numbers from
  wrapping.\<close>

theorem log_view_exact:
  assumes "length (before @ between @ later) < 2 ^ 64"
    and "delivers (log_stream cap before (between @ later)) got"
  shows "let backlog = log_backlog cap (before @ between);
             view = lb_events (log_view backlog got);
             every = stamped 0 (map snd pushes);
             k = stores_done (before @ between)
         in view = newest 2000 (rising 0 (backlog @ live_events got)) \<and>
            sorted_wrt (<) (map le_seq view) \<and>
            (\<forall>x \<in> set view. \<exists>t e. LoStamp t e \<in> set (before @ between @ later) \<and> x = e\<lparr>le_seq := le_seq x\<rparr>) \<and>
            (before @ between @ later = concat (map (\<lambda>(t, e). log_push t e) pushes) \<and>
             got = map LiveEvent (log_stream cap before (between @ later)) \<longrightarrow>
             view = newest 2000 (newest (max cap 1) (take k every) @ drop k every))"
proof -
  let ?ops = "before @ between @ later"
  let ?backlog = "log_backlog cap (before @ between)"
  let ?stream = "log_stream cap before (between @ later)"
  let ?view = "lb_events (log_view ?backlog got)"
  have early: "pushed_in (before @ between) x \<Longrightarrow> pushed_in ?ops x" for x by (auto simp: pushed_in_def)
  have "\<forall>x \<in> set ?backlog. pushed_in ?ops x"
    using log_after_ok [of "before @ between" cap] assms(1) early
    by (auto simp: log_sys_ok_def log_backlog_def log_recent_def)
  moreover have "\<forall>x \<in> set ?stream. pushed_in ?ops x"
    using log_after_ok [OF assms(1), of cap] by (auto simp: log_sys_ok_def log_stream_def dest: in_set_dropD)
  ultimately have pushed: "\<forall>x \<in> set ?backlog \<union> set (live_events got). pushed_in ?ops x"
    using delivers_set [OF assms(2)] by blast
  then have view: "?view = newest 2000 (rising 0 (?backlog @ live_events got))"
    by (intro view_rising) (auto simp: pushed_in_def)
  have sorted: "sorted_wrt (<) (map le_seq ?view)"
    using sorted_wrt_newest [OF rising_sorted] by (simp add: view newest_map)
  have "set ?view \<subseteq> set ?backlog \<union> set (live_events got)"
    using newest_set rising_set [of 0 "?backlog @ live_events got"] by (fastforce simp: view)
  with pushed have origin: "\<forall>x \<in> set ?view. \<exists>t e. LoStamp t e \<in> set ?ops \<and> x = e\<lparr>le_seq := le_seq x\<rparr>"
    by (auto simp: pushed_in_def)
  have exact: "?view = newest 2000 (newest (max cap 1) (take (stores_done (before @ between)) (stamped 0 (map snd pushes)))
      @ drop (stores_done (before @ between)) (stamped 0 (map snd pushes)))"
    if "?ops = concat (map (\<lambda>(t, e). log_push t e) pushes)" "got = map LiveEvent ?stream"
  proof -
    have "live_events got = ?stream" using that(2) by (simp add: delivers_all(2))
    with view serialised_view [OF that(1) [folded pushes_of_def] assms(1) refl refl, of cap]
    show ?thesis by (simp only:)
  qed
  show ?thesis unfolding Let_def using view sorted origin exact by blast
qed

text \<open>The view opens in the middle of the second of two pushes.\<close>

lemma log_view_exact_witness:
  "let pushes = [(1 :: nat, event_now 5 ''INFO'' ''a'' ''first'' []), (2, event_now 6 ''INFO'' ''b'' ''second'' [])];
       before = [LoStamp 1 (event_now 5 ''INFO'' ''a'' ''first'' []), LoInsert 1];
       between = [LoSend 1, LoStamp 2 (event_now 6 ''INFO'' ''b'' ''second'' [])];
       later = [LoInsert 2, LoSend 2]
   in lb_events (log_view (log_backlog 10 (before @ between)) (map LiveEvent (log_stream 10 before (between @ later))))
        = stamped 0 (map snd pushes)"
proof -
  let ?first = "event_now 5 ''INFO'' ''a'' ''first'' []" and ?second = "event_now 6 ''INFO'' ''b'' ''second'' []"
  let ?before = "[LoStamp 1 ?first, LoInsert 1]" and ?between = "[LoSend 1, LoStamp 2 ?second]"
    and ?later = "[LoInsert 2, LoSend 2]"
  let ?stream = "log_stream 10 ?before (?between @ ?later)"
  let ?every = "stamped 0 (map snd [(1 :: nat, ?first), (2, ?second)])"
  have "?before @ ?between @ ?later = concat (map (\<lambda>(t, e). log_push t e) [(1, ?first), (2, ?second)])"
    by (simp add: log_push_def)
  moreover have "length (?before @ ?between @ ?later) < 2 ^ 64" by simp
  ultimately have "lb_events (log_view (log_backlog 10 (?before @ ?between)) (map LiveEvent ?stream)) =
      newest 2000 (newest (max 10 1) (take (stores_done (?before @ ?between)) ?every)
        @ drop (stores_done (?before @ ?between)) ?every)"
    using log_view_exact [of ?before ?between ?later 10 "map LiveEvent ?stream" "[(1, ?first), (2, ?second)]"]
      delivers_all(1) [of ?stream]
    unfolding Let_def by blast
  also have "\<dots> = ?every" by (simp add: newest_def)
  finally show ?thesis unfolding Let_def .
qed

text \<open>The filters only ever hide lines, and a stricter level hides more.\<close>

lemma shown_sublist: "subseq (shown levels search b) (lb_events b)"
  by (simp add: shown_def Let_def)

text \<open>The levels are ordered by strictness, so that the claim is monotonicity of the filter.\<close>

fun strictness :: "log_levels \<Rightarrow> nat" where
  "strictness LevelsAll = 0"
| "strictness LevelsWarnings = 1"
| "strictness LevelsErrors = 2"

lemma strictness_inject: "strictness a = strictness b \<longleftrightarrow> a = b"
  by (cases a; cases b) simp_all

instantiation log_levels :: linorder
begin

definition less_eq_log_levels :: "log_levels \<Rightarrow> log_levels \<Rightarrow> bool" where
  "less_eq_log_levels a b = (strictness a \<le> strictness b)"

definition less_log_levels :: "log_levels \<Rightarrow> log_levels \<Rightarrow> bool" where
  "less_log_levels a b = (strictness a < strictness b)"

instance
  by standard (auto simp: less_eq_log_levels_def less_log_levels_def strictness_inject)

end

lemma admits_antimono: "a \<le> b \<Longrightarrow> admits b l \<Longrightarrow> admits a l"
  by (cases a; cases b) (auto simp: less_eq_log_levels_def)

lemma subseq_filter_imp: "(\<And>x. P x \<Longrightarrow> Q x) \<Longrightarrow> subseq (filter P xs) (filter Q xs)"
  by (induction xs) auto

lemma shown_stricter: "a \<le> b \<Longrightarrow> subseq (shown b search buf) (shown a search buf)"
  by (auto simp: shown_def Let_def intro!: subseq_filter_imp dest: admits_antimono)

subsection \<open>Concurrent pushes\<close>

text \<open>
  A push takes its number before it takes the ring's lock. When two threads interleave there,
  the ring holds their events in the wrong order, and a view that replays it drops the
  earlier number as already seen: the event is never shown.\<close>

definition race :: "log_op list" where
  "race = [LoStamp 1 (event_now 5 ''INFO'' ''a'' ''first'' []), LoStamp 2 (event_now 5 ''INFO'' ''b'' ''second'' []),
           LoInsert 2, LoInsert 1, LoSend 2, LoSend 1]"

lemma interleaved_push_loses_a_line:
  "map le_seq (log_backlog 10 race) = [2, 1] \<and>
   map le_message (lb_events (log_view (log_backlog 10 race) [])) = [''second'']"
  by (simp add: race_def log_backlog_def log_after_def log_start_def log_stamp_def log_insert_def deque_push_def
      log_store_new_def log_recent_def log_view_def view_new_def buffer_new_def buffer_push_def event_now_def
      max_lines_def)

text \<open>The live stream has the same fault.\<close>

lemma interleaved_send_loses_a_line:
  "map le_message (lb_events (log_view [] (map LiveEvent (log_stream 10 [] race)))) = [''second'']"
  by (simp add: race_def log_stream_def log_after_def log_start_def log_stamp_def log_insert_def deque_push_def
      log_store_new_def log_view_def view_new_def buffer_new_def buffer_push_def event_now_def max_lines_def)

end
