(* ===== verification/Control.thy ===== *)
theory Control
  imports Config Tracker
begin

text \<open>
  The window's handle on the running application:
  \<^verbatim>\<open>crates/zicade-control\<close> (\<^verbatim>\<open>control.rs\<close>, \<^verbatim>\<open>error.rs\<close>) and the
  saving half of \<^verbatim>\<open>zicade-config/src/io.rs\<close>. What the apply hook acts on is the world
  \<open>'w\<close>; the JSON writer is an argument, and so is the outcome of writing the file.
  The lemmas say what an apply changes when it succeeds, when it fails, and that the window
  cannot lose or see a password.
\<close>

datatype control_error = CtInvalid config_error | CtSave config_error

record status_snapshot =
  ss_routing_mode :: string
  ss_listen_addr :: string
  ss_requests_total :: u64
  ss_requests_failed :: u64
  ss_active_connections :: u64
  ss_bytes_in :: u64
  ss_bytes_out :: u64
  ss_on_corp :: "bool option"

definition status_default :: status_snapshot where
  "status_default = \<lparr>ss_routing_mode = [], ss_listen_addr = [], ss_requests_total = 0, ss_requests_failed = 0,
                     ss_active_connections = 0, ss_bytes_in = 0, ss_bytes_out = 0, ss_on_corp = None\<rparr>"

fun routing_mode_label :: "routing_mode \<Rightarrow> string" where
  "routing_mode_label ModeDirect = ''direct''"
| "routing_mode_label ModeUpstream = ''upstream''"
| "routing_mode_label ModePac = ''pac''"

subsection \<open>Saving\<close>

text \<open>\<^verbatim>\<open>std::fs::write\<close> truncates before it writes: a failure leaves some other text.\<close>

datatype write_outcome = Written | WriteFailed io_error string

definition save_file ::
    "(config \<Rightarrow> string + string) \<Rightarrow> string \<Rightarrow> config \<Rightarrow> write_outcome \<Rightarrow> string \<Rightarrow> (config_error + unit) \<times> string" where
  "save_file to_json path cfg outcome disk =
     (case to_json cfg of
        Inl msg \<Rightarrow> (Inl (CfgParse msg), disk)
      | Inr text \<Rightarrow>
          (case outcome of
             Written \<Rightarrow> (Inr (), text)
           | WriteFailed e left \<Rightarrow> (Inl (CfgIo path (io_message e)), left)))"

subsection \<open>The handle\<close>

record 'w control =
  ct_config :: config
  ct_path :: string
  ct_disk :: string
  ct_status :: status_snapshot
  ct_world :: 'w

definition control_new :: "config \<Rightarrow> string \<Rightarrow> string \<Rightarrow> 'w \<Rightarrow> 'w control" where
  "control_new cfg path disk w =
     \<lparr>ct_config = cfg, ct_path = path, ct_disk = disk, ct_status = status_default, ct_world = w\<rparr>"

definition control_set_status :: "status_snapshot \<Rightarrow> 'w control \<Rightarrow> 'w control" where
  "control_set_status st c = c\<lparr>ct_status := st\<rparr>"

definition config_redacted :: "'w control \<Rightarrow> config" where
  "config_redacted c = without_secrets (ct_config c)"

text \<open>The live sources overlaid on the stored status, where they are attached.\<close>

definition control_status :: "metrics option \<Rightarrow> bool option option \<Rightarrow> 'w control \<Rightarrow> status_snapshot" where
  "control_status source on_corp_cell c =
     (let snapshot = ct_status c;
          snapshot = (case source of
             None \<Rightarrow> snapshot
           | Some m \<Rightarrow> snapshot\<lparr>ss_requests_total := mt_total_requests m, ss_active_connections := mt_active m,
                        ss_requests_failed := mt_failed_requests m, ss_bytes_in := mt_bytes_in m,
                        ss_bytes_out := mt_bytes_out m\<rparr>)
      in (case on_corp_cell of None \<Rightarrow> snapshot | Some state \<Rightarrow> snapshot\<lparr>ss_on_corp := state\<rparr>))"

definition control_connections :: "millis \<Rightarrow> metrics option \<Rightarrow> connection_snapshot list" where
  "control_connections now source = (case source of None \<Rightarrow> [] | Some m \<Rightarrow> tracker_snapshot now m)"

definition control_apply ::
    "(config \<Rightarrow> string + string) \<Rightarrow> validation_ctx \<Rightarrow> (config \<Rightarrow> 'w \<Rightarrow> 'w) option \<Rightarrow> write_outcome
     \<Rightarrow> config \<Rightarrow> 'w control \<Rightarrow> 'w control \<times> (control_error + unit)" where
  "control_apply to_json ctx hook outcome edited c =
     (let cfg = keep_secrets_from edited (ct_config c) in
      case validate cfg ctx of
        Inl e \<Rightarrow> (c, Inl (CtInvalid e))
      | Inr _ \<Rightarrow>
          (case save_file to_json (ct_path c) cfg outcome (ct_disk c) of
             (Inl e, disk) \<Rightarrow> (c\<lparr>ct_disk := disk\<rparr>, Inl (CtSave e))
           | (Inr _, disk) \<Rightarrow>
               let c = c\<lparr>ct_disk := disk\<rparr>;
                   c = (case hook of Some f \<Rightarrow> c\<lparr>ct_world := f cfg (ct_world c)\<rparr> | None \<Rightarrow> c);
                   c = c\<lparr>ct_status := (ct_status c)
                         \<lparr>ss_routing_mode := routing_mode_label (rt_mode (cfg_routing cfg))\<rparr>\<rparr>
               in (c\<lparr>ct_config := cfg\<rparr>, Inr ())))"

subsection \<open>What an apply does\<close>

text \<open>
  How a save fails, and what it leaves: the configuration has no text and the file was not
  opened, or the write failed, and then the file has what the failed write left in it.\<close>

definition unsaved_as ::
    "(config \<Rightarrow> string + string) \<Rightarrow> write_outcome \<Rightarrow> config \<Rightarrow> 'w control \<Rightarrow> config_error \<Rightarrow> 'w control \<Rightarrow> bool" where
  "unsaved_as to_json outcome cfg c e c' \<longleftrightarrow>
     (\<exists>msg. to_json cfg = Inl msg \<and> e = CfgParse msg \<and> c' = c) \<or>
     (\<exists>text err left. to_json cfg = Inr text \<and> outcome = WriteFailed err left \<and>
        e = CfgIo (ct_path c) (io_message err) \<and> c' = c\<lparr>ct_disk := left\<rparr>)"

lemma unsaved_same: "unsaved_as to_json outcome cfg c e c' \<Longrightarrow> c' = c\<lparr>ct_disk := ct_disk c'\<rparr>"
  by (auto simp: unsaved_as_def)

lemma control_apply_cases:
  assumes "control_apply to_json ctx hook outcome edited c = (c', r)"
  obtains (applied) "r = Inr ()" "ct_config c' = keep_secrets_from edited (ct_config c)"
      "config_valid (ct_config c') ctx" "to_json (ct_config c') = Inr (ct_disk c')"
      "ct_world c' = (case hook of Some f \<Rightarrow> f (ct_config c') | None \<Rightarrow> id) (ct_world c)"
      "ct_status c' = (ct_status c)\<lparr>ss_routing_mode := routing_mode_label (rt_mode (cfg_routing edited))\<rparr>"
    | (invalid) e where "r = Inl (CtInvalid e)" "c' = c" "violates (keep_secrets_from edited (ct_config c)) ctx e"
    | (unsaved) e where "r = Inl (CtSave e)" "unsaved_as to_json outcome (keep_secrets_from edited (ct_config c)) c e c'"
        "config_valid (keep_secrets_from edited (ct_config c)) ctx"
  using assms
  by (auto simp: control_apply_def save_file_def unsaved_as_def Let_def validate_Inr dest: validate_Inl
      split: sum.splits write_outcome.splits option.splits)

text \<open>C9
  An apply takes effect completely or, in the application, not at all. When it succeeds, the
  new configuration, with the stored passwords the editor never saw, is valid, is what the file
  holds, is what the hook ran with and what the status names. An invalid edit is reported with
  a fault that it really has and changes nothing, the file included. When the save fails, the
  configuration, the status and the running application are unchanged, the reason is reported,
  and the file is untouched unless the write itself failed: then it has what that write left,
  which need not be what it had before (\<open>failed_save_damages_file\<close>).\<close>

theorem apply_all_or_nothing:
  "case control_apply to_json ctx (Some hook) outcome edited c of
     (c', Inr _) \<Rightarrow>
       ct_config c' = keep_secrets_from edited (ct_config c) \<and> config_valid (ct_config c') ctx \<and>
       to_json (ct_config c') = Inr (ct_disk c') \<and>
       ct_world c' = hook (ct_config c') (ct_world c) \<and>
       ct_status c' = (ct_status c)\<lparr>ss_routing_mode := routing_mode_label (rt_mode (cfg_routing edited))\<rparr>
   | (c', Inl (CtInvalid e)) \<Rightarrow> c' = c \<and> violates (keep_secrets_from edited (ct_config c)) ctx e
   | (c', Inl (CtSave e)) \<Rightarrow>
       config_valid (keep_secrets_from edited (ct_config c)) ctx \<and>
       ((\<exists>msg. to_json (keep_secrets_from edited (ct_config c)) = Inl msg \<and> e = CfgParse msg \<and> c' = c) \<or>
        (\<exists>text err left. to_json (keep_secrets_from edited (ct_config c)) = Inr text \<and>
           outcome = WriteFailed err left \<and> e = CfgIo (ct_path c) (io_message err) \<and> c' = c\<lparr>ct_disk := left\<rparr>))"
proof -
  obtain c' r where call: "control_apply to_json ctx (Some hook) outcome edited c = (c', r)" by fastforce
  then show ?thesis
    by (cases rule: control_apply_cases) (use call in \<open>simp_all add: unsaved_as_def\<close>)
qed

text \<open>The editor never sees a password.\<close>

lemma redacted_shows_no_password: "list_all (\<lambda>a. auth_password a = None) (auth_slots (config_redacted c))"
  by (auto simp: list_all_iff config_redacted_def dest: without_secrets_no_password)

text \<open>C28
  Applying what the window shows, unedited, keeps every password the proxy uses: the new
  configuration is the old one, except that a password stored in a slot that does no Basic
  authentication is dropped. The apply is refused only when the old configuration was invalid
  or the file cannot be written.\<close>

theorem apply_of_shown_keeps_passwords:
  "case control_apply to_json ctx hook outcome (config_redacted c) c of
     (c', Inr _) \<Rightarrow>
       ct_config c' = map_auth_slots (\<lambda>a. if auth_mode a = AuthBasic then a else a\<lparr>auth_password := None\<rparr>) (ct_config c)
   | (c', Inl (CtInvalid e)) \<Rightarrow> violates (ct_config c) ctx e
   | (c', Inl (CtSave e)) \<Rightarrow> config_valid (ct_config c) ctx"
proof -
  let ?new = "keep_secrets_from (config_redacted c) (ct_config c)"
  have new: "?new = map_auth_slots (\<lambda>a. if auth_mode a = AuthBasic then a else a\<lparr>auth_password := None\<rparr>) (ct_config c)"
    by (simp add: config_redacted_def redact_restore)
  have valid: "config_valid ?new ctx \<longleftrightarrow> config_valid (ct_config c) ctx"
    by (simp add: validate_Inr [symmetric] validate_keep_secrets config_redacted_def validate_without_secrets)
  have fault: "control_apply to_json ctx hook outcome (config_redacted c) c = (c', Inl (CtInvalid e)) \<Longrightarrow>
      violates (ct_config c) ctx e" for c' e
    by (rule validate_Inl)
      (auto simp: control_apply_def Let_def validate_keep_secrets config_redacted_def validate_without_secrets
        split: sum.splits prod.splits option.splits)
  obtain c' r where call: "control_apply to_json ctx hook outcome (config_redacted c) c = (c', r)" by fastforce
  then show ?thesis
    by (cases rule: control_apply_cases) (use fault call in \<open>simp_all add: new valid [symmetric]\<close>)
qed

text \<open>
  A failed write may leave the file cut short although the apply reports that nothing
  changed: the next start of the application then finds the damaged file.\<close>

lemma failed_save_damages_file:
  "let saved = default_config;
       c = control_new saved ''config.json'' ''{...}'' ();
       (c', r) = control_apply (\<lambda>_. Inr ''{...new...}'') ctx_windows None
                   (WriteFailed (io_other ''disk full'') ''{..'') saved c
   in r = Inl (CtSave (CfgIo ''config.json'' ''disk full'')) \<and> ct_disk c' \<noteq> ct_disk c"
proof -
  have "keep_secrets_from default_config default_config = default_config"
    by (simp add: keep_secrets_from_def default_config_def default_routing_def)
  moreover have "validate default_config ctx_windows = Inr ()" by (simp add: validate_Inr default_config_valid)
  ultimately show ?thesis by (simp add: control_apply_def control_new_def save_file_def Let_def io_other_def)
qed

end
