(* ===== verification/App.thy ===== *)
theory App
  imports Server Pac_Router Gate Control Observe
begin

text \<open>
  The application: command line, start-up, tray and the wiring of \<^verbatim>\<open>apps/zicade/src\<close>
  (\<^verbatim>\<open>cli.rs\<close>, \<^verbatim>\<open>main.rs\<close>, \<^verbatim>\<open>lib.rs\<close>, \<^verbatim>\<open>tray.rs\<close>,
  \<^verbatim>\<open>app.rs\<close>). The running application is the server, the control handle, the log
  level and the gate; \<open>app_step\<close> composes their operations as \<^verbatim>\<open>App::start\<close> and its
  apply hook do. The lemmas show which process a command line starts, in which order the tray
  shuts down, and that the live routing, the log level, the status and the stored
  configuration never disagree.
\<close>

subsection \<open>The command line\<close>

datatype cli_command = CmdDefault | CmdRun "string option" | CmdBackground | CmdHelp | CmdUnknown string

datatype launch_mode_t = LaunchConsole | LaunchTray | LaunchBackground

definition launch_mode :: "nat \<Rightarrow> cli_command \<Rightarrow> launch_mode_t" where
  "launch_mode console_process_count cmd =
     (case cmd of
        CmdBackground \<Rightarrow> LaunchBackground
      | CmdDefault \<Rightarrow> if console_process_count = 1 then LaunchTray else LaunchConsole
      | _ \<Rightarrow> LaunchConsole)"

definition parse_args :: "string list \<Rightarrow> cli_command" where
  "parse_args args =
     (case args of
        [] \<Rightarrow> CmdDefault
      | first # rest \<Rightarrow>
          if first \<in> {''--help'', ''-h'', ''help''} then CmdHelp
          else if first = ''--background'' then CmdBackground
          else if first = ''run'' then CmdRun (case rest of [] \<Rightarrow> None | p # _ \<Rightarrow> Some p)
          else if first = ''service'' then CmdUnknown (join '' '' args)
          else if prefix ''-'' first then CmdUnknown first
          else CmdRun (Some first))"

text \<open>The process that \<^verbatim>\<open>main\<close> becomes; the flag of \<open>ProcTray\<close> is \<^verbatim>\<open>show_window\<close>.\<close>

datatype process = ProcConsole "string option" | ProcTray bool | ProcUsage | ProcRefused string

definition run_default :: "nat \<Rightarrow> process" where
  "run_default n =
     (case launch_mode n CmdDefault of
        LaunchTray \<Rightarrow> ProcTray True | LaunchBackground \<Rightarrow> ProcTray False | LaunchConsole \<Rightarrow> ProcConsole None)"

definition main_dispatch :: "nat \<Rightarrow> string list \<Rightarrow> process" where
  "main_dispatch n args =
     (case parse_args args of
        CmdDefault \<Rightarrow> run_default n
      | CmdRun config_path \<Rightarrow> ProcConsole config_path
      | CmdBackground \<Rightarrow> ProcTray False
      | CmdHelp \<Rightarrow> ProcUsage
      | CmdUnknown token \<Rightarrow> ProcRefused token)"

text \<open>
  Which process a command line starts: the tray with the window only for a bare double-click,
  the tray without it only for \<^verbatim>\<open>--background\<close>, and the console with a path only
  for a path that was given, after \<^verbatim>\<open>run\<close> or as a first word that is no flag.\<close>

lemma command_line_tray:
  "main_dispatch n args = ProcTray w \<longleftrightarrow>
     (if w then args = [] \<and> n = 1 else args \<noteq> [] \<and> hd args = ''--background'')"
  by (cases args) (simp_all add: main_dispatch_def parse_args_def run_default_def launch_mode_def)

lemma command_line_path:
  "main_dispatch n (first # rest) = ProcConsole (Some path) \<longleftrightarrow>
     (if first = ''run'' then rest \<noteq> [] \<and> hd rest = path
      else first = path \<and> first \<noteq> ''help'' \<and> first \<noteq> ''service'' \<and> \<not> prefix ''-'' first)"
proof -
  have flags: "prefix ''-'' ''--help''" "prefix ''-'' ''-h''" "prefix ''-'' ''--background''" by simp_all
  show ?thesis
  proof (cases "prefix ''-'' first")
    case True
    then have "first \<noteq> ''run''" by auto
    with True show ?thesis by (auto simp: main_dispatch_def parse_args_def)
  next
    case False
    then have "first \<noteq> ''--help''" "first \<noteq> ''-h''" "first \<noteq> ''--background''" using flags by metis+
    with False show ?thesis by (cases rest) (simp_all add: main_dispatch_def parse_args_def)
  qed
qed

subsection \<open>Log levels\<close>

datatype level_filter_t = LvTrace | LvDebug | LvInfo | LvWarn | LvError | LvOff

definition level_filter :: "string \<Rightarrow> level_filter_t" where
  "level_filter level =
     (let l = to_ascii_lowercase (trim level) in
      if l = ''trace'' then LvTrace
      else if l = ''debug'' then LvDebug
      else if l = ''info'' then LvInfo
      else if l = ''warn'' \<or> l = ''warning'' then LvWarn
      else if l = ''error'' then LvError
      else if l = ''off'' then LvOff
      else LvInfo)"

text \<open>\<open>init_tracing\<close>: the initial level, and whether the lines are JSON.\<close>

definition init_tracing :: "logging_config \<Rightarrow> level_filter_t \<times> bool" where
  "init_tracing logging = (level_filter (log_level logging), eq_ignore_ascii_case (log_format logging) ''json'')"

definition log_buffer_cap :: nat where
  "log_buffer_cap = 1024"

subsection \<open>Finding the configuration\<close>

datatype main_error = NoConfigPath | LoadFailed config_error | MkdirFailed io_error | DefaultNotWritten config_error

definition default_config_path :: "string option \<Rightarrow> main_error + string" where
  "default_config_path localappdata =
     (case localappdata of
        None \<Rightarrow> Inl NoConfigPath
      | Some base \<Rightarrow> Inr (base @ [CHR 0x5C] @ ''Zicade'' @ [CHR 0x5C] @ ''config.json''))"

definition load_file ::
    "(string \<Rightarrow> string + config) \<Rightarrow> string \<Rightarrow> io_error + string \<Rightarrow> config_error + config" where
  "load_file of_json path readable =
     (case readable of
        Inl e \<Rightarrow> Inl (CfgIo path (io_message e))
      | Inr text \<Rightarrow> map_sum CfgParse id (of_json text))"

text \<open>\<open>disk\<close> is the file's text when it exists, \<open>readable\<close> the outcome of reading it.\<close>

definition load_or_create_config ::
    "(string \<Rightarrow> string + config) \<Rightarrow> (config \<Rightarrow> string + string) \<Rightarrow> string \<Rightarrow> io_error + unit
     \<Rightarrow> io_error + unit \<Rightarrow> write_outcome \<Rightarrow> string option \<Rightarrow> (main_error + config) \<times> string option" where
  "load_or_create_config of_json to_json path readable mkdir outcome disk =
     (case disk of
        Some text \<Rightarrow> (map_sum LoadFailed id (load_file of_json path (map_sum id (\<lambda>_. text) readable)), disk)
      | None \<Rightarrow>
          (case mkdir of
             Inl e \<Rightarrow> (Inl (MkdirFailed e), None)
           | Inr _ \<Rightarrow>
               (case save_file to_json path default_config outcome [] of
                  (Inl e, left) \<Rightarrow> (Inl (DefaultNotWritten e), if left = [] then None else Some left)
                | (Inr _, text) \<Rightarrow> (Inr default_config, Some text))))"

text \<open>The second start finds what the first one wrote, when the JSON reader inverts the writer.\<close>

lemma first_run_then_load:
  assumes "to_json default_config = Inr text" and "of_json text = Inr default_config"
    and "load_or_create_config of_json to_json path readable (Inr ()) Written None = (r, disk)"
  shows "r = Inr default_config \<and>
    load_or_create_config of_json to_json path (Inr ()) mkdir outcome disk = (Inr default_config, disk)"
  using assms by (auto simp: load_or_create_config_def save_file_def load_file_def)

subsection \<open>The tray\<close>

definition open_id :: "32 word" where
  "open_id = 1"

definition close_id :: "32 word" where
  "close_id = 2"

datatype tray_action_t = TrayOpen | TrayClose

definition tray_menu_items :: "(32 word \<times> string) list" where
  "tray_menu_items = [(open_id, ''Open Zicade''), (close_id, ''Close'')]"

definition tray_action :: "32 word \<Rightarrow> tray_action_t option" where
  "tray_action i = (if i = open_id then Some TrayOpen else if i = close_id then Some TrayClose else None)"

datatype tray_effect = UiShow | SignalShutdown | JoinServer | UiQuit

text \<open>The callback over the clicks, until one of them quits; \<open>server\<close> is the handle to join.\<close>

fun pump_clicks :: "bool \<Rightarrow> 32 word list \<Rightarrow> tray_effect list" where
  "pump_clicks server [] = []"
| "pump_clicks server (i # clicks) =
     (case tray_action i of
        Some TrayOpen \<Rightarrow> UiShow # pump_clicks server clicks
      | Some TrayClose \<Rightarrow> SignalShutdown # (if server then [JoinServer] else [])
      | None \<Rightarrow> pump_clicks server clicks)"

definition pump_tray :: "32 word list \<Rightarrow> bool \<Rightarrow> tray_effect list" where
  "pump_tray clicks failed =
     pump_clicks True clicks @ (if failed then [SignalShutdown] else []) @ [UiQuit]"

text \<open>A start failure opens the window whatever was asked for.\<close>

definition tray_shows_window :: "bool \<Rightarrow> string + 'c \<Rightarrow> bool" where
  "tray_shows_window show_window started = (show_window \<or> (case started of Inl _ \<Rightarrow> True | Inr _ \<Rightarrow> False))"

lemma pump_clicks_close:
  "close_id \<in> set clicks \<Longrightarrow> \<exists>wins. pump_clicks True clicks = wins @ [SignalShutdown, JoinServer] \<and> set wins \<subseteq> {UiShow}"
proof (induction clicks)
  case (Cons i clicks)
  show ?case
  proof (cases "tray_action i")
    case None
    with Cons show ?thesis by (auto simp: tray_action_def split: if_splits)
  next
    case (Some a)
    show ?thesis
    proof (cases a)
      case TrayOpen
      with Some Cons obtain wins where
        "pump_clicks True clicks = wins @ [SignalShutdown, JoinServer]" "set wins \<subseteq> {UiShow}"
        by (auto simp: tray_action_def open_id_def close_id_def split: if_splits)
      with Some TrayOpen show ?thesis by (intro exI [of _ "UiShow # wins"]) simp
    next
      case TrayClose
      with Some show ?thesis by (intro exI [of _ "[]"]) simp
    qed
  qed
qed simp

text \<open>
  Closing from the tray drains before it quits: once Close is clicked, the shutdown is
  signalled, then the server thread is joined, and only then is the window told to quit,
  which happens exactly once and last.\<close>

theorem tray_close_drains:
  assumes "close_id \<in> set clicks"
  shows "\<exists>wins. pump_tray clicks False = wins @ [SignalShutdown, JoinServer, UiQuit] \<and> set wins \<subseteq> {UiShow}"
  using pump_clicks_close [OF assms] by (auto simp: pump_tray_def)

lemma tray_close_drains_witness:
  "\<exists>wins. pump_tray [1, 7, 2, 1] False = wins @ [SignalShutdown, JoinServer, UiQuit] \<and> set wins \<subseteq> {UiShow}"
  by (rule tray_close_drains) (simp add: close_id_def)

subsection \<open>Starting the application\<close>

type_synonym live_routing = "(sspi_factory, pac_router) routing"

record app_live =
  lv_level :: level_filter_t
  lv_gate :: "live_routing gate"

record app =
  ap_server :: "live_routing server"
  ap_control :: "app_live control"

datatype start_error =
    StartInvalid config_error | StartBadHost string | StartBind proxy_error | StartRouting string

text \<open>The gate's \<^verbatim>\<open>rebuild\<close> closure: a build error becomes \<open>Direct\<close>.\<close>

definition rebuild_routing :: "b64_encode \<Rightarrow> io_error + unit \<Rightarrow> config \<Rightarrow> live_routing" where
  "rebuild_routing enc spawned cfg =
     (case build_routing enc spawned cfg of Inr r \<Rightarrow> r | Inl _ \<Rightarrow> RoutingDirect)"

text \<open>
  \<open>ip_ok\<close> is the parser of IP addresses and \<open>bound\<close> the outcome of binding, with the local
  address. The routing handle is one cell that the server and the gate share.\<close>

definition app_start ::
    "b64_encode \<Rightarrow> io_error + unit \<Rightarrow> validation_ctx \<Rightarrow> (string \<Rightarrow> bool) \<Rightarrow> io_error + string
     \<Rightarrow> string \<Rightarrow> string \<Rightarrow> string list \<Rightarrow> config \<Rightarrow> level_filter_t \<Rightarrow> start_error + app" where
  "app_start enc spawned ctx ip_ok bound path disk detected cfg level =
     and_then (map_sum StartInvalid id (validate cfg ctx)) (\<lambda>_.
     let listen = cfg_listen cfg; addr = listen_host listen @ '':'' @ show_word (listen_port listen) in
     and_then (if ip_ok (listen_host listen) then Inr () else Inl (StartBadHost (listen_host listen))) (\<lambda>_.
     and_then (map_sum StartBind id (server_bind addr (map_sum id (\<lambda>_. ()) bound) RoutingDirect)) (\<lambda>server.
     and_then (if gate_enabled cfg then Inr server
               else map_sum StartRouting (\<lambda>r. with_routing r server) (build_routing enc spawned cfg)) (\<lambda>server.
     let gate = gate_new (routing_current server) cfg;
         gate = fst (gate_evaluate (rebuild_routing enc spawned) RoutingDirect detected gate);
         control = control_new cfg path disk \<lparr>lv_level = level, lv_gate = gate\<rparr>;
         control = control_set_status (status_default
                     \<lparr>ss_routing_mode := routing_mode_label (rt_mode (cfg_routing cfg)),
                      ss_listen_addr := (case bound of Inr a \<Rightarrow> a | Inl _ \<Rightarrow> [])\<rparr>) control
     in Inr \<lparr>ap_server = routing_set (gt_routing gate) server, ap_control = control\<rparr>))))"

subsection \<open>The running application\<close>

text \<open>The apply hook: the log level first, then the gate.\<close>

definition apply_hook ::
    "b64_encode \<Rightarrow> io_error + unit \<Rightarrow> string list \<Rightarrow> config \<Rightarrow> app_live \<Rightarrow> app_live" where
  "apply_hook enc spawned detected cfg w =
     (let w = w\<lparr>lv_level := level_filter (log_level (cfg_logging cfg))\<rparr>
      in w\<lparr>lv_gate := fst (gate_reconfigure (rebuild_routing enc spawned) RoutingDirect cfg detected (lv_gate w))\<rparr>)"

text \<open>
  \<open>AoApply\<close> is a save in the window, \<open>AoMonitor\<close> a turn of the network monitor,
  \<open>AoAccept\<close> an accepted connection; the suffixes are those detected at the time.\<close>

datatype app_op = AoApply config "string list" write_outcome | AoMonitor "string list" | AoAccept

datatype app_answer = AaApplied "control_error + unit" | AaMonitored bool | AaAccepted nat

definition share_routing :: "app \<Rightarrow> app" where
  "share_routing a = a\<lparr>ap_server := routing_set (gt_routing (lv_gate (ct_world (ap_control a)))) (ap_server a)\<rparr>"

fun app_step ::
    "b64_encode \<Rightarrow> io_error + unit \<Rightarrow> (config \<Rightarrow> string + string) \<Rightarrow> validation_ctx
     \<Rightarrow> app \<Rightarrow> app_op \<Rightarrow> app \<times> app_answer" where
  "app_step enc spawned to_json ctx a (AoApply cfg detected outcome) =
     (case control_apply to_json ctx (Some (apply_hook enc spawned detected)) outcome cfg (ap_control a) of
        (c, r) \<Rightarrow> (share_routing (a\<lparr>ap_control := c\<rparr>), AaApplied r))"
| "app_step enc spawned to_json ctx a (AoMonitor detected) =
     (let c = ap_control a; w = ct_world c in
      case gate_evaluate (rebuild_routing enc spawned) RoutingDirect detected (lv_gate w) of
        (g, changed) \<Rightarrow>
          (share_routing (a\<lparr>ap_control := c\<lparr>ct_world := w\<lparr>lv_gate := g\<rparr>\<rparr>\<rparr>), AaMonitored changed))"
| "app_step enc spawned to_json ctx a AoAccept =
     (a\<lparr>ap_server := accept_conn (ap_server a)\<rparr>, AaAccepted (sv_next (ap_server a)))"

text \<open>The suffixes the last evaluation of the gate saw: a failed apply does not evaluate.\<close>

fun app_seen :: "string list \<Rightarrow> app_op \<times> app_answer \<Rightarrow> string list" where
  "app_seen d (AoApply _ d' _, AaApplied (Inr _)) = d'"
| "app_seen d (AoMonitor d', _) = d'"
| "app_seen d _ = d"

subsection \<open>Configuration, routing, level and status agree\<close>

definition agree :: "b64_encode \<Rightarrow> io_error + unit \<Rightarrow> validation_ctx \<Rightarrow> string list \<Rightarrow> app \<Rightarrow> bool" where
  "agree enc spawned ctx d a \<longleftrightarrow>
     (let c = ap_control a; w = ct_world c; cfg = ct_config c; rebuild = rebuild_routing enc spawned in
      config_valid cfg ctx \<and>
      gate_ok rebuild RoutingDirect (lv_gate w) \<and>
      gate_view (lv_gate w) = recompute rebuild RoutingDirect cfg d \<and>
      routing_current (ap_server a) = gt_routing (lv_gate w) \<and>
      lv_level w = level_filter (log_level (cfg_logging cfg)) \<and>
      ss_routing_mode (ct_status c) = routing_mode_label (rt_mode (cfg_routing cfg)))"

lemma map_sum_Inr: "map_sum f g x = Inr y \<longleftrightarrow> (\<exists>z. x = Inr z \<and> y = g z)"
  by (cases x) auto

lemma app_start_agree:
  assumes "app_start enc spawned ctx ip_ok bound path disk d cfg (fst (init_tracing (cfg_logging cfg))) = Inr a"
  shows "agree enc spawned ctx d a"
proof -
  let ?rebuild = "rebuild_routing enc spawned"
  from assms obtain u server server' where valid: "validate cfg ctx = Inr u"
    and bind: "server_bind (listen_host (cfg_listen cfg) @ '':'' @ show_word (listen_port (cfg_listen cfg)))
                 (map_sum id (\<lambda>_. ()) bound) RoutingDirect = Inr server"
    and build: "(if gate_enabled cfg then Inr server
                 else map_sum StartRouting (\<lambda>r. with_routing r server) (build_routing enc spawned cfg)) = Inr server'"
    and a: "a = \<lparr>ap_server = routing_set (gt_routing (fst (gate_evaluate ?rebuild RoutingDirect d
                    (gate_new (routing_current server') cfg)))) server',
                 ap_control = control_set_status (status_default
                     \<lparr>ss_routing_mode := routing_mode_label (rt_mode (cfg_routing cfg)),
                      ss_listen_addr := (case bound of Inr a \<Rightarrow> a | Inl _ \<Rightarrow> [])\<rparr>)
                   (control_new cfg path disk \<lparr>lv_level = fst (init_tracing (cfg_logging cfg)),
                     lv_gate = fst (gate_evaluate ?rebuild RoutingDirect d
                       (gate_new (routing_current server') cfg))\<rparr>)\<rparr>"
    unfolding app_start_def Let_def and_then_Inr_iff
    by (elim exE conjE) (simp add: map_sum_Inr split: if_splits)
  have "routing_current server = RoutingDirect"
    using bind by (auto simp: server_bind_def routing_current_def split: sum.splits)
  with build have current: "routing_current server' = (if gate_enabled cfg then RoutingDirect else ?rebuild cfg)"
    by (auto simp: rebuild_routing_def with_routing_def routing_set_def routing_current_def
        split: if_splits sum.splits)
  then have gate: "fst (gate_evaluate ?rebuild RoutingDirect d (gate_new (routing_current server') cfg))
      = build_gate ?rebuild RoutingDirect cfg d"
    by (simp add: build_gate_def)
  show ?thesis
    using build_gate_ok [of ?rebuild RoutingDirect cfg d] valid
    by (simp add: agree_def Let_def a gate [unfolded routing_current_def] control_set_status_def
        control_new_def validate_Inr routing_current_def routing_set_def init_tracing_def)
qed

lemma app_step_agree:
  assumes ag: "agree enc spawned ctx d a" and step: "app_step enc spawned to_json ctx a op = (a', x)"
  shows "agree enc spawned ctx (app_seen d (op, x)) a'"
proof (cases op)
  case (AoApply cfg d' outcome)
  let ?hook = "apply_hook enc spawned d'"
  obtain c r where call: "control_apply to_json ctx (Some ?hook) outcome cfg (ap_control a) = (c, r)"
    by fastforce
  with step AoApply have a': "a' = share_routing (a\<lparr>ap_control := c\<rparr>)" and x: "x = AaApplied r" by auto
  from call show ?thesis
  proof (cases rule: control_apply_cases)
    case applied
    let ?cfg = "ct_config c" and ?w = "ct_world (ap_control a)"
    obtain g y where g: "gate_reconfigure (rebuild_routing enc spawned) RoutingDirect ?cfg d' (lv_gate ?w) = (g, y)"
      by fastforce
    have "rt_mode (cfg_routing cfg) = rt_mode (cfg_routing ?cfg)" using applied by simp
    then show ?thesis
      using applied(1,3,5,6) gate_reconfigure_ok [OF g] g
      by (simp add: agree_def Let_def a' x AoApply share_routing_def routing_set_def
          routing_current_def apply_hook_def)
  next
    case (invalid e)
    then show ?thesis
      using ag by (auto simp: agree_def Let_def a' x AoApply share_routing_def routing_set_def routing_current_def)
  next
    case (unsaved e)
    from unsaved_same [OF unsaved(2)] obtain disk where "c = (ap_control a)\<lparr>ct_disk := disk\<rparr>" by blast
    with unsaved(1) show ?thesis
      using ag by (auto simp: agree_def Let_def a' x AoApply share_routing_def routing_set_def routing_current_def)
  qed
next
  case (AoMonitor d')
  let ?w = "ct_world (ap_control a)"
  obtain g y where g: "gate_evaluate (rebuild_routing enc spawned) RoutingDirect d' (lv_gate ?w) = (g, y)"
    by fastforce
  have ok: "gate_ok (rebuild_routing enc spawned) RoutingDirect (lv_gate ?w)"
    and view: "gate_view (lv_gate ?w) = recompute (rebuild_routing enc spawned) RoutingDirect (ct_config (ap_control a)) d"
    using ag by (simp_all add: agree_def Let_def)
  have "gate_view g = recompute (rebuild_routing enc spawned) RoutingDirect (ct_config (ap_control a)) d'"
    using gate_evaluate_ok [OF ok g] view by (simp add: Let_def recompute_def)
  then show ?thesis
    using ag gate_evaluate_ok [OF ok g] step g
    by (auto simp: agree_def Let_def AoMonitor share_routing_def routing_set_def routing_current_def)
next
  case AoAccept
  then show ?thesis
    using ag step by (auto simp: agree_def Let_def accept_conn_def routing_current_def)
qed

lemma run_app_agree:
  "agree enc spawned ctx d a \<Longrightarrow> run (app_step enc spawned to_json ctx) a ops = (a', xs) \<Longrightarrow>
     agree enc spawned ctx (foldl app_seen d (zip ops xs)) a'"
proof (induction ops arbitrary: a d xs)
  case (Cons op ops)
  from Cons.prems(2) obtain t x ys where
    "app_step enc spawned to_json ctx a op = (t, x)" "run (app_step enc spawned to_json ctx) t ops = (a', ys)"
    "xs = x # ys" by (rule run_ConsE)
  with Cons app_step_agree show ?case by fastforce
qed simp

text \<open>C4
  The application stays consistent. From a successful start on, through any sequence of
  saves (valid, refused or failing to write), network changes and accepted connections, the
  stored configuration is valid, and what runs is what it says: new connections get the routing
  built from it, or \<open>Direct\<close> exactly while the gate is enabled and last saw no corporate suffix;
  the status cell and the routing mode shown, and the log level, follow it too.\<close>

theorem running_follows_config:
  assumes "app_start enc spawned ctx ip_ok bound path disk d cfg (fst (init_tracing (cfg_logging cfg))) = Inr a"
  shows "case run (app_step enc spawned to_json ctx) a ops of (a', xs) \<Rightarrow>
    let c = ap_control a'; cfg' = ct_config c; d' = foldl app_seen d (zip ops xs) in
      config_valid cfg' ctx \<and>
      routing_current (ap_server a') = intended_routing (rebuild_routing enc spawned) RoutingDirect cfg' d' \<and>
      gt_cell (lv_gate (ct_world c)) = intended_report cfg' d' \<and>
      lv_level (ct_world c) = level_filter (log_level (cfg_logging cfg')) \<and>
      ss_routing_mode (ct_status c) = routing_mode_label (rt_mode (cfg_routing cfg'))"
proof (cases "run (app_step enc spawned to_json ctx) a ops")
  case (Pair a' xs)
  have "agree enc spawned ctx (foldl app_seen d (zip ops xs)) a'"
    using run_app_agree [OF app_start_agree [OF assms] Pair] .
  then show ?thesis
    using Pair by (auto simp: agree_def Let_def gate_view_def recompute_def)
qed

text \<open>With a resolver thread, the routing of a stored configuration never falls back.\<close>

lemma rebuild_valid:
  "config_valid cfg ctx \<Longrightarrow> build_routing enc (Inr ()) cfg = Inr (rebuild_routing enc (Inr ()) cfg)"
  by (cases "rt_mode (cfg_routing cfg)")
    (auto simp: config_valid_def rebuild_routing_def build_routing_def build_upstream_def build_pac_def Let_def)

definition demo_app :: app where
  "demo_app = projr (app_start id (Inr ()) ctx_windows (\<lambda>_. True) (Inr ''127.0.0.1:3129'') ''config.json''
     ''{}'' [] default_config (fst (init_tracing (cfg_logging default_config))))"

lemma demo_app_starts:
  "app_start id (Inr ()) ctx_windows (\<lambda>_. True) (Inr ''127.0.0.1:3129'') ''config.json'' ''{}'' []
     default_config (fst (init_tracing (cfg_logging default_config))) = Inr demo_app"
proof -
  have "rt_mode (cfg_routing default_config) = ModeDirect"
    by (simp add: default_config_def default_routing_def)
  moreover have "validate default_config ctx_windows = Inr ()" by (simp add: validate_Inr default_config_valid)
  moreover have "\<not> gate_enabled default_config"
    by (simp add: gate_enabled_def default_config_def default_routing_def)
  ultimately show ?thesis
    unfolding demo_app_def by (simp add: app_start_def Let_def server_bind_def build_routing_def)
qed

lemma running_follows_config_witness:
  "case run (app_step id (Inr ()) (\<lambda>_. Inr ''{..}'') ctx_windows) demo_app
          [AoApply (default_config\<lparr>cfg_logging := \<lparr>log_level = ''debug'', log_format = ''json''\<rparr>\<rparr>) [] Written,
           AoMonitor [], AoAccept] of (a', xs) \<Rightarrow>
     let c = ap_control a'; cfg' = ct_config c; d' = foldl app_seen [] (zip
          [AoApply (default_config\<lparr>cfg_logging := \<lparr>log_level = ''debug'', log_format = ''json''\<rparr>\<rparr>) [] Written,
           AoMonitor [], AoAccept] xs) in
      config_valid cfg' ctx_windows \<and>
      routing_current (ap_server a') = intended_routing (rebuild_routing id (Inr ())) RoutingDirect cfg' d' \<and>
      gt_cell (lv_gate (ct_world c)) = intended_report cfg' d' \<and>
      lv_level (ct_world c) = level_filter (log_level (cfg_logging cfg')) \<and>
      ss_routing_mode (ct_status c) = routing_mode_label (rt_mode (cfg_routing cfg'))"
  by (rule running_follows_config [OF demo_app_starts])

end
