(* ===== verification/F64.thy ===== *)
theory F64
  imports Complex_Main Zicade_Prelude
begin

text \<open>
  Binary floating point as the window's numbers use it. A finite \<^verbatim>\<open>f64\<close> or
  \<^verbatim>\<open>f32\<close> is the rational it denotes, and an operation is the exact result rounded to
  the nearest number of the precision, ties to even, as IEEE 754 has it. The numbers of the
  program are byte counts, rates and seconds: far inside the range, so neither overflow nor
  subnormals are part of the model. The lemmas: the rounding errs by at most half a unit in
  the last place, and a positive number stays positive.
\<close>

subsection \<open>Rounding\<close>

definition round_half_even :: "rat \<Rightarrow> int" where
  "round_half_even x =
     (let f = \<lfloor>x\<rfloor>; r = x - of_int f in
      if r < 1 / 2 then f else if 1 / 2 < r then f + 1 else if even f then f else f + 1)"

fun bits :: "nat \<Rightarrow> nat" where
  "bits n = (if n = 0 then 0 else Suc (bits (n div 2)))"

declare bits.simps [simp del]

definition pow2 :: "int \<Rightarrow> rat" where
  "pow2 k = (if 0 \<le> k then 2 ^ nat k else 1 / 2 ^ nat (- k))"

definition exponent :: "rat \<Rightarrow> int" where
  "exponent x =
     (if 1 \<le> x then int (bits (nat \<lfloor>x\<rfloor>)) - 1 else - int (bits (nat (\<lceil>1 / x\<rceil> - 1))))"

text \<open>Rounding to a precision of \<open>p\<close> binary digits: 53 for \<^verbatim>\<open>f64\<close>, 24 for \<^verbatim>\<open>f32\<close>.\<close>

definition float_round :: "nat \<Rightarrow> rat \<Rightarrow> rat" where
  "float_round p x =
     (if x = 0 then 0
      else let u = pow2 (exponent \<bar>x\<bar> + 1 - int p) in
           if 0 < x then of_int (round_half_even (x / u)) * u
           else - (of_int (round_half_even (- x / u)) * u))"

abbreviation f64 :: "rat \<Rightarrow> rat" where
  "f64 \<equiv> float_round 53"

abbreviation f32 :: "rat \<Rightarrow> rat" where
  "f32 \<equiv> float_round 24"

subsection \<open>Laws\<close>

lemma round_half_even_near: "\<bar>of_int (round_half_even x) - x\<bar> \<le> 1 / 2"
proof -
  have "of_int \<lfloor>x\<rfloor> \<le> x" "x < of_int \<lfloor>x\<rfloor> + 1" by linarith+
  then show ?thesis by (auto simp: round_half_even_def Let_def abs_le_iff)
qed

lemma round_half_even_int [simp]: "round_half_even (of_int n) = n"
  by (simp add: round_half_even_def)

lemma bits_bounds: "0 < n \<Longrightarrow> 2 ^ (bits n - 1) \<le> n \<and> n < 2 ^ bits n \<and> 0 < bits n"
proof (induction n rule: bits.induct)
  case (1 n)
  show ?case
  proof (cases "n div 2 = 0")
    case True
    with 1 have "n = 1" by auto
    then show ?thesis by (simp add: bits.simps)
  next
    case False
    then have ih: "2 ^ (bits (n div 2) - 1) \<le> n div 2" "n div 2 < 2 ^ bits (n div 2)" "0 < bits (n div 2)"
      using 1 by auto
    then obtain b where b: "bits (n div 2) = Suc b" by (cases "bits (n div 2)") auto
    have "bits n = Suc (Suc b)" using 1 b by (simp add: bits.simps [of n])
    then show ?thesis using ih b by auto
  qed
qed

lemma pow2_pos [simp]: "0 < pow2 k"
  by (simp add: pow2_def)

lemma pow2_Suc: "pow2 (k + 1) = 2 * pow2 k"
proof (cases "0 \<le> k")
  case True
  then show ?thesis by (simp add: pow2_def nat_add_distrib)
next
  case False
  then obtain n where "k = - int (Suc n)" by (metis int_cases of_nat_0_le_iff)
  then show ?thesis by (simp add: pow2_def nat_add_distrib)
qed

lemma pow2_nonzero [simp]: "pow2 k \<noteq> 0"
  using pow2_pos [of k] by (metis less_irrefl)

lemma pow2_add_nat: "pow2 (k + int n) = 2 ^ n * pow2 k"
proof (induction n)
  case (Suc n)
  have "pow2 (k + int (Suc n)) = pow2 ((k + int n) + 1)" by (simp add: ac_simps)
  then show ?case using Suc by (simp only: pow2_Suc) simp
qed simp

lemma exponent_bounds:
  assumes "0 < x"
  shows "pow2 (exponent x) \<le> x" and "x < pow2 (exponent x + 1)"
proof -
  have "pow2 (exponent x) \<le> x \<and> x < pow2 (exponent x + 1)"
  proof (cases "1 \<le> x")
    case True
    let ?n = "nat \<lfloor>x\<rfloor>"
    have n: "0 < ?n" "rat_of_nat ?n \<le> x" "x < rat_of_nat ?n + 1" using True by linarith+
    note b = bits_bounds [OF n(1)]
    have "(2::rat) ^ (bits ?n - 1) \<le> rat_of_nat ?n" using b by (metis of_nat_le_iff of_nat_numeral of_nat_power)
    moreover have "rat_of_nat ?n + 1 \<le> 2 ^ bits ?n"
      using b by (metis Suc_leI of_nat_Suc of_nat_le_iff of_nat_numeral of_nat_power add.commute)
    moreover have "pow2 (exponent x) = 2 ^ (bits ?n - 1)" "pow2 (exponent x + 1) = 2 ^ bits ?n"
      using True b by (auto simp: exponent_def pow2_def nat_diff_distrib)
    ultimately show ?thesis using n by linarith
  next
    case False
    let ?n = "nat (\<lceil>1 / x\<rceil> - 1)"
    have "1 < 1 / x" using False assms by simp
    then have c: "2 \<le> \<lceil>1 / x\<rceil>" by linarith
    then have n: "0 < ?n" "1 / x \<le> rat_of_nat ?n + 1" "rat_of_nat ?n < 1 / x" by linarith+
    note b = bits_bounds [OF n(1)]
    have lo: "(2::rat) ^ (bits ?n - 1) \<le> rat_of_nat ?n" using b by (metis of_nat_le_iff of_nat_numeral of_nat_power)
    have hi: "rat_of_nat ?n + 1 \<le> 2 ^ bits ?n"
      using b by (metis Suc_leI of_nat_Suc of_nat_le_iff of_nat_numeral of_nat_power add.commute)
    have e: "exponent x = - int (bits ?n)" using False by (simp add: exponent_def)
    have "pow2 (exponent x) = 1 / 2 ^ bits ?n" "pow2 (exponent x + 1) = 1 / 2 ^ (bits ?n - 1)"
      using b by (auto simp: e pow2_def nat_diff_distrib)
    moreover have "1 / x \<le> 2 ^ bits ?n" "2 ^ (bits ?n - 1) < 1 / x" using n lo hi by linarith+
    then have "1 / 2 ^ bits ?n \<le> x" "x < 1 / 2 ^ (bits ?n - 1)"
      using assms by (simp_all add: field_simps)
    ultimately show ?thesis by simp
  qed
  then show "pow2 (exponent x) \<le> x" and "x < pow2 (exponent x + 1)" by auto
qed

lemma float_round_0 [simp]: "float_round p 0 = 0"
  by (simp add: float_round_def)

text \<open>The error is at most half a unit in the last place, so a relative \<open>2 ^ p\<close>-th.\<close>

lemma float_round_error:
  assumes "0 < p" and "0 \<le> x"
  shows "\<bar>float_round p x - x\<bar> * 2 ^ p \<le> x"
proof (cases "x = 0")
  case False
  with assms have x: "0 < x" by simp
  let ?u = "pow2 (exponent x + 1 - int p)"
  have u: "0 < ?u" by simp
  have "pow2 (exponent x + 1) = 2 ^ p * ?u"
    using pow2_add_nat [of "exponent x + 1 - int p" p] by simp
  then have ulp: "2 ^ p * ?u \<le> 2 * x" using exponent_bounds(1) [OF x] by (simp add: pow2_Suc)
  have "float_round p x - x = (of_int (round_half_even (x / ?u)) - x / ?u) * ?u"
    using x u by (simp add: float_round_def Let_def left_diff_distrib)
  then have "\<bar>float_round p x - x\<bar> = \<bar>of_int (round_half_even (x / ?u)) - x / ?u\<bar> * ?u"
    by (simp only: abs_mult abs_of_pos [OF u])
  also have "\<dots> \<le> (1 / 2) * ?u" using round_half_even_near less_imp_le [OF u] by (rule mult_right_mono)
  finally have "\<bar>float_round p x - x\<bar> * 2 ^ p \<le> ((1 / 2) * ?u) * 2 ^ p" by (intro mult_right_mono) simp_all
  also have "\<dots> \<le> x" using ulp by (simp add: mult.commute)
  finally show ?thesis .
qed simp

lemma float_round_pos:
  assumes "1 < p" and "0 < x"
  shows "0 < float_round p x"
proof (rule ccontr)
  assume "\<not> 0 < float_round p x"
  then have "x \<le> \<bar>float_round p x - x\<bar>" by linarith
  then have "x * 2 ^ p \<le> \<bar>float_round p x - x\<bar> * 2 ^ p" by (intro mult_right_mono) simp_all
  also have "\<dots> \<le> x" using float_round_error [of p x] assms by simp
  finally have "x * 2 ^ p \<le> x" .
  moreover have "(2::rat) ^ 1 \<le> 2 ^ p" using assms by (intro power_increasing) simp_all
  then have "(2::rat) \<le> 2 ^ p" by simp
  then have "x * 2 \<le> x * 2 ^ p" using assms by (intro mult_left_mono) simp_all
  ultimately show False using assms by simp
qed

lemma float_round_nonneg: "1 < p \<Longrightarrow> 0 \<le> x \<Longrightarrow> 0 \<le> float_round p x"
  using float_round_pos [of p x] by (cases "x = 0") (auto simp: less_imp_le)

lemma float_round_eq_0: "1 < p \<Longrightarrow> 0 \<le> x \<Longrightarrow> float_round p x = 0 \<longleftrightarrow> x = 0"
  using float_round_pos [of p x] by (cases "x = 0") auto

lemma float_round_minus: "float_round p (- x) = - float_round p x"
  by (auto simp: float_round_def Let_def)

lemma float_round_error_abs: "0 < p \<Longrightarrow> \<bar>float_round p x - x\<bar> * 2 ^ p \<le> \<bar>x\<bar>"
proof (cases "0 \<le> x")
  case False
  assume "0 < p"
  with float_round_error [of p "- x"] False show ?thesis by (simp add: float_round_minus abs_minus_commute)
qed (use float_round_error [of p x] in auto)

lemma f32_near:
  assumes "\<bar>x\<bar> \<le> b"
  shows "\<bar>f32 x - x\<bar> \<le> b / 16777216"
proof -
  have "\<bar>f32 x - x\<bar> * 2 ^ 24 \<le> b" using float_round_error_abs [of 24 x] assms by simp
  then show ?thesis by (simp add: field_simps)
qed

end
