(* ===== verification/Element.thy ===== *)
theory Element
  imports F64
begin

text \<open>
  What the views of \<^verbatim>\<open>crates/zicade-ui\<close> hand to the toolkit (gpui): trees of elements.
  A builder chain such as \<^verbatim>\<open>div().id(..).text_sm().child(..)\<close> is its constructor, the
  calls on it in order, and its children. A call that only styles is kept by its name and
  argument. What the toolkit paints for an element is its own; the model says what it is given,
  which texts a reader gets from it, and which listeners a gesture can reach: none in a field
  that is not visible, and not those of a disabled element.
  The lemmas: ids, texts and reachable listeners are collected child by child.
\<close>

subsection \<open>Elements\<close>

text \<open>
  The state of a text field, as far as the code uses it: its value, its placeholder and whether
  it is masked.\<close>

record input_state =
  in_value :: string
  in_placeholder :: string
  in_masked :: bool

definition input_new :: "string \<Rightarrow> string \<Rightarrow> input_state" where
  "input_new initial placeholder = \<lparr>in_value = initial, in_placeholder = placeholder, in_masked = False\<rparr>"

definition set_value :: "string \<Rightarrow> input_state \<Rightarrow> input_state" where
  "set_value new_value i = i\<lparr>in_value := new_value\<rparr>"

text \<open>A text on screen is its code points; a literal beyond U+00FF is written by its number.\<close>

type_synonym shared_string = "nat list"

definition shared :: "string \<Rightarrow> shared_string" where
  "shared s = map of_char s"

text \<open>The colours of the theme.\<close>

datatype colour =
    ThBackground | ThForeground | ThMuted | ThBorder | ThPrimary | ThPrimaryForeground
  | ThSuccess | ThDanger | ThWarning | ThChart1 | ThChart2 | Faded colour rat

datatype elem_id = Id string | IdNum string nat

text \<open>A listener says what it does to the views, the message \<open>'m\<close>, from what it is called with.\<close>

datatype 'm listener = OnClick 'm | OnToggle "bool \<Rightarrow> 'm" | OnTab "nat \<Rightarrow> 'm" | OnAction string 'm

text \<open>
  The calls: styles without an argument, on a value of the theme, a colour or a length; ids,
  labels and other texts; switches by name; a chart's points, its ranges and the words of its
  values; the state of a text field and of a drop-down (labels, selected); listeners.\<close>

datatype 'm attr =
    Style string | Themed string string | Paint string colour | Place string rat
  | ElemId elem_id | AriaLabel shared_string | Caption string shared_string
  | Flag string bool | Index string nat | Span string rat rat
  | Plotted "(shared_string \<times> rat \<times> rat) list" | Worded string "rat \<Rightarrow> shared_string"
  | InputOf input_state | SelectOf "string list" "nat option"
  | Listen "'m listener"

datatype 'm element =
    Txt shared_string
  | Elem string "'m attr list" "'m element list"

definition styles :: "string list \<Rightarrow> 'm attr list" where
  "styles names = map Style names"

abbreviation literal :: "string \<Rightarrow> 'm element" where
  "literal s \<equiv> Txt (shared s)"

abbreviation gdiv :: "'m attr list \<Rightarrow> 'm element list \<Rightarrow> 'm element" where
  "gdiv \<equiv> Elem ''div''"

abbreviation h_flex :: "'m attr list \<Rightarrow> 'm element list \<Rightarrow> 'm element" where
  "h_flex \<equiv> Elem ''h_flex''"

abbreviation v_flex :: "'m attr list \<Rightarrow> 'm element list \<Rightarrow> 'm element" where
  "v_flex \<equiv> Elem ''v_flex''"

subsection \<open>What a reader gets\<close>

fun hides :: "'m attr \<Rightarrow> bool" where
  "hides (Flag name on) = (name = ''visible'' \<and> \<not> on)"
| "hides _ = False"

fun attr_ids :: "'m attr \<Rightarrow> elem_id list" where
  "attr_ids (ElemId i) = [i]"
| "attr_ids _ = []"

text \<open>A masked field gives nothing away; an empty one shows its placeholder.\<close>

fun attr_texts :: "'m attr \<Rightarrow> shared_string list" where
  "attr_texts (AriaLabel s) = [s]"
| "attr_texts (Caption _ s) = [s]"
| "attr_texts (InputOf i) =
     (if in_value i = [] then [shared (in_placeholder i)]
      else if in_masked i then [] else [shared (in_value i)])"
| "attr_texts (SelectOf labels selected) =
     (case selected of Some i \<Rightarrow> if i < length labels then [shared (labels ! i)] else [] | None \<Rightarrow> [])"
| "attr_texts _ = []"

fun ids :: "'m element \<Rightarrow> elem_id list" where
  "ids (Txt _) = []"
| "ids (Elem _ calls children) =
     (if list_ex hides calls then []
      else concat (map attr_ids calls) @ concat (map ids children))"

fun texts :: "'m element \<Rightarrow> shared_string list" where
  "texts (Txt s) = [s]"
| "texts (Elem _ calls children) =
     (if list_ex hides calls then []
      else concat (map attr_texts calls) @ concat (map texts children))"

text \<open>The accessible label of the element with an id, and the texts below it.\<close>

fun labelled :: "'m element \<Rightarrow> (elem_id \<times> shared_string list \<times> shared_string list) list" where
  "labelled (Txt _) = []"
| "labelled (Elem k calls children) =
     (if list_ex hides calls then []
      else map (\<lambda>i. (i, concat (map (\<lambda>a. case a of AriaLabel s \<Rightarrow> [s] | _ \<Rightarrow> []) calls),
                        concat (map texts children)))
             (concat (map attr_ids calls))
           @ concat (map labelled children))"

subsection \<open>Gestures\<close>

text \<open>A gesture is aimed at an element by its id, or at a menu item by its title.\<close>

datatype aim = AtId elem_id | AtTitle shared_string

datatype gesture = GClick | GToggle bool | GTab nat | GAction string

fun disables :: "'m attr \<Rightarrow> bool" where
  "disables (Flag name on) = (name = ''disabled'' \<and> on)"
| "disables _ = False"

fun attr_aims :: "'m attr \<Rightarrow> aim list" where
  "attr_aims (ElemId i) = [AtId i]"
| "attr_aims (Caption name s) = (if name = ''title'' then [AtTitle s] else [])"
| "attr_aims _ = []"

fun attr_listeners :: "'m attr \<Rightarrow> 'm listener list" where
  "attr_listeners (Listen l) = [l]"
| "attr_listeners _ = []"

fun reachable :: "'m element \<Rightarrow> (aim \<times> 'm listener) list" where
  "reachable (Txt _) = []"
| "reachable (Elem _ calls children) =
     (if list_ex hides calls then []
      else (if list_ex disables calls then []
            else List.product (concat (map attr_aims calls)) (concat (map attr_listeners calls)))
           @ concat (map reachable children))"

fun answer :: "'m listener \<Rightarrow> gesture \<Rightarrow> 'm option" where
  "answer (OnClick m) GClick = Some m"
| "answer (OnToggle f) (GToggle on) = Some (f on)"
| "answer (OnTab f) (GTab i) = Some (f i)"
| "answer (OnAction name m) (GAction name') = (if name = name' then Some m else None)"
| "answer _ _ = None"

text \<open>The message of the first listener at the aim that takes the gesture.\<close>

fun first_answer :: "aim \<Rightarrow> gesture \<Rightarrow> (aim \<times> 'm listener) list \<Rightarrow> 'm option" where
  "first_answer a g [] = None"
| "first_answer a g ((a', l) # rest) =
     (case (if a' = a then answer l g else None) of
        Some m \<Rightarrow> Some m
      | None \<Rightarrow> first_answer a g rest)"

definition press :: "aim \<Rightarrow> gesture \<Rightarrow> 'm element \<Rightarrow> 'm option" where
  "press a g e = first_answer a g (reachable e)"

subsection \<open>Laws\<close>

lemma concat_map_Nil [simp]: "concat (map (\<lambda>x. []) xs) = []"
  by (induction xs) simp_all

lemma shared_inject [simp]: "shared a = shared b \<longleftrightarrow> a = b"
proof -
  have "inj (of_char :: char \<Rightarrow> nat)" by (simp add: inj_def)
  then show ?thesis by (simp add: shared_def)
qed

lemma shared_append [simp]: "shared (a @ b) = shared a @ shared b"
  by (simp add: shared_def)

lemma shared_Nil [simp]: "shared [] = []"
  by (simp add: shared_def)

lemma styles_inert [simp]:
  "list_ex hides (styles names) = False" "list_ex disables (styles names) = False"
  "concat (map attr_ids (styles names)) = []" "concat (map attr_texts (styles names)) = []"
  "concat (map attr_aims (styles names)) = []" "concat (map attr_listeners (styles names)) = []"
  "concat (map (\<lambda>a. case a of AriaLabel s \<Rightarrow> [s] | _ \<Rightarrow> []) (styles names)) = []"
  by (induction names) (simp_all add: styles_def)

lemma first_answer_append:
  "first_answer a g (xs @ ys) = (case first_answer a g xs of Some m \<Rightarrow> Some m | None \<Rightarrow> first_answer a g ys)"
  by (induction a g xs rule: first_answer.induct) (auto split: option.split)

text \<open>A gesture answered anywhere in a tree is aimed at an element of it that is shown.\<close>

lemma first_answer_in: "first_answer a g xs = Some m \<Longrightarrow> \<exists>l. (a, l) \<in> set xs \<and> answer l g = Some m"
  by (induction a g xs rule: first_answer.induct) (auto split: option.splits if_splits)

lemma reachable_ids: "(AtId i, l) \<in> set (reachable e) \<Longrightarrow> i \<in> set (ids e)"
proof (induction e)
  case (Elem k calls children)
  have "AtId i \<in> set (attr_aims c) \<Longrightarrow> i \<in> set (attr_ids c)" for c :: "'a attr"
    by (cases c) (auto split: if_splits)
  with Elem show ?case by (fastforce split: if_splits)
qed simp

lemma press_on_screen: "press (AtId i) g e = Some m \<Longrightarrow> i \<in> set (ids e)"
  unfolding press_def by (metis first_answer_in reachable_ids)

lemma labelled_ids: "map fst (labelled e) = ids e"
proof (induction e)
  case (Elem k calls children)
  then have "map (\<lambda>c. map fst (labelled c)) children = map ids children" by simp
  then show ?case by (simp add: map_concat comp_def cong: map_cong)
qed simp

text \<open>The element with an id says a text, to the eye and to a screen reader alike.\<close>

definition says :: "'m element \<Rightarrow> string \<Rightarrow> string \<Rightarrow> bool" where
  "says e i s \<longleftrightarrow> (Id i, [shared s], [shared s]) \<in> set (labelled e)"

lemma says_child: "says c i s \<Longrightarrow> c \<in> set cs \<Longrightarrow> \<not> list_ex hides calls \<Longrightarrow> says (Elem k calls cs) i s"
  by (auto simp: says_def)

end
