(* ===== verification/Form.thy ===== *)
theory Form
  imports Control Element
begin

text \<open>
  The settings form: \<^verbatim>\<open>zicade-ui/src/form_model.rs\<close>, \<^verbatim>\<open>choices.rs\<close>,
  the widget state of \<^verbatim>\<open>views/config/fields.rs\<close> and the save logic of
  \<^verbatim>\<open>views/config/mod.rs\<close>. A text widget is its text, its placeholder and whether it is masked, a drop-down its options with
  the picked index; layout and rendering are left out. The lemmas show that an untouched form
  saves back the same configuration, that loading and reading the widgets agree, and that one
  view never has two saves under way.
\<close>

subsection \<open>The form\<close>

definition default_poll_seconds_text :: u64 where
  "default_poll_seconds_text = 30"

record auth_form =
  af_mode :: auth_mode
  af_package :: sspi_package
  af_username :: string
  af_password :: string

record config_form =
  cf_listen_host :: string
  cf_listen_port :: string
  cf_mode :: routing_mode
  cf_upstream_host :: string
  cf_upstream_port :: string
  cf_upstream_auth :: auth_form
  cf_pac_source :: pac_source
  cf_pac_path :: string
  cf_pac_url :: string
  cf_pac_fail_policy :: fail_policy
  cf_pac_auth :: auth_form
  cf_corp_enabled :: bool
  cf_corp_suffixes :: string
  cf_corp_poll_seconds :: string
  cf_pool :: pool_config
  cf_log_level :: string
  cf_log_format :: string

datatype form_error = FormError string string

definition text_of :: "string option \<Rightarrow> string" where
  "text_of s = (case s of Some t \<Rightarrow> t | None \<Rightarrow> [])"

definition non_blank :: "string \<Rightarrow> string option" where
  "non_blank t = (if trim t = [] then None else Some (trim t))"

definition from_auth :: "auth_config \<Rightarrow> auth_form" where
  "from_auth a = \<lparr>af_mode = auth_mode a, af_package = auth_package a,
                  af_username = text_of (auth_username a), af_password = text_of (auth_password a)\<rparr>"

definition to_auth :: "auth_form \<Rightarrow> auth_config" where
  "to_auth f = \<lparr>auth_mode = af_mode f, auth_package = af_package f,
                auth_username = non_blank (af_username f), auth_password = non_blank (af_password f)\<rparr>"

definition blank_upstream :: upstream_config where
  "blank_upstream = \<lparr>up_host = [], up_port = 0, up_auth = default_auth\<rparr>"

definition port_text :: "u16 \<Rightarrow> string" where
  "port_text p = (if p = 0 then [] else show_word p)"

definition parse_port :: "string \<Rightarrow> string \<Rightarrow> form_error + u16" where
  "parse_port field t =
     (case parse_u16 (trim t) of
        Some p \<Rightarrow> Inr p
      | None \<Rightarrow> Inl (FormError field ''must be a number from 1 to 65535''))"

definition or_default :: "'a \<Rightarrow> 'a option \<Rightarrow> 'a" where
  "or_default d x = (case x of Some a \<Rightarrow> a | None \<Rightarrow> d)"

definition from_config :: "config \<Rightarrow> config_form" where
  "from_config cfg =
     (let r = cfg_routing cfg;
          up = or_default blank_upstream (rt_upstream r);
          pac = or_default default_pac (rt_pac r);
          corp = or_default default_corp (rt_corp_network r)
      in \<lparr>cf_listen_host = listen_host (cfg_listen cfg),
          cf_listen_port = show_word (listen_port (cfg_listen cfg)),
          cf_mode = rt_mode r,
          cf_upstream_host = up_host up,
          cf_upstream_port = port_text (up_port up),
          cf_upstream_auth = from_auth (up_auth up),
          cf_pac_source = pac_source pac,
          cf_pac_path = text_of (pac_path pac),
          cf_pac_url = text_of (pac_url pac),
          cf_pac_fail_policy = pac_fail_policy pac,
          cf_pac_auth = from_auth (pac_auth pac),
          cf_corp_enabled = corp_enabled corp,
          cf_corp_suffixes = join '', '' (corp_dns_suffixes corp),
          cf_corp_poll_seconds = show_word (corp_poll_seconds corp),
          cf_pool = rt_pool r,
          cf_log_level = log_level (cfg_logging cfg),
          cf_log_format = log_format (cfg_logging cfg)\<rparr>)"

definition form_upstream :: "config_form \<Rightarrow> form_error + upstream_config" where
  "form_upstream f =
     map_sum id (\<lambda>p. \<lparr>up_host = trim (cf_upstream_host f), up_port = p, up_auth = to_auth (cf_upstream_auth f)\<rparr>)
       (parse_port ''Upstream port'' (cf_upstream_port f))"

definition form_pac :: "config_form \<Rightarrow> pac_config" where
  "form_pac f =
     \<lparr>pac_source = cf_pac_source f, pac_path = non_blank (cf_pac_path f), pac_url = non_blank (cf_pac_url f),
      pac_fail_policy = cf_pac_fail_policy f, pac_auth = to_auth (cf_pac_auth f)\<rparr>"

definition suffix_sep :: "char \<Rightarrow> bool" where
  "suffix_sep c \<longleftrightarrow> c = CHR '','' \<or> c = CHR 0x0A"

definition split_suffixes :: "string \<Rightarrow> string list" where
  "split_suffixes t = filter (\<lambda>s. s \<noteq> []) (map trim (split_on suffix_sep t))"

definition form_corp :: "config_form \<Rightarrow> form_error + corp_network_config option" where
  "form_corp f =
     (let dns_suffixes = split_suffixes (cf_corp_suffixes f); poll = trim (cf_corp_poll_seconds f) in
      if \<not> cf_corp_enabled f \<and> dns_suffixes = [] then Inr None
      else map_sum id (\<lambda>secs. Some \<lparr>corp_enabled = cf_corp_enabled f, corp_dns_suffixes = dns_suffixes,
                                    corp_poll_seconds = secs\<rparr>)
             (if poll = [] then Inr default_poll_seconds_text
              else (case parse_u64 poll of
                      Some n \<Rightarrow> Inr n
                    | None \<Rightarrow> Inl (FormError ''Re-check interval'' ''must be a whole number of seconds''))))"

definition to_config :: "config_form \<Rightarrow> form_error + config" where
  "to_config f =
     and_then (parse_port ''Listen port'' (cf_listen_port f)) (\<lambda>port.
     and_then (if cf_mode f = ModeUpstream then map_sum id Some (form_upstream f) else Inr None) (\<lambda>up.
     and_then (if cf_mode f = ModeUpstream \<or> cf_mode f = ModePac then form_corp f else Inr None) (\<lambda>corp.
     Inr \<lparr>cfg_listen = \<lparr>listen_host = trim (cf_listen_host f), listen_port = port\<rparr>,
          cfg_routing = \<lparr>rt_mode = cf_mode f, rt_upstream = up,
                         rt_pac = (if cf_mode f = ModePac then Some (form_pac f) else None),
                         rt_corp_network = corp, rt_pool = cf_pool f\<rparr>,
          cfg_logging = \<lparr>log_level = trim (cf_log_level f), log_format = trim (cf_log_format f)\<rparr>\<rparr>)))"

subsection \<open>Drop-downs\<close>

text \<open>The names are the enums' serde names; \<open>parse_name\<close> and \<open>name_of\<close> read them both ways.\<close>

type_synonym item = "string \<times> string"

definition routing_modes :: "item list" where
  "routing_modes = [(''direct'', ''Direct''), (''upstream'', ''Upstream proxy''), (''pac'', ''PAC script'')]"

definition auth_modes :: "item list" where
  "auth_modes = [(''none'', ''None''), (''basic'', ''Username and password''), (''negotiate'', ''Windows sign-in'')]"

definition sspi_packages :: "item list" where
  "sspi_packages = [(''ntlm'', ''NTLM''), (''negotiate'', ''Negotiate (Kerberos)'')]"

definition pac_sources :: "item list" where
  "pac_sources = [(''auto'', ''Automatic''), (''file'', ''File''), (''url'', ''Web address'')]"

definition fail_policies :: "item list" where
  "fail_policies = [(''error'', ''Fail the request''), (''direct'', ''Connect directly'')]"

definition log_levels_items :: "item list" where
  "log_levels_items = [(''trace'', ''Trace''), (''debug'', ''Debug''), (''info'', ''Info''),
                       (''warn'', ''Warnings''), (''error'', ''Errors'')]"

definition log_formats :: "item list" where
  "log_formats = [(''json'', ''JSON''), (''text'', ''Text''), (''pretty'', ''Pretty'')]"

definition mode_names :: "(routing_mode \<times> string) list" where
  "mode_names = [(ModeDirect, ''direct''), (ModeUpstream, ''upstream''), (ModePac, ''pac'')]"

definition auth_mode_names :: "(auth_mode \<times> string) list" where
  "auth_mode_names = [(AuthNone, ''none''), (AuthBasic, ''basic''), (AuthNegotiate, ''negotiate'')]"

definition package_names :: "(sspi_package \<times> string) list" where
  "package_names = [(PkgNtlm, ''ntlm''), (PkgNegotiate, ''negotiate'')]"

definition source_names :: "(pac_source \<times> string) list" where
  "source_names = [(PacAuto, ''auto''), (PacFile, ''file''), (PacUrl, ''url'')]"

definition policy_names :: "(fail_policy \<times> string) list" where
  "policy_names = [(FailError, ''error''), (FailDirect, ''direct'')]"

definition name_of :: "('a \<times> string) list \<Rightarrow> 'a \<Rightarrow> string" where
  "name_of names v = text_of (map_of names v)"

definition parse_name :: "('a \<times> string) list \<Rightarrow> string \<Rightarrow> 'a option" where
  "parse_name names s = map_of (map (\<lambda>(v, n). (n, v)) names) s"

fun index_of :: "item list \<Rightarrow> string \<Rightarrow> nat option" where
  "index_of [] name = None"
| "index_of ((n, l) # items) name = (if n = name then Some 0 else map_option Suc (index_of items name))"

definition item_labels :: "item list \<Rightarrow> string list" where
  "item_labels items = map snd items"

record choice =
  ch_options :: "item list"
  ch_selected :: "nat option"
  ch_unlisted :: "string option"

definition choice_new :: "item list \<Rightarrow> string \<Rightarrow> choice" where
  "choice_new options selected =
     \<lparr>ch_options = options, ch_selected = index_of options selected,
      ch_unlisted = (if index_of options selected = None then Some selected else None)\<rparr>"

definition choice_pick :: "string \<Rightarrow> choice \<Rightarrow> choice" where
  "choice_pick name c =
     c\<lparr>ch_unlisted := (if index_of (ch_options c) name = None then Some name else None),
       ch_selected := index_of (ch_options c) name\<rparr>"

definition choice_name :: "choice \<Rightarrow> string" where
  "choice_name c =
     (case ch_selected c of
        Some i \<Rightarrow> if i < length (ch_options c) then fst (ch_options c ! i) else text_of (ch_unlisted c)
      | None \<Rightarrow> text_of (ch_unlisted c))"

definition picked_enum :: "('a \<times> string) list \<Rightarrow> 'a \<Rightarrow> choice \<Rightarrow> 'a" where
  "picked_enum names d c = or_default d (parse_name names (choice_name c))"

subsection \<open>The widgets\<close>

text \<open>The two kinds of text field that the \<^verbatim>\<open>Builder\<close> makes.\<close>

definition build_text :: "string \<Rightarrow> string \<Rightarrow> input_state" where
  "build_text initial placeholder = input_new initial placeholder"

definition build_secret :: input_state where
  "build_secret = (input_new [] ''Leave blank to keep the saved password'')\<lparr>in_masked := True\<rparr>"

record auth_fields =
  fd_mode :: choice
  fd_package :: choice
  fd_username :: input_state
  fd_password :: input_state

record form_fields =
  fl_listen_host :: input_state
  fl_listen_port :: input_state
  fl_mode :: choice
  fl_upstream_host :: input_state
  fl_upstream_port :: input_state
  fl_upstream_auth :: auth_fields
  fl_pac_source :: choice
  fl_pac_path :: input_state
  fl_pac_url :: input_state
  fl_pac_fail_policy :: choice
  fl_pac_auth :: auth_fields
  fl_corp_suffixes :: input_state
  fl_corp_poll_seconds :: input_state
  fl_log_level :: choice
  fl_log_format :: choice
  fl_pool :: pool_config

definition build_auth_fields :: "auth_form \<Rightarrow> auth_fields" where
  "build_auth_fields a =
     \<lparr>fd_mode = choice_new auth_modes (name_of auth_mode_names (af_mode a)),
      fd_package = choice_new sspi_packages (name_of package_names (af_package a)),
      fd_username = build_text (af_username a) (''DOMAIN'' @ [CHR 0x5C] @ ''user''), fd_password = build_secret\<rparr>"

definition fields_build :: "config_form \<Rightarrow> form_fields" where
  "fields_build f =
     \<lparr>fl_listen_host = build_text (cf_listen_host f) ''127.0.0.1'', fl_listen_port = build_text (cf_listen_port f) ''3129'',
      fl_mode = choice_new routing_modes (name_of mode_names (cf_mode f)),
      fl_upstream_host = build_text (cf_upstream_host f) ''proxy.example.com'', fl_upstream_port = build_text (cf_upstream_port f) ''8080'',
      fl_upstream_auth = build_auth_fields (cf_upstream_auth f),
      fl_pac_source = choice_new pac_sources (name_of source_names (cf_pac_source f)),
      fl_pac_path = build_text (cf_pac_path f) (''C:'' @ [CHR 0x5C] @ ''path'' @ [CHR 0x5C] @ ''to'' @ [CHR 0x5C] @ ''proxy.pac''), fl_pac_url = build_text (cf_pac_url f) ''http://wpad.example.com/wpad.dat'',
      fl_pac_fail_policy = choice_new fail_policies (name_of policy_names (cf_pac_fail_policy f)),
      fl_pac_auth = build_auth_fields (cf_pac_auth f),
      fl_corp_suffixes = build_text (cf_corp_suffixes f) ''corp.example.com, lab.example.com'', fl_corp_poll_seconds = build_text (cf_corp_poll_seconds f) ''30'',
      fl_log_level = choice_new log_levels_items (cf_log_level f),
      fl_log_format = choice_new log_formats (cf_log_format f),
      fl_pool = cf_pool f\<rparr>"

definition read_auth :: "auth_fields \<Rightarrow> auth_form" where
  "read_auth a =
     \<lparr>af_mode = picked_enum auth_mode_names AuthNone (fd_mode a),
      af_package = picked_enum package_names PkgNtlm (fd_package a),
      af_username = in_value (fd_username a), af_password = in_value (fd_password a)\<rparr>"

definition fields_read :: "bool \<Rightarrow> form_fields \<Rightarrow> config_form" where
  "fields_read corp_on f =
     \<lparr>cf_listen_host = in_value (fl_listen_host f), cf_listen_port = in_value (fl_listen_port f),
      cf_mode = picked_enum mode_names ModeDirect (fl_mode f),
      cf_upstream_host = in_value (fl_upstream_host f), cf_upstream_port = in_value (fl_upstream_port f),
      cf_upstream_auth = read_auth (fl_upstream_auth f),
      cf_pac_source = picked_enum source_names PacAuto (fl_pac_source f),
      cf_pac_path = in_value (fl_pac_path f), cf_pac_url = in_value (fl_pac_url f),
      cf_pac_fail_policy = picked_enum policy_names FailError (fl_pac_fail_policy f),
      cf_pac_auth = read_auth (fl_pac_auth f),
      cf_corp_enabled = corp_on,
      cf_corp_suffixes = in_value (fl_corp_suffixes f), cf_corp_poll_seconds = in_value (fl_corp_poll_seconds f),
      cf_pool = fl_pool f,
      cf_log_level = choice_name (fl_log_level f), cf_log_format = choice_name (fl_log_format f)\<rparr>"

definition load_auth :: "auth_form \<Rightarrow> auth_fields \<Rightarrow> auth_fields" where
  "load_auth a f =
     f\<lparr>fd_mode := choice_pick (name_of auth_mode_names (af_mode a)) (fd_mode f),
       fd_package := choice_pick (name_of package_names (af_package a)) (fd_package f),
       fd_username := set_value (af_username a) (fd_username f), fd_password := set_value [] (fd_password f)\<rparr>"

definition fields_load :: "config_form \<Rightarrow> form_fields \<Rightarrow> form_fields" where
  "fields_load g f =
     f\<lparr>fl_listen_host := set_value (cf_listen_host g) (fl_listen_host f), fl_listen_port := set_value (cf_listen_port g) (fl_listen_port f),
       fl_mode := choice_pick (name_of mode_names (cf_mode g)) (fl_mode f),
       fl_upstream_host := set_value (cf_upstream_host g) (fl_upstream_host f), fl_upstream_port := set_value (cf_upstream_port g) (fl_upstream_port f),
       fl_upstream_auth := load_auth (cf_upstream_auth g) (fl_upstream_auth f),
       fl_pac_source := choice_pick (name_of source_names (cf_pac_source g)) (fl_pac_source f),
       fl_pac_path := set_value (cf_pac_path g) (fl_pac_path f), fl_pac_url := set_value (cf_pac_url g) (fl_pac_url f),
       fl_pac_fail_policy := choice_pick (name_of policy_names (cf_pac_fail_policy g)) (fl_pac_fail_policy f),
       fl_pac_auth := load_auth (cf_pac_auth g) (fl_pac_auth f),
       fl_corp_suffixes := set_value (cf_corp_suffixes g) (fl_corp_suffixes f), fl_corp_poll_seconds := set_value (cf_corp_poll_seconds g) (fl_corp_poll_seconds f),
       fl_log_level := choice_pick (cf_log_level g) (fl_log_level f),
       fl_log_format := choice_pick (cf_log_format g) (fl_log_format f),
       fl_pool := cf_pool g\<rparr>"

subsection \<open>The view\<close>

datatype view_outcome = OutSaved | OutFailed "form_error + control_error"

text \<open>\<open>cv_saving\<close> holds the configuration that a running save is applying in the background.\<close>

record config_view =
  cv_fields :: form_fields
  cv_saved :: config_form
  cv_corp_enabled :: bool
  cv_saving :: "config option"
  cv_outcome :: "view_outcome option"

definition view_open :: "'w control \<Rightarrow> config_view" where
  "view_open c =
     (let saved = from_config (config_redacted c)
      in \<lparr>cv_fields = fields_build saved, cv_saved = saved, cv_corp_enabled = cf_corp_enabled saved,
          cv_saving = None, cv_outcome = None\<rparr>)"

definition has_changes :: "config_view \<Rightarrow> bool" where
  "has_changes v \<longleftrightarrow> fields_read (cv_corp_enabled v) (cv_fields v) \<noteq> cv_saved v"

definition view_reload :: "'w control \<Rightarrow> config_view \<Rightarrow> config_view" where
  "view_reload c v =
     (let saved = from_config (config_redacted c)
      in v\<lparr>cv_saved := saved, cv_fields := fields_load saved (cv_fields v),
           cv_corp_enabled := cf_corp_enabled saved, cv_outcome := None\<rparr>)"

definition view_save :: "config_view \<Rightarrow> config_view" where
  "view_save v =
     (if cv_saving v \<noteq> None \<or> \<not> has_changes v then v
      else (case to_config (fields_read (cv_corp_enabled v) (cv_fields v)) of
              Inl err \<Rightarrow> v\<lparr>cv_outcome := Some (OutFailed (Inl err))\<rparr>
            | Inr cfg \<Rightarrow> v\<lparr>cv_saving := Some cfg, cv_outcome := None\<rparr>))"

definition view_applied :: "control_error + unit \<Rightarrow> 'w control \<Rightarrow> config_view \<Rightarrow> config_view" where
  "view_applied result c v =
     (let v = v\<lparr>cv_saving := None\<rparr> in
      case result of
        Inr _ \<Rightarrow> (view_reload c v)\<lparr>cv_outcome := Some OutSaved\<rparr>
      | Inl err \<Rightarrow> v\<lparr>cv_outcome := Some (OutFailed (Inr err))\<rparr>)"

text \<open>
  \<open>VoEdit\<close> is any change of the widgets by the user; \<open>VoApplied\<close> the end of the background
  apply and the update of the view that follows it.\<close>

datatype view_op = VoEdit form_fields bool | VoReload | VoSave | VoApplied write_outcome

fun view_step ::
    "(config \<Rightarrow> string + string) \<Rightarrow> validation_ctx \<Rightarrow> (config \<Rightarrow> 'w \<Rightarrow> 'w) option
     \<Rightarrow> config_view \<times> 'w control \<Rightarrow> view_op \<Rightarrow> (config_view \<times> 'w control) \<times> (control_error + unit) option" where
  "view_step to_json ctx hook (v, c) (VoEdit f corp_on) =
     ((v\<lparr>cv_fields := f, cv_corp_enabled := corp_on\<rparr>, c), None)"
| "view_step to_json ctx hook (v, c) VoReload = ((view_reload c v, c), None)"
| "view_step to_json ctx hook (v, c) VoSave = ((view_save v, c), None)"
| "view_step to_json ctx hook (v, c) (VoApplied outcome) =
     (case cv_saving v of
        None \<Rightarrow> ((v, c), None)
      | Some cfg \<Rightarrow>
          (case control_apply to_json ctx hook outcome cfg c of
             (c', r) \<Rightarrow> ((view_applied r c' v, c'), Some r)))"

subsection \<open>Names and drop-downs\<close>

lemma parse_name_of [simp]:
  "parse_name mode_names (name_of mode_names m) = Some m"
  "parse_name auth_mode_names (name_of auth_mode_names a) = Some a"
  "parse_name package_names (name_of package_names k) = Some k"
  "parse_name source_names (name_of source_names s) = Some s"
  "parse_name policy_names (name_of policy_names p) = Some p"
  unfolding parse_name_def name_of_def text_of_def
  by ((cases m; simp add: mode_names_def), (cases a; simp add: auth_mode_names_def),
      (cases k; simp add: package_names_def), (cases s; simp add: source_names_def),
      (cases p; simp add: policy_names_def))

lemma index_of_Some: "index_of items name = Some i \<Longrightarrow> i < length items \<and> fst (items ! i) = name"
  by (induction items name arbitrary: i rule: index_of.induct) (auto split: if_splits)

text \<open>A drop-down shows the name it was given, whether its list offers it or not.\<close>

lemma choice_name_new [simp]: "choice_name (choice_new options name) = name"
  by (auto simp: choice_name_def choice_new_def text_of_def dest: index_of_Some split: option.split)

lemma choice_name_pick [simp]: "choice_name (choice_pick name c) = name"
  by (auto simp: choice_name_def choice_pick_def text_of_def dest: index_of_Some split: option.split)

lemma input_simps [simp]:
  "in_value (build_text t p) = t" "in_value (set_value t i) = t" "in_value build_secret = []"
  by (simp_all add: build_text_def build_secret_def input_new_def set_value_def)

lemma picked_enum_simps [simp]:
  "parse_name names n = Some v \<Longrightarrow> picked_enum names d (choice_new options n) = v"
  "parse_name names n = Some v \<Longrightarrow> picked_enum names d (choice_pick n c) = v"
  by (simp_all add: picked_enum_def or_default_def)

definition blank_passwords :: "config_form \<Rightarrow> bool" where
  "blank_passwords g \<longleftrightarrow> af_password (cf_upstream_auth g) = [] \<and> af_password (cf_pac_auth g) = []"

lemma fields_read_load:
  "blank_passwords g \<Longrightarrow> fields_read (cf_corp_enabled g) (fields_load g f) = g"
  by (simp add: fields_read_def fields_load_def read_auth_def load_auth_def blank_passwords_def)

lemma fields_read_build:
  "blank_passwords g \<Longrightarrow> fields_read (cf_corp_enabled g) (fields_build g) = g"
  by (simp add: fields_read_def fields_build_def read_auth_def build_auth_fields_def blank_passwords_def)

lemma redacted_form_blank [simp]: "blank_passwords (from_config (without_secrets cfg))"
  by (cases "rt_upstream (cfg_routing cfg)"; cases "rt_pac (cfg_routing cfg)")
    (simp_all add: blank_passwords_def from_config_def Let_def without_secrets_def map_auth_slots_def
      from_auth_def or_default_def text_of_def blank_upstream_def default_pac_def default_auth_def)

subsection \<open>Saving back an untouched form\<close>

definition no_edges :: "string \<Rightarrow> bool" where
  "no_edges s \<longleftrightarrow> trim s = s"

definition auth_keeps :: "auth_config \<Rightarrow> bool" where
  "auth_keeps a \<longleftrightarrow> (case auth_username a of None \<Rightarrow> True | Some u \<Rightarrow> u \<noteq> [] \<and> no_edges u) \<and> auth_password a = None"

definition option_keeps :: "string option \<Rightarrow> bool" where
  "option_keeps s \<longleftrightarrow> (case s of None \<Rightarrow> True | Some t \<Rightarrow> t \<noteq> [] \<and> no_edges t)"

text \<open>
  The configurations that the form can show without loss: texts without surrounding blanks,
  the section of the selected mode and no other, and suffixes that hold no separator.\<close>

definition form_keeps :: "config \<Rightarrow> bool" where
  "form_keeps cfg \<longleftrightarrow>
     (let r = cfg_routing cfg in
      no_edges (listen_host (cfg_listen cfg)) \<and>
      no_edges (log_level (cfg_logging cfg)) \<and> no_edges (log_format (cfg_logging cfg)) \<and>
      (case rt_upstream r of None \<Rightarrow> rt_mode r \<noteq> ModeUpstream
       | Some u \<Rightarrow> rt_mode r = ModeUpstream \<and> no_edges (up_host u) \<and> up_port u \<noteq> 0 \<and> auth_keeps (up_auth u)) \<and>
      (case rt_pac r of None \<Rightarrow> rt_mode r \<noteq> ModePac
       | Some p \<Rightarrow> rt_mode r = ModePac \<and> option_keeps (pac_path p) \<and> option_keeps (pac_url p) \<and> auth_keeps (pac_auth p)) \<and>
      (case rt_corp_network r of None \<Rightarrow> True
       | Some c \<Rightarrow> rt_mode r \<noteq> ModeDirect \<and> (corp_enabled c \<or> corp_dns_suffixes c \<noteq> []) \<and>
           list_all (\<lambda>s. s \<noteq> [] \<and> no_edges s \<and> list_all (\<lambda>x. \<not> suffix_sep x) s) (corp_dns_suffixes c)))"

lemma non_blank_text_of: "option_keeps s \<Longrightarrow> non_blank (text_of s) = s"
  by (cases s) (auto simp: option_keeps_def non_blank_def text_of_def no_edges_def trim_no_ws)

lemma to_from_auth: "auth_keeps a \<Longrightarrow> to_auth (from_auth a) = a"
  by (cases "auth_username a")
    (auto simp: auth_keeps_def to_auth_def from_auth_def non_blank_def text_of_def no_edges_def)

lemma trim_space: "trim (CHR '' '' # s) = trim s"
  by (simp add: trim_def trim_matches_def trim_start_matches_def is_ws_def)

lemma split_suffixes_Nil [simp]: "split_suffixes [] = []"
  by (simp add: split_suffixes_def trim_def trim_matches_def trim_start_matches_def trim_end_matches_def)

lemma split_suffixes_join:
  "list_all (\<lambda>s. s \<noteq> [] \<and> no_edges s \<and> list_all (\<lambda>x. \<not> suffix_sep x) s) ss \<Longrightarrow>
     split_suffixes (join '', '' ss) = ss"
proof -
  have space: "split_suffixes (CHR '' '' # t) = split_suffixes t" for t
    by (cases "split_on suffix_sep t")
      (auto simp: split_suffixes_def suffix_sep_def trim_space split: list.splits)
  assume "list_all (\<lambda>s. s \<noteq> [] \<and> no_edges s \<and> list_all (\<lambda>x. \<not> suffix_sep x) s) ss"
  then show ?thesis
  proof (induction ss)
    case Nil
    then show ?case by (simp add: split_suffixes_def)
  next
    case (Cons s ss)
    have s: "split_on suffix_sep s = [s]"
      using Cons.prems by (intro split_on_no_sep) (simp add: list_all_iff)
    show ?case
    proof (cases ss)
      case Nil
      then show ?thesis using Cons.prems s by (simp add: split_suffixes_def no_edges_def)
    next
      case (Cons w ws)
      have "split_suffixes (join '', '' (s # ss)) = s # split_suffixes (CHR '' '' # join '', '' ss)"
        using Cons.prems s Cons
        by (simp add: split_suffixes_def split_on_append_sep suffix_sep_def no_edges_def)
      then show ?thesis using space Cons.IH Cons.prems by simp
    qed
  qed
qed

lemma parse_port_show [simp]: "parse_port field (show_word p) = Inr p"
  by (simp add: parse_port_def)

text \<open>C23
  An untouched form saves back exactly what it was filled from, for every redacted
  configuration it can show without loss: ports, numbers, the comma-separated suffix list,
  optional texts, the sections of the mode and the pool settings that are not on screen all
  survive the way through text.\<close>

theorem form_roundtrip:
  assumes "form_keeps cfg"
  shows "to_config (from_config cfg) = Inr cfg"
proof -
  let ?r = "cfg_routing cfg"
  let ?f = "from_config cfg"
  have up: "(if rt_mode ?r = ModeUpstream then map_sum id Some (form_upstream ?f) else Inr None) = Inr (rt_upstream ?r)"
    using assms
    by (auto simp: form_keeps_def Let_def form_upstream_def from_config_def or_default_def port_text_def
        to_from_auth no_edges_def split: option.splits)
  have pac: "(if rt_mode ?r = ModePac then Some (form_pac ?f) else None) = rt_pac ?r"
    using assms
    by (auto simp: form_keeps_def Let_def form_pac_def from_config_def or_default_def to_from_auth
        non_blank_text_of split: option.splits)
  have corp: "(if rt_mode ?r = ModeUpstream \<or> rt_mode ?r = ModePac then form_corp ?f else Inr None)
      = Inr (rt_corp_network ?r)"
    using assms
    by (cases "rt_mode ?r"; cases "rt_corp_network ?r")
      (auto simp: form_keeps_def Let_def form_corp_def from_config_def or_default_def split_suffixes_join
        default_corp_def)
  have mode: "cf_mode ?f = rt_mode ?r" "cf_listen_port ?f = show_word (listen_port (cfg_listen cfg))"
      "cf_listen_host ?f = listen_host (cfg_listen cfg)" "cf_pool ?f = rt_pool ?r"
      "cf_log_level ?f = log_level (cfg_logging cfg)" "cf_log_format ?f = log_format (cfg_logging cfg)"
    by (simp_all add: from_config_def Let_def)
  have texts: "trim (listen_host (cfg_listen cfg)) = listen_host (cfg_listen cfg)"
      "trim (log_level (cfg_logging cfg)) = log_level (cfg_logging cfg)"
      "trim (log_format (cfg_logging cfg)) = log_format (cfg_logging cfg)"
    using assms by (simp_all add: form_keeps_def Let_def no_edges_def)
  show ?thesis
    unfolding to_config_def mode up corp pac by (simp add: texts)
qed

definition demo_config :: config where
  "demo_config = default_config\<lparr>cfg_routing := default_routing
     \<lparr>rt_mode := ModeUpstream,
      rt_upstream := Some \<lparr>up_host = ''proxy.example.com'', up_port = 8080,
        up_auth = default_auth\<lparr>auth_mode := AuthBasic, auth_username := Some ''svc''\<rparr>\<rparr>,
      rt_corp_network := Some \<lparr>corp_enabled = True, corp_dns_suffixes = [''ad.example.org'', ''corp.example''],
        corp_poll_seconds = 60\<rparr>\<rparr>\<rparr>"

lemma form_roundtrip_witness: "to_config (from_config demo_config) = Inr demo_config"
  by (rule form_roundtrip) code_simp

text \<open>C31
  A save that succeeds leaves the form showing the configuration the proxy runs with, with no
  password and nothing left to save; a save that fails leaves every field as the user typed it.
  Either way the view is ready for the next save.\<close>

theorem save_cycle:
  assumes "cv_saving v = Some cfg"
  shows "case view_step to_json ctx hook (v, c) (VoApplied outcome) of
    ((v', c'), Some (Inr _)) \<Rightarrow>
      fields_read (cv_corp_enabled v') (cv_fields v') = from_config (config_redacted c')
      \<and> \<not> has_changes v' \<and> cv_saving v' = None
  | ((v', c'), Some (Inl e)) \<Rightarrow>
      cv_fields v' = cv_fields v \<and> cv_corp_enabled v' = cv_corp_enabled v \<and> cv_saving v' = None
      \<and> ct_config c' = ct_config c
  | (_, None) \<Rightarrow> False"
proof -
  obtain c' r where call: "control_apply to_json ctx hook outcome cfg c = (c', r)" by fastforce
  have unchanged: "r = Inl e \<Longrightarrow> ct_config c' = ct_config c" for e
    using call by (cases rule: control_apply_cases) (auto simp: unsaved_as_def)
  have blank: "blank_passwords (from_config (config_redacted c'))" by (simp add: config_redacted_def)
  show ?thesis
    using assms call unchanged fields_read_load [OF blank]
    by (auto simp: view_applied_def view_reload_def has_changes_def Let_def split: sum.split)
qed

lemma save_cycle_witness:
  "case view_step (\<lambda>_. Inr ''{}'') ctx_windows None
      ((view_open (control_new demo_config [] [] ()))\<lparr>cv_saving := Some demo_config\<rparr>, control_new demo_config [] [] ())
      (VoApplied Written) of
    ((v', c'), Some (Inr _)) \<Rightarrow>
      fields_read (cv_corp_enabled v') (cv_fields v') = from_config (config_redacted c')
      \<and> \<not> has_changes v' \<and> cv_saving v' = None
  | ((v', c'), Some (Inl e)) \<Rightarrow>
      cv_fields v' = cv_fields ((view_open (control_new demo_config [] [] ()))\<lparr>cv_saving := Some demo_config\<rparr>)
      \<and> cv_corp_enabled v' = cv_corp_enabled ((view_open (control_new demo_config [] [] ()))\<lparr>cv_saving := Some demo_config\<rparr>)
      \<and> cv_saving v' = None \<and> ct_config c' = ct_config (control_new demo_config [] [] ())
  | (_, None) \<Rightarrow> False"
  by (rule save_cycle [where cfg = demo_config]) simp

text \<open>While a save is running another one does nothing, so applies never overlap.\<close>

lemma save_while_saving: "cv_saving v = Some cfg \<Longrightarrow> view_save v = v"
  by (simp add: view_save_def)

lemma open_view_has_no_changes: "\<not> has_changes (view_open c)"
  by (simp add: has_changes_def view_open_def Let_def fields_read_build config_redacted_def)

subsection \<open>Where the form and its comments part\<close>

text \<open>The port message asks for 1 to 65535, yet 0 parses.\<close>

lemma port_zero_parses: "parse_port ''Listen port'' ''0'' = Inr 0"
  by code_simp

text \<open>A zero interval is not replaced by the default, as the constant's comment says.\<close>

lemma zero_poll_stays_zero:
  "map_sum id (map_option corp_poll_seconds) (form_corp ((from_config demo_config)\<lparr>cf_corp_poll_seconds := ''0''\<rparr>))
     = Inr (Some 0)"
  by code_simp

text \<open>
  A stored user name with surrounding blanks is valid, but the form trims it; the stored
  password is then not recognised as belonging to it and is dropped by an unrelated edit.\<close>

definition padded_config :: config where
  "padded_config = default_config\<lparr>cfg_routing := default_routing
     \<lparr>rt_mode := ModeUpstream,
      rt_upstream := Some \<lparr>up_host = ''proxy'', up_port = 8080,
        up_auth = default_auth\<lparr>auth_mode := AuthBasic, auth_username := Some '' svc'',
                                auth_password := Some ''secret''\<rparr>\<rparr>\<rparr>\<rparr>"

lemma padded_username_loses_password:
  "validate padded_config ctx_windows = Inr () \<and>
   map_sum id (\<lambda>cfg. map auth_password (auth_slots (keep_secrets_from cfg padded_config)))
     (to_config (from_config (without_secrets padded_config))) = Inr [None]"
  by code_simp

text \<open>Edits made while a save is running are overwritten when it succeeds.\<close>

lemma edits_during_save_are_lost:
  "cv_saving v = Some cfg \<Longrightarrow>
   snd (run (view_step to_json ctx hook) (v, c) [VoEdit f b, VoApplied Written]) = [None, Some (Inr ())] \<Longrightarrow>
   fst (fst (run (view_step to_json ctx hook) (v, c) [VoEdit f b, VoApplied Written])) =
     (let c' = fst (control_apply to_json ctx hook Written cfg c); g = from_config (config_redacted c')
      in v\<lparr>cv_saved := g, cv_fields := fields_load g f, cv_corp_enabled := cf_corp_enabled g,
           cv_saving := None, cv_outcome := Some OutSaved\<rparr>)"
  by (auto simp: view_applied_def view_reload_def Let_def split: prod.splits sum.splits)

end
