(* ===== verification/Config_Json.thy ===== *)
theory Config_Json
  imports Config
begin

text \<open>
  The stored form of the configuration: what the serde attributes of
  \<^verbatim>\<open>crates/zicade-config/src/model.rs\<close> derive, and \<^verbatim>\<open>io.rs\<close>. A JSON document is
  the value that serde reads from or hands to the text layer; an object keeps the order and
  the repetitions of its members, because a repeated member is an error. Reading and printing
  the text is \<^verbatim>\<open>serde_json\<close>'s and is an argument of the definitions that use it.
  The lemmas: what is saved reads back as the same configuration, what an absent, unknown or
  repeated member means, and that a redacted configuration has no password member at any depth.
\<close>

subsection \<open>JSON documents\<close>

text \<open>A number with a fraction or an exponent is a \<open>JFloat\<close>, kept as its text.\<close>

datatype json = JNull | JBool bool | JNum int | JFloat string | JStr string
  | JArr "json list" | JObj "(string \<times> json) list"

text \<open>The member names of a document, at every depth.\<close>

fun member_names :: "json \<Rightarrow> string list" where
  "member_names (JArr vs) = concat (map member_names vs)"
| "member_names (JObj kvs) = concat (map (\<lambda>(k, v). k # member_names v) kvs)"
| "member_names _ = []"

subsection \<open>The readers of the field types\<close>

definition json_bool :: "json \<Rightarrow> bool option" where
  "json_bool j = (case j of JBool b \<Rightarrow> Some b | _ \<Rightarrow> None)"

definition json_string :: "json \<Rightarrow> string option" where
  "json_string j = (case j of JStr s \<Rightarrow> Some s | _ \<Rightarrow> None)"

text \<open>An unsigned integer below \<open>bound\<close>; a float is refused even when it is whole.\<close>

definition json_uint :: "int \<Rightarrow> json \<Rightarrow> int option" where
  "json_uint bound j = (case j of JNum n \<Rightarrow> if 0 \<le> n \<and> n < bound then Some n else None | _ \<Rightarrow> None)"

definition json_u16 :: "json \<Rightarrow> u16 option" where
  "json_u16 j = map_option of_int (json_uint (2 ^ 16) j)"

definition json_u64 :: "json \<Rightarrow> u64 option" where
  "json_u64 j = map_option of_int (json_uint (2 ^ 64) j)"

definition json_usize :: "json \<Rightarrow> nat option" where
  "json_usize j = map_option nat (json_uint (2 ^ 64) j)"

definition json_option :: "(json \<Rightarrow> 'a option) \<Rightarrow> json \<Rightarrow> 'a option option" where
  "json_option dec j = (case j of JNull \<Rightarrow> Some None | _ \<Rightarrow> map_option Some (dec j))"

primrec json_all :: "(json \<Rightarrow> 'a option) \<Rightarrow> json list \<Rightarrow> 'a list option" where
  "json_all dec [] = Some []"
| "json_all dec (v # vs) =
     (case dec v of None \<Rightarrow> None | Some x \<Rightarrow> map_option ((#) x) (json_all dec vs))"

definition json_vec :: "(json \<Rightarrow> 'a option) \<Rightarrow> json \<Rightarrow> 'a list option" where
  "json_vec dec j = (case j of JArr vs \<Rightarrow> json_all dec vs | _ \<Rightarrow> None)"

text \<open>A variant without data is its name, or an object of that one name with a null.\<close>

definition json_variant :: "(string \<times> 'a) list \<Rightarrow> json \<Rightarrow> 'a option" where
  "json_variant names j =
     (case j of
        JStr s \<Rightarrow> map_of names s
      | JObj [(s, JNull)] \<Rightarrow> map_of names s
      | _ \<Rightarrow> None)"

subsection \<open>The readers of the structs\<close>

text \<open>
  A derived struct reader takes an object, or an array with the fields in their order and no
  more. In an object an unknown member is skipped and a repeated known one is an error; an
  absent field takes \<open>missing\<close>, which is its default or, for a required one, nothing.
\<close>

definition members_of :: "string \<Rightarrow> (string \<times> json) list \<Rightarrow> json list" where
  "members_of key kvs = map snd (List.filter (\<lambda>kv. fst kv = key) kvs)"

definition struct_shape :: "nat \<Rightarrow> json \<Rightarrow> bool" where
  "struct_shape n j = (case j of JObj _ \<Rightarrow> True | JArr vs \<Rightarrow> length vs \<le> n | _ \<Rightarrow> False)"

definition field :: "nat \<Rightarrow> string \<Rightarrow> (json \<Rightarrow> 'a option) \<Rightarrow> 'a option \<Rightarrow> json \<Rightarrow> 'a option" where
  "field i key dec missing j =
     (case j of
        JObj kvs \<Rightarrow> (case members_of key kvs of [] \<Rightarrow> missing | [v] \<Rightarrow> dec v | _ \<Rightarrow> None)
      | JArr vs \<Rightarrow> if i < length vs then dec (vs ! i) else missing
      | _ \<Rightarrow> None)"

definition auth_mode_variants :: "(string \<times> auth_mode) list" where
  "auth_mode_variants = [(''none'', AuthNone), (''basic'', AuthBasic), (''negotiate'', AuthNegotiate)]"

definition sspi_package_variants :: "(string \<times> sspi_package) list" where
  "sspi_package_variants = [(''ntlm'', PkgNtlm), (''negotiate'', PkgNegotiate)]"

definition routing_mode_variants :: "(string \<times> routing_mode) list" where
  "routing_mode_variants = [(''direct'', ModeDirect), (''upstream'', ModeUpstream), (''pac'', ModePac)]"

definition pac_source_variants :: "(string \<times> pac_source) list" where
  "pac_source_variants = [(''auto'', PacAuto), (''file'', PacFile), (''url'', PacUrl)]"

definition fail_policy_variants :: "(string \<times> fail_policy) list" where
  "fail_policy_variants = [(''error'', FailError), (''direct'', FailDirect)]"

definition auth_of_json :: "json \<Rightarrow> auth_config option" where
  "auth_of_json j =
     (if struct_shape 4 j
      then Option.bind (field 0 ''mode'' (json_variant auth_mode_variants) (Some AuthNone) j) (\<lambda>mode.
           Option.bind (field 1 ''package'' (json_variant sspi_package_variants) (Some PkgNtlm) j) (\<lambda>package.
           Option.bind (field 2 ''username'' (json_option json_string) (Some None) j) (\<lambda>username.
           Option.bind (field 3 ''password'' (json_option json_string) (Some None) j) (\<lambda>password.
           Some \<lparr>auth_mode = mode, auth_package = package,
                 auth_username = username, auth_password = password\<rparr>))))
      else None)"

definition listen_of_json :: "json \<Rightarrow> listen_config option" where
  "listen_of_json j =
     (if struct_shape 2 j
      then Option.bind (field 0 ''host'' json_string None j) (\<lambda>host.
           Option.bind (field 1 ''port'' json_u16 None j) (\<lambda>port.
           Some \<lparr>listen_host = host, listen_port = port\<rparr>))
      else None)"

definition upstream_of_json :: "json \<Rightarrow> upstream_config option" where
  "upstream_of_json j =
     (if struct_shape 3 j
      then Option.bind (field 0 ''host'' json_string None j) (\<lambda>host.
           Option.bind (field 1 ''port'' json_u16 None j) (\<lambda>port.
           Option.bind (field 2 ''auth'' auth_of_json (Some default_auth) j) (\<lambda>auth.
           Some \<lparr>up_host = host, up_port = port, up_auth = auth\<rparr>)))
      else None)"

definition pool_of_json :: "json \<Rightarrow> pool_config option" where
  "pool_of_json j =
     (if struct_shape 3 j
      then Option.bind (field 0 ''enabled'' json_bool (Some False) j) (\<lambda>enabled.
           Option.bind (field 1 ''minIdle'' json_usize (Some default_min_idle) j) (\<lambda>min_idle.
           Option.bind (field 2 ''idleTimeoutSeconds'' json_u64 (Some default_idle_timeout_seconds) j)
             (\<lambda>timeout.
           Some \<lparr>pool_enabled = enabled, pool_min_idle = min_idle,
                 pool_idle_timeout_seconds = timeout\<rparr>)))
      else None)"

definition pac_of_json :: "json \<Rightarrow> pac_config option" where
  "pac_of_json j =
     (if struct_shape 5 j
      then Option.bind (field 0 ''source'' (json_variant pac_source_variants) None j) (\<lambda>source.
           Option.bind (field 1 ''path'' (json_option json_string) (Some None) j) (\<lambda>path.
           Option.bind (field 2 ''url'' (json_option json_string) (Some None) j) (\<lambda>url.
           Option.bind (field 3 ''failPolicy'' (json_variant fail_policy_variants) (Some FailError) j)
             (\<lambda>policy.
           Option.bind (field 4 ''auth'' auth_of_json (Some default_auth) j) (\<lambda>auth.
           Some \<lparr>pac_source = source, pac_path = path, pac_url = url,
                 pac_fail_policy = policy, pac_auth = auth\<rparr>)))))
      else None)"

definition corp_of_json :: "json \<Rightarrow> corp_network_config option" where
  "corp_of_json j =
     (if struct_shape 3 j
      then Option.bind (field 0 ''enabled'' json_bool (Some False) j) (\<lambda>enabled.
           Option.bind (field 1 ''dnsSuffixes'' (json_vec json_string) (Some []) j) (\<lambda>dns_suffixes.
           Option.bind (field 2 ''pollSeconds'' json_u64 (Some default_poll_seconds) j) (\<lambda>poll.
           Some \<lparr>corp_enabled = enabled, corp_dns_suffixes = dns_suffixes,
                 corp_poll_seconds = poll\<rparr>)))
      else None)"

definition routing_of_json :: "json \<Rightarrow> routing_config option" where
  "routing_of_json j =
     (if struct_shape 5 j
      then Option.bind (field 0 ''mode'' (json_variant routing_mode_variants) None j) (\<lambda>mode.
           Option.bind (field 1 ''upstream'' (json_option upstream_of_json) (Some None) j) (\<lambda>upstream.
           Option.bind (field 2 ''pac'' (json_option pac_of_json) (Some None) j) (\<lambda>pac.
           Option.bind (field 3 ''corpNetwork'' (json_option corp_of_json) (Some None) j) (\<lambda>corp.
           Option.bind (field 4 ''pool'' pool_of_json (Some default_pool) j) (\<lambda>pool.
           Some \<lparr>rt_mode = mode, rt_upstream = upstream, rt_pac = pac,
                 rt_corp_network = corp, rt_pool = pool\<rparr>)))))
      else None)"

definition logging_of_json :: "json \<Rightarrow> logging_config option" where
  "logging_of_json j =
     (if struct_shape 2 j
      then Option.bind (field 0 ''level'' json_string None j) (\<lambda>level.
           Option.bind (field 1 ''format'' json_string None j) (\<lambda>format.
           Some \<lparr>log_level = level, log_format = format\<rparr>))
      else None)"

definition config_of_json :: "json \<Rightarrow> config option" where
  "config_of_json j =
     (if struct_shape 3 j
      then Option.bind (field 0 ''listen'' listen_of_json (Some default_listen) j) (\<lambda>listen.
           Option.bind (field 1 ''routing'' routing_of_json (Some default_routing) j) (\<lambda>routing.
           Option.bind (field 2 ''logging'' logging_of_json (Some default_logging) j) (\<lambda>logging.
           Some \<lparr>cfg_listen = listen, cfg_routing = routing, cfg_logging = logging\<rparr>)))
      else None)"

subsection \<open>Writing a configuration\<close>

text \<open>\<open>member_unless_none\<close> is \<^verbatim>\<open>skip_serializing_if = "Option::is_none"\<close>.\<close>

definition member_unless_none :: "string \<Rightarrow> ('a \<Rightarrow> json) \<Rightarrow> 'a option \<Rightarrow> (string \<times> json) list" where
  "member_unless_none key enc v = (case v of None \<Rightarrow> [] | Some x \<Rightarrow> [(key, enc x)])"

definition json_of_auth_mode :: "auth_mode \<Rightarrow> json" where
  "json_of_auth_mode m =
     JStr (case m of AuthNone \<Rightarrow> ''none'' | AuthBasic \<Rightarrow> ''basic'' | AuthNegotiate \<Rightarrow> ''negotiate'')"

definition json_of_package :: "sspi_package \<Rightarrow> json" where
  "json_of_package p = JStr (case p of PkgNtlm \<Rightarrow> ''ntlm'' | PkgNegotiate \<Rightarrow> ''negotiate'')"

definition json_of_mode :: "routing_mode \<Rightarrow> json" where
  "json_of_mode m =
     JStr (case m of ModeDirect \<Rightarrow> ''direct'' | ModeUpstream \<Rightarrow> ''upstream'' | ModePac \<Rightarrow> ''pac'')"

definition json_of_source :: "pac_source \<Rightarrow> json" where
  "json_of_source s = JStr (case s of PacAuto \<Rightarrow> ''auto'' | PacFile \<Rightarrow> ''file'' | PacUrl \<Rightarrow> ''url'')"

definition json_of_policy :: "fail_policy \<Rightarrow> json" where
  "json_of_policy p = JStr (case p of FailError \<Rightarrow> ''error'' | FailDirect \<Rightarrow> ''direct'')"

definition json_of_auth :: "auth_config \<Rightarrow> json" where
  "json_of_auth a =
     JObj ([(''mode'', json_of_auth_mode (auth_mode a)), (''package'', json_of_package (auth_package a))]
           @ member_unless_none ''username'' JStr (auth_username a)
           @ member_unless_none ''password'' JStr (auth_password a))"

definition json_of_upstream :: "upstream_config \<Rightarrow> json" where
  "json_of_upstream u =
     JObj [(''host'', JStr (up_host u)), (''port'', JNum (uint (up_port u))),
           (''auth'', json_of_auth (up_auth u))]"

definition json_of_pool :: "pool_config \<Rightarrow> json" where
  "json_of_pool p =
     JObj [(''enabled'', JBool (pool_enabled p)), (''minIdle'', JNum (int (pool_min_idle p))),
           (''idleTimeoutSeconds'', JNum (uint (pool_idle_timeout_seconds p)))]"

definition json_of_pac :: "pac_config \<Rightarrow> json" where
  "json_of_pac p =
     JObj ([(''source'', json_of_source (pac_source p))]
           @ member_unless_none ''path'' JStr (pac_path p)
           @ member_unless_none ''url'' JStr (pac_url p)
           @ [(''failPolicy'', json_of_policy (pac_fail_policy p)), (''auth'', json_of_auth (pac_auth p))])"

definition json_of_corp :: "corp_network_config \<Rightarrow> json" where
  "json_of_corp c =
     JObj [(''enabled'', JBool (corp_enabled c)),
           (''dnsSuffixes'', JArr (map JStr (corp_dns_suffixes c))),
           (''pollSeconds'', JNum (uint (corp_poll_seconds c)))]"

definition json_of_routing :: "routing_config \<Rightarrow> json" where
  "json_of_routing r =
     JObj ([(''mode'', json_of_mode (rt_mode r))]
           @ member_unless_none ''upstream'' json_of_upstream (rt_upstream r)
           @ member_unless_none ''pac'' json_of_pac (rt_pac r)
           @ member_unless_none ''corpNetwork'' json_of_corp (rt_corp_network r)
           @ (if pool_is_default (rt_pool r) then [] else [(''pool'', json_of_pool (rt_pool r))]))"

definition json_of_config :: "config \<Rightarrow> json" where
  "json_of_config cfg =
     JObj [(''listen'', JObj [(''host'', JStr (listen_host (cfg_listen cfg))),
                              (''port'', JNum (uint (listen_port (cfg_listen cfg))))]),
           (''routing'', json_of_routing (cfg_routing cfg)),
           (''logging'', JObj [(''level'', JStr (log_level (cfg_logging cfg))),
                               (''format'', JStr (log_format (cfg_logging cfg)))])]"

subsection \<open>The text\<close>

text \<open>
  \<open>parse\<close> is \<^verbatim>\<open>serde_json\<close>'s reader of the text, with its message when the text is
  no JSON; \<open>refusal\<close> its message for a document the schema refuses; \<open>pretty\<close> its printer.
\<close>

definition from_json_str ::
    "(string \<Rightarrow> string + json) \<Rightarrow> (json \<Rightarrow> string) \<Rightarrow> string \<Rightarrow> config_error + config" where
  "from_json_str parse refusal s =
     (case parse s of
        Inl e \<Rightarrow> Inl (CfgParse e)
      | Inr j \<Rightarrow> (case config_of_json j of None \<Rightarrow> Inl (CfgParse (refusal j)) | Some cfg \<Rightarrow> Inr cfg))"

definition to_json_string :: "(json \<Rightarrow> string) \<Rightarrow> config \<Rightarrow> config_error + string" where
  "to_json_string pretty cfg = Inr (pretty (json_of_config cfg))"

subsection \<open>Members and fields\<close>

named_theorems json_simps \<open>reading a member of a document that the writers build\<close>

lemma members_of_Nil [json_simps]: "members_of key [] = []"
  by (simp add: members_of_def)

lemma members_of_Cons [json_simps]:
  "members_of key ((k, v) # kvs) = (if k = key then v # members_of key kvs else members_of key kvs)"
  by (simp add: members_of_def)

lemma members_of_append [json_simps]: "members_of key (xs @ ys) = members_of key xs @ members_of key ys"
  by (simp add: members_of_def)

lemma members_of_unless_none [json_simps]:
  "members_of key (member_unless_none k enc v) =
     (if k = key then (case v of None \<Rightarrow> [] | Some x \<Rightarrow> [enc x]) else [])"
  by (simp add: member_unless_none_def members_of_def split: option.split)

lemma field_JObj [json_simps]:
  "field i key dec missing (JObj kvs) =
     (case members_of key kvs of [] \<Rightarrow> missing | [v] \<Rightarrow> dec v | _ \<Rightarrow> None)"
  by (simp add: field_def)

lemma struct_shape_JObj [json_simps]: "struct_shape n (JObj kvs)"
  by (simp add: struct_shape_def)

lemma field_unknown_member:
  assumes "k \<noteq> key"
  shows "field i key dec missing (JObj (xs @ (k, v) # ys)) = field i key dec missing (JObj (xs @ ys))"
  using assms by (simp add: json_simps)

lemma field_repeated_member:
  "field i key dec missing (JObj (xs @ (key, v) # ys @ (key, w) # zs)) = None"
  by (simp add: json_simps split: list.split)

subsection \<open>Codecs\<close>

text \<open>
  The contract between a writer and the reader of its type, on the values that the type of the
  code has: what is written is no null and reads back. A struct that has a field of the type
  reads it back where it was left out, where it stands alone and where it stands in a list.
\<close>

locale json_codec =
  fixes enc :: "'a \<Rightarrow> json"
    and dec :: "json \<Rightarrow> 'a option"
    and fits :: "'a \<Rightarrow> bool"
  assumes reads_back: "fits x \<Longrightarrow> dec (enc x) = Some x"
    and not_null: "enc x \<noteq> JNull"
begin

lemma enc_inj: "fits x \<Longrightarrow> fits y \<Longrightarrow> enc x = enc y \<Longrightarrow> x = y"
  by (metis option.inject reads_back)

lemma option_reads_back: "fits x \<Longrightarrow> json_option dec (enc x) = Some (Some x)"
  using reads_back [of x] not_null [of x] by (cases "enc x") (simp_all add: json_option_def)

lemma vec_reads_back: "list_all fits xs \<Longrightarrow> json_vec dec (JArr (map enc xs)) = Some xs"
  unfolding json_vec_def by (induction xs) (simp_all add: reads_back)

lemma member_reads_back:
  "pred_option fits v \<Longrightarrow>
     field i key (json_option dec) (Some None) (JObj (member_unless_none key enc v)) = Some v"
  by (cases v) (simp_all add: field_def members_of_def member_unless_none_def option_reads_back)

end

subsection \<open>What is written reads back\<close>

lemma json_u16_uint [json_simps]: "json_u16 (JNum (uint n)) = Some n"
  using uint_lt2p [of n] by (simp add: json_u16_def json_uint_def)

lemma json_u64_uint [json_simps]: "json_u64 (JNum (uint n)) = Some n"
  using uint_lt2p [of n] by (simp add: json_u64_def json_uint_def)

lemma json_usize_int [json_simps]: "n < 2 ^ 64 \<Longrightarrow> json_usize (JNum (int n)) = Some n"
  by (simp add: json_usize_def json_uint_def)

lemma json_bool_JBool [json_simps]: "json_bool (JBool b) = Some b"
  by (simp add: json_bool_def)

lemma json_string_JStr [json_simps]: "json_string (JStr s) = Some s"
  by (simp add: json_string_def)

interpretation string_codec: json_codec JStr json_string "\<lambda>_. True"
  by unfold_locales (simp_all add: json_string_JStr)

lemmas string_reads_back [json_simps] =
  string_codec.option_reads_back [OF TrueI] string_codec.vec_reads_back [unfolded list.pred_True, OF TrueI]

lemma variants_read_back [json_simps]:
  "json_variant auth_mode_variants (json_of_auth_mode am) = Some am"
  "json_variant sspi_package_variants (json_of_package sp) = Some sp"
  "json_variant routing_mode_variants (json_of_mode rm) = Some rm"
  "json_variant pac_source_variants (json_of_source ps) = Some ps"
  "json_variant fail_policy_variants (json_of_policy fp) = Some fp"
  unfolding json_variant_def
  by ((cases am; simp add: auth_mode_variants_def json_of_auth_mode_def),
      (cases sp; simp add: sspi_package_variants_def json_of_package_def),
      (cases rm; simp add: routing_mode_variants_def json_of_mode_def),
      (cases ps; simp add: pac_source_variants_def json_of_source_def),
      (cases fp; simp add: fail_policy_variants_def json_of_policy_def))

lemma auth_reads_back [json_simps]: "auth_of_json (json_of_auth a) = Some a"
  by (cases "auth_username a"; cases "auth_password a")
    (simp_all add: auth_of_json_def json_of_auth_def json_simps)

lemma upstream_reads_back [json_simps]: "upstream_of_json (json_of_upstream u) = Some u"
  by (simp add: upstream_of_json_def json_of_upstream_def json_simps)

lemma pool_reads_back [json_simps]:
  "pool_min_idle p < 2 ^ 64 \<Longrightarrow> pool_of_json (json_of_pool p) = Some p"
  by (simp add: pool_of_json_def json_of_pool_def json_simps)

lemma pac_reads_back [json_simps]: "pac_of_json (json_of_pac p) = Some p"
  by (cases "pac_path p"; cases "pac_url p")
    (simp_all add: pac_of_json_def json_of_pac_def json_simps)

lemma corp_reads_back [json_simps]: "corp_of_json (json_of_corp c) = Some c"
  by (simp add: corp_of_json_def json_of_corp_def json_simps)

interpretation upstream_codec: json_codec json_of_upstream upstream_of_json "\<lambda>_. True"
  by unfold_locales (rule upstream_reads_back, simp add: json_of_upstream_def)

interpretation pac_codec: json_codec json_of_pac pac_of_json "\<lambda>_. True"
  by unfold_locales (rule pac_reads_back, simp add: json_of_pac_def)

interpretation corp_codec: json_codec json_of_corp corp_of_json "\<lambda>_. True"
  by unfold_locales (rule corp_reads_back, simp add: json_of_corp_def)

lemmas section_reads_back [json_simps] =
  upstream_codec.option_reads_back [OF TrueI] pac_codec.option_reads_back [OF TrueI]
  corp_codec.option_reads_back [OF TrueI]

lemma routing_reads_back [json_simps]:
  assumes "pool_min_idle (rt_pool r) < 2 ^ 64"
  shows "routing_of_json (json_of_routing r) = Some r"
proof -
  have pool: "field 4 ''pool'' pool_of_json (Some default_pool) (json_of_routing r) = Some (rt_pool r)"
    using assms by (simp add: json_of_routing_def json_simps pool_is_default_def)
  have rest: "members_of key (if pool_is_default (rt_pool r) then [] else [(''pool'', j)]) = []"
    if "key \<noteq> ''pool''" for key j using that by (simp add: json_simps)
  show ?thesis
    unfolding routing_of_json_def pool
    by (cases "rt_upstream r"; cases "rt_pac r"; cases "rt_corp_network r")
      (simp_all add: json_of_routing_def json_simps rest)
qed

lemma config_reads_back:
  assumes "pool_min_idle (rt_pool (cfg_routing cfg)) < 2 ^ 64"
  shows "config_of_json (json_of_config cfg) = Some cfg"
  using assms by (simp add: config_of_json_def json_of_config_def listen_of_json_def
    logging_of_json_def json_simps)

text \<open>The whole document; different configurations are never stored alike.\<close>

definition config_fits :: "config \<Rightarrow> bool" where
  "config_fits cfg \<longleftrightarrow> pool_min_idle (rt_pool (cfg_routing cfg)) < 2 ^ 64"

interpretation config_codec: json_codec json_of_config config_of_json config_fits
proof
  fix cfg
  show "config_fits cfg \<Longrightarrow> config_of_json (json_of_config cfg) = Some cfg"
    unfolding config_fits_def by (rule config_reads_back)
  show "json_of_config cfg \<noteq> JNull" by (simp add: json_of_config_def)
qed

lemma stored_apart: "config_fits a \<Longrightarrow> config_fits b \<Longrightarrow> json_of_config a = json_of_config b \<Longrightarrow> a = b"
  by (rule config_codec.enc_inj)

subsection \<open>The stored configuration\<close>

text \<open>C24
  Whatever is saved reads back as the same configuration: every section present or absent,
  every enum, every optional text and every number at its width. The bound is that of the
  \<^verbatim>\<open>usize\<close> field \<^verbatim>\<open>minIdle\<close>, which the model keeps as a natural number.\<close>

theorem stored_config_roundtrip:
  assumes "pool_min_idle (rt_pool (cfg_routing cfg)) < 2 ^ 64"
  shows "config_of_json (json_of_config cfg) = Some cfg"
  by (rule config_codec.reads_back) (use assms in \<open>simp add: config_fits_def\<close>)

definition roundtrip_sample :: config where
  "roundtrip_sample =
     default_config\<lparr>cfg_routing := default_routing
       \<lparr>rt_mode := ModePac,
        rt_pac := Some (default_pac\<lparr>pac_source := PacUrl, pac_url := Some ''http://wpad/p'',
          pac_auth := default_auth\<lparr>auth_mode := AuthBasic, auth_username := Some ''u'',
                                   auth_password := Some ''p''\<rparr>\<rparr>),
        rt_pool := default_pool\<lparr>pool_enabled := True, pool_min_idle := 4\<rparr>\<rparr>\<rparr>"

theorem stored_config_roundtrip_witness:
  "config_of_json (json_of_config roundtrip_sample) = Some roundtrip_sample"
  by (rule stored_config_roundtrip) (simp add: roundtrip_sample_def)

text \<open>C25
  No password leaves through the redacted configuration: the document that the interface is
  shown has no \<^verbatim>\<open>password\<close> member, in any section and at any depth.\<close>

theorem redacted_has_no_password:
  "''password'' \<notin> set (member_names (json_of_config (without_secrets cfg)))"
proof -
  have auth: "''password'' \<notin> set (member_names (json_of_auth (a\<lparr>auth_password := None\<rparr>)))" for a
    by (cases "auth_username a")
      (simp_all add: json_of_auth_def member_unless_none_def json_of_auth_mode_def json_of_package_def)
  have upstream: "''password'' \<notin> set (member_names (json_of_upstream
      (u\<lparr>up_auth := (up_auth u)\<lparr>auth_password := None\<rparr>\<rparr>)))" for u
    using auth by (simp add: json_of_upstream_def)
  have pac: "''password'' \<notin> set (member_names (json_of_pac
      (p\<lparr>pac_auth := (pac_auth p)\<lparr>auth_password := None\<rparr>\<rparr>)))" for p
    using auth by (cases "pac_path p"; cases "pac_url p")
      (simp_all add: json_of_pac_def member_unless_none_def json_of_source_def json_of_policy_def)
  have corp: "''password'' \<notin> set (member_names (json_of_corp c))" for c
    by (simp add: json_of_corp_def)
  have pool: "''password'' \<notin> set (member_names (json_of_pool p))" for p
    by (simp add: json_of_pool_def)
  show ?thesis
    using upstream pac corp pool
    by (cases "rt_upstream (cfg_routing cfg)"; cases "rt_pac (cfg_routing cfg)";
        cases "rt_corp_network (cfg_routing cfg)")
      (simp_all add: json_of_config_def json_of_routing_def without_secrets_def map_auth_slots_def
        member_unless_none_def json_of_mode_def)
qed

text \<open>A document may leave out, repeat or add members.\<close>

lemma empty_document_is_default: "config_of_json (JObj []) = Some default_config"
  by (simp add: config_of_json_def json_simps default_config_def)

lemma unknown_section_ignored:
  assumes "k \<notin> {''listen'', ''routing'', ''logging''}"
  shows "config_of_json (JObj (xs @ (k, v) # ys)) = config_of_json (JObj (xs @ ys))"
proof -
  have "struct_shape 3 (JObj (xs @ (k, v) # ys)) = struct_shape 3 (JObj (xs @ ys))"
    by (simp add: json_simps)
  with assms show ?thesis by (simp add: config_of_json_def field_unknown_member)
qed

lemma repeated_section_refused:
  assumes "k \<in> {''listen'', ''routing'', ''logging''}"
  shows "config_of_json (JObj (xs @ (k, v) # ys @ (k, w) # zs)) = None"
  using assms by (auto simp: config_of_json_def field_repeated_member Option.bind_eq_None_conv)

lemma unknown_mode_refused:
  assumes "name \<notin> {''direct'', ''upstream'', ''pac''}"
  shows "routing_of_json (JObj (xs @ (''mode'', JStr name) # ys)) = None"
proof -
  have "map_of routing_mode_variants name = None"
    using assms by (simp add: routing_mode_variants_def)
  then have "field 0 ''mode'' (json_variant routing_mode_variants) None
      (JObj (xs @ (''mode'', JStr name) # ys)) = None"
    by (auto simp: json_simps json_variant_def append_eq_Cons_conv split: list.split)
  then show ?thesis by (simp add: routing_of_json_def)
qed

text \<open>The default pool is never written, so an old document and a new one agree on it.\<close>

lemma default_pool_not_written:
  "pool_is_default (rt_pool r) \<Longrightarrow> json_of_routing r = JObj kvs \<Longrightarrow> members_of ''pool'' kvs = []"
  by (auto simp: json_of_routing_def json_simps)

text \<open>The text that is written, read by a reader that reads back what the printer prints.\<close>

lemma text_roundtrip:
  assumes "parse (pretty (json_of_config cfg)) = Inr (json_of_config cfg)"
    and "pool_min_idle (rt_pool (cfg_routing cfg)) < 2 ^ 64"
    and "to_json_string pretty cfg = Inr text"
  shows "from_json_str parse refusal text = Inr cfg"
  using assms by (auto simp: to_json_string_def from_json_str_def config_reads_back)

end
