(* ===== verification/Win_Tray.thy ===== *)
theory Win_Tray
  imports App
begin

text \<open>
  The Win32 side of the tray, \<^verbatim>\<open>crates/zicade-win/src/tray\<close>: the hidden window, its
  procedure and the message pump. Win32 itself is outside the program: its numbers are the
  fields of \<open>win32\<close>, and the outcomes of its calls are arguments. A message carries what the
  popup menu of a right click did, with the messages that the menu's own loop dispatched to
  the same window procedure meanwhile.
  The lemmas: a command that reaches the callback is one of the menu's, the icon and the
  window are removed on every way out, and the pump with the application's callback does what
  the sequence of its clicks says.
\<close>

unbundle bit_operations_syntax

subsection \<open>Menu, messages and the thread's slot\<close>

record menu_item =
  mi_id :: "32 word"
  mi_label :: string

datatype tray_control = TrayContinue | TrayQuit

record pump_state =
  ps_items :: "menu_item list"
  ps_selected :: "32 word option"

record tray_thread =
  tt_slot :: "pump_state option"
  tt_quit_posted :: bool

record win32 =
  wm_app :: "32 word"
  wm_destroy :: "32 word"
  wm_rbuttonup :: "32 word"
  wm_contextmenu :: "32 word"
  wm_lbuttonup :: "32 word"

text \<open>
  The number, the \<^verbatim>\<open>lparam\<close>, and the menu should this message open it: \<open>None\<close> when it
  could not be created, otherwise what was dispatched while it was open and the command that
  was chosen, 0 for none.
\<close>

datatype win_msg = WinMsg "32 word" "64 word" "(win_msg list \<times> 32 word) option"

datatype got = GotError | GotQuit | Got win_msg

subsection \<open>The window procedure\<close>

definition wm_tray_callback :: "win32 \<Rightarrow> 32 word" where
  "wm_tray_callback w = wm_app w + 1"

definition set_selected :: "32 word option \<Rightarrow> tray_thread \<Rightarrow> tray_thread" where
  "set_selected c th = th\<lparr>tt_slot := map_option (\<lambda>s. s\<lparr>ps_selected := c\<rparr>) (tt_slot th)\<rparr>"

definition select_default_item :: "tray_thread \<Rightarrow> tray_thread" where
  "select_default_item th =
     th\<lparr>tt_slot := map_option
          (\<lambda>s. s\<lparr>ps_selected := (case ps_items s of [] \<Rightarrow> None | item # _ \<Rightarrow> Some (mi_id item))\<rparr>)
          (tt_slot th)\<rparr>"

text \<open>The end of \<^verbatim>\<open>show_menu\<close>, once the menu is closed.\<close>

definition record_choice :: "32 word \<Rightarrow> tray_thread \<Rightarrow> tray_thread" where
  "record_choice cmd th = (if cmd \<noteq> 0 then set_selected (Some cmd) th else th)"

fun wndproc :: "win32 \<Rightarrow> tray_thread \<Rightarrow> win_msg \<Rightarrow> tray_thread" where
  "wndproc w th (WinMsg n lparam menu) =
     (if n = wm_tray_callback w
      then let event = (ucast lparam :: 32 word) AND 0xffff in
           if event = wm_rbuttonup w \<or> event = wm_contextmenu w
           then (case menu of
                   None \<Rightarrow> th
                 | Some (nested, cmd) \<Rightarrow> record_choice cmd (foldl (wndproc w) th nested))
           else if event = wm_lbuttonup w then select_default_item th
           else th
      else if n = wm_destroy w then th\<lparr>tt_quit_posted := True\<rparr>
      else th)"

subsection \<open>The pump\<close>

definition take_selected :: "tray_thread \<Rightarrow> 32 word option \<times> tray_thread" where
  "take_selected th =
     (case tt_slot th of
        None \<Rightarrow> (None, th)
      | Some s \<Rightarrow> (ps_selected s, set_selected None th))"

text \<open>
  The pump over the messages it gets; without a result it is still waiting for the next.
\<close>

fun pump_messages ::
    "win32 \<Rightarrow> ('c \<Rightarrow> 32 word \<Rightarrow> 'c \<times> tray_control) \<Rightarrow> 'c \<Rightarrow> tray_thread \<Rightarrow> got list
     \<Rightarrow> 'c \<times> tray_thread \<times> (win_error + unit) option" where
  "pump_messages w on_event c th [] = (c, th, None)"
| "pump_messages w on_event c th (GotError # _) = (c, th, Some (Inl (WinTray ''GetMessageW failed'')))"
| "pump_messages w on_event c th (GotQuit # _) = (c, th, Some (Inr ()))"
| "pump_messages w on_event c th (Got m # rest) =
     (case take_selected (wndproc w th m) of
        (None, th) \<Rightarrow> pump_messages w on_event c th rest
      | (Some cmd, th) \<Rightarrow>
          (case on_event c cmd of
             (c, TrayQuit) \<Rightarrow> (c, th, Some (Inr ()))
           | (c, TrayContinue) \<Rightarrow> pump_messages w on_event c th rest))"

subsection \<open>The window and its icon\<close>

definition win_error_message :: "win_error \<Rightarrow> string" where
  "win_error_message e =
     (case e of
        WinUnsupportedPlatform \<Rightarrow> ''unsupported platform (not Windows)''
      | WinSspi code \<Rightarrow> ''SSPI call failed: 0x'' @ hex8 code
      | WinTray msg \<Rightarrow> ''system-tray error: '' @ msg)"

text \<open>The outcomes of the calls are an error code or a handle.\<close>

definition create_window :: "32 word + 'm \<Rightarrow> 32 word + 'h \<Rightarrow> win_error + 'h" where
  "create_window module created =
     and_then (map_sum (\<lambda>e. WinTray (''GetModuleHandleW failed: 0x'' @ hex8 e)) id module) (\<lambda>_.
     map_sum (\<lambda>e. WinTray (''CreateWindowExW failed: 0x'' @ hex8 e)) id created)"

text \<open>\<open>loaded\<close> is the embedded icon, when its load gave a valid one; 0 is the null icon.\<close>

definition load_tray_icon :: "32 word + 'm \<Rightarrow> nat option \<Rightarrow> nat option \<Rightarrow> nat" where
  "load_tray_icon module loaded system =
     (case (module, loaded) of
        (Inr _, Some icon) \<Rightarrow> icon
      | _ \<Rightarrow> (case system of Some icon \<Rightarrow> icon | None \<Rightarrow> 0))"

text \<open>The tooltip's field: 128 UTF-16 units, of which the last stays zero.\<close>

definition tip_buffer :: "u16 list \<Rightarrow> u16 list" where
  "tip_buffer tooltip = foldl (\<lambda>buf (i, u). buf[i := u]) (replicate 128 0) (take 127 (enumerate 0 tooltip))"

definition add_icon :: "bool \<Rightarrow> win_error + unit" where
  "add_icon ok = (if ok then Inr () else Inl (WinTray ''Shell_NotifyIconW(NIM_ADD) failed''))"

definition delete_icon :: "bool \<Rightarrow> win_error + unit" where
  "delete_icon ok = (if ok then Inr () else Inl (WinTray ''Shell_NotifyIconW(NIM_DELETE) failed''))"

datatype tray_call = TcAddIcon | TcDeleteIcon | TcDestroyWindow

text \<open>
  \<open>DestroyWindow\<close> dispatches \<^verbatim>\<open>WM_DESTROY\<close> to the procedure before it returns. The calls made
  are listed in their order; without a result the tray is still running.
\<close>

definition run_tray ::
    "win32 \<Rightarrow> win_error + unit \<Rightarrow> bool \<Rightarrow> ('c \<Rightarrow> 32 word \<Rightarrow> 'c \<times> tray_control) \<Rightarrow> menu_item list \<Rightarrow> 'c
     \<Rightarrow> tray_thread \<Rightarrow> got list \<Rightarrow> 'c \<times> tray_thread \<times> tray_call list \<times> (win_error + unit) option" where
  "run_tray w window icon_ok on_event items c th gots =
     (case window of
        Inl e \<Rightarrow> (c, th, [], Some (Inl e))
      | Inr _ \<Rightarrow>
          (let th = th\<lparr>tt_slot := Some \<lparr>ps_items = items, ps_selected = None\<rparr>\<rparr>;
               (c, th, result) =
                 (case add_icon icon_ok of
                    Inl e \<Rightarrow> (c, th, Some (Inl e))
                  | Inr _ \<Rightarrow> pump_messages w on_event c th gots)
           in case result of
                None \<Rightarrow> (c, th, [TcAddIcon], None)
              | Some r \<Rightarrow>
                  (c, (wndproc w th (WinMsg (wm_destroy w) 0 None))\<lparr>tt_slot := None\<rparr>,
                   [TcAddIcon, TcDeleteIcon, TcDestroyWindow], Some r)))"

subsection \<open>The application's callback\<close>

text \<open>The closure of \<^verbatim>\<open>pump_tray\<close>: what it has done, and whether the server is still to be joined.\<close>

definition tray_on_event :: "tray_effect list \<times> bool \<Rightarrow> 32 word \<Rightarrow> (tray_effect list \<times> bool) \<times> tray_control" where
  "tray_on_event c i =
     (case c of (effects, server) \<Rightarrow>
      (case tray_action i of
         Some TrayOpen \<Rightarrow> ((effects @ [UiShow], server), TrayContinue)
       | Some TrayClose \<Rightarrow> ((effects @ SignalShutdown # (if server then [JoinServer] else []), False), TrayQuit)
       | None \<Rightarrow> ((effects, server), TrayContinue)))"

definition app_menu :: "menu_item list" where
  "app_menu = map (\<lambda>(i, label). \<lparr>mi_id = i, mi_label = label\<rparr>) tray_menu_items"

text \<open>What the application does while the tray runs, and at its end.\<close>

definition tray_effects ::
    "win32 \<Rightarrow> win_error + unit \<Rightarrow> bool \<Rightarrow> tray_thread \<Rightarrow> got list \<Rightarrow> tray_effect list" where
  "tray_effects w window icon_ok th gots =
     (case run_tray w window icon_ok tray_on_event app_menu ([], True) th gots of
        ((effects, _), _, _, None) \<Rightarrow> effects
      | ((effects, _), _, _, Some (Inl _)) \<Rightarrow> effects @ [SignalShutdown, UiQuit]
      | ((effects, _), _, _, Some (Inr _)) \<Rightarrow> effects @ [UiQuit])"

subsection \<open>The pump with the application's callback\<close>

text \<open>Whether the tray has ended, and if so how.\<close>

definition tray_result ::
    "win32 \<Rightarrow> win_error + unit \<Rightarrow> bool \<Rightarrow> tray_thread \<Rightarrow> got list \<Rightarrow> (win_error + unit) option" where
  "tray_result w window icon_ok th gots =
     snd (snd (snd (run_tray w window icon_ok tray_on_event app_menu ([], True) th gots)))"

lemma tray_on_event_pair:
  "tray_on_event (effects, server) i =
     (case tray_action i of
        Some TrayOpen \<Rightarrow> ((effects @ [UiShow], server), TrayContinue)
      | Some TrayClose \<Rightarrow> ((effects @ SignalShutdown # (if server then [JoinServer] else []), False), TrayQuit)
      | None \<Rightarrow> ((effects, server), TrayContinue))"
  by (simp add: tray_on_event_def)

subsection \<open>What the messages mean\<close>

text \<open>
  What the user asks for with one message, whatever the state of the tray: a left click on
  the icon asks for Open; a right click, or the keyboard's menu key, asks for the entry that
  is chosen in the menu it opens, or else for the last thing clicked while it was open, if
  anything; no other message asks for anything. The event of an icon's message is the low
  word of its \<^verbatim>\<open>lparam\<close>.
\<close>

fun asks_for :: "win32 \<Rightarrow> win_msg \<Rightarrow> 32 word option" where
  "asks_for w (WinMsg n lparam menu) =
     (let event = ucast (ucast lparam :: u16) in
      if n \<noteq> wm_app w + 1 then None
      else if event \<in> {wm_rbuttonup w, wm_contextmenu w}
      then (case menu of
              None \<Rightarrow> None
            | Some (meanwhile, chosen) \<Rightarrow>
                if chosen \<noteq> 0 then Some chosen
                else foldl (\<lambda>asked m. case asks_for w m of None \<Rightarrow> asked | Some i \<Rightarrow> Some i) None meanwhile)
      else if event = wm_lbuttonup w then Some open_id
      else None)"

text \<open>What is asked for, message after message, until the messages end or fail.\<close>

fun asked_clicks :: "win32 \<Rightarrow> got list \<Rightarrow> 32 word list" where
  "asked_clicks w (Got m # rest) =
     (case asks_for w m of None \<Rightarrow> asked_clicks w rest | Some i \<Rightarrow> i # asked_clicks w rest)"
| "asked_clicks w _ = []"

text \<open>How the messages end the tray: by Close, by a quit message, or by failing.\<close>

fun asked_end :: "win32 \<Rightarrow> got list \<Rightarrow> (win_error + unit) option" where
  "asked_end w [] = None"
| "asked_end w (GotError # _) = Some (Inl (WinTray ''GetMessageW failed''))"
| "asked_end w (GotQuit # _) = Some (Inr ())"
| "asked_end w (Got m # rest) = (if asks_for w m = Some close_id then Some (Inr ()) else asked_end w rest)"

definition tray_asked ::
    "win32 \<Rightarrow> win_error + unit \<Rightarrow> bool \<Rightarrow> got list \<Rightarrow> 32 word list \<times> (win_error + unit) option" where
  "tray_asked w window icon_ok gots =
     (case window of
        Inl e \<Rightarrow> ([], Some (Inl e))
      | Inr _ \<Rightarrow> if icon_ok then (asked_clicks w gots, asked_end w gots)
                 else ([], Some (Inl (WinTray ''Shell_NotifyIconW(NIM_ADD) failed''))))"

text \<open>The window procedure keeps the application's menu and records what is asked for.\<close>

definition holds :: "32 word option \<Rightarrow> tray_thread \<Rightarrow> bool" where
  "holds c th \<longleftrightarrow> tt_slot th = Some \<lparr>ps_items = app_menu, ps_selected = c\<rparr>"

lemma low_word: "(ucast lparam :: 32 word) AND 0xffff = ucast (ucast (lparam :: 64 word) :: u16)"
proof -
  have m: "(0xffff :: 32 word) = mask 16" by (simp add: mask_eq_exp_minus_1)
  show ?thesis unfolding m by (auto intro!: bit_word_eqI simp: bit_and_iff bit_unsigned_iff bit_mask_iff)
qed

lemma wndproc_holds:
  "holds c th \<Longrightarrow> holds (case asks_for w m of None \<Rightarrow> c | Some i \<Rightarrow> Some i) (wndproc w th m)"
proof (induction w th m arbitrary: c rule: wndproc.induct)
  case (1 w th n lparam menu)
  let ?pick = "\<lambda>asked m. case asks_for w m of None \<Rightarrow> asked | Some i \<Rightarrow> Some i"
  have later: "foldl ?pick c ms = (case foldl ?pick None ms of None \<Rightarrow> c | Some i \<Rightarrow> Some i)" for c ms
  proof (induction ms arbitrary: c)
    case (Cons m ms)
    show ?case
      using Cons [of "?pick c m"] Cons [of "?pick None m"] by (auto split: option.split)
  qed simp
  have menu: "holds (foldl ?pick c nested) (foldl (wndproc w) th nested)"
    if "menu = Some (nested, cmd)" "n = wm_tray_callback w"
      "(ucast lparam :: 32 word) AND 0xffff = wm_rbuttonup w \<or>
       (ucast lparam :: 32 word) AND 0xffff = wm_contextmenu w" for nested cmd
  proof -
    have "holds c t \<Longrightarrow> set ms \<subseteq> set nested \<Longrightarrow> holds (foldl ?pick c ms) (foldl (wndproc w) t ms)" for c t ms
    proof (induction ms arbitrary: c t)
      case (Cons m ms)
      have "holds (?pick c m) (wndproc w t m)"
        using "1.IH" that Cons.prems by fastforce
      with Cons show ?case by simp
    qed simp
    with "1.prems" show ?thesis by blast
  qed
  show ?case
    using menu later [of c] "1.prems"
    by (auto simp: Let_def low_word wm_tray_callback_def record_choice_def set_selected_def holds_def
        select_default_item_def app_menu_def tray_menu_items_def split: option.split)
qed

lemma take_selected_holds: "holds c th \<Longrightarrow> \<exists>th'. take_selected th = (c, th') \<and> holds None th'"
  by (simp add: take_selected_def set_selected_def holds_def)

lemma pump_takes:
  assumes "holds None th"
  obtains th' where "take_selected (wndproc w th m) = (asks_for w m, th')" and "holds None th'"
  using wndproc_holds [OF assms, of w m] take_selected_holds
  by (fastforce split: option.splits)

lemma pump_messages_asked:
  assumes "holds None th"
    and "pump_messages w tray_on_event (effects, True) th gots = ((effects', server), th', r)"
  shows "effects' = effects @ pump_clicks True (asked_clicks w gots) \<and> r = asked_end w gots"
  using assms
proof (induction gots arbitrary: effects th)
  case (Cons g gots)
  show ?case
  proof (cases g)
    case (Got m)
    obtain th1 where t: "take_selected (wndproc w th m) = (asks_for w m, th1)" and th1: "holds None th1"
      using Cons.prems(1) by (rule pump_takes)
    have more: "effects' = (effects @ new) @ pump_clicks True (asked_clicks w gots) \<and> r = asked_end w gots"
      if "pump_messages w tray_on_event (effects @ new, True) th1 gots = ((effects', server), th', r)" for new
      by (rule Cons.IH [OF th1 that])
    show ?thesis
    proof (cases "asks_for w m")
      case None
      with Cons.prems(2) Got t more [of "[]"] show ?thesis by simp
    next
      case (Some i)
      consider "i = open_id" | "i = close_id" | "tray_action i = None" "i \<noteq> close_id"
        by (cases "i = open_id"; cases "i = close_id") (auto simp: tray_action_def)
      then show ?thesis
      proof cases
        case 1
        then have "tray_action i = Some TrayOpen" "i \<noteq> close_id"
          by (simp_all add: tray_action_def open_id_def close_id_def)
        with Cons.prems(2) Got t Some more [of "[UiShow]"] show ?thesis by (simp add: tray_on_event_pair)
      next
        case 2
        then have "tray_action i = Some TrayClose" by (simp add: tray_action_def open_id_def close_id_def)
        with Cons.prems(2) Got t Some 2 show ?thesis by (simp add: tray_on_event_pair)
      next
        case 3
        with Cons.prems(2) Got t Some more [of "[]"] show ?thesis by (simp add: tray_on_event_pair)
      qed
    qed
  qed (use Cons.prems in simp_all)
qed simp

lemma tray_runs_asked:
  "tray_result w window icon_ok th gots = snd (tray_asked w window icon_ok gots) \<and>
   tray_effects w window icon_ok th gots =
     (let clicks = fst (tray_asked w window icon_ok gots)
      in case tray_result w window icon_ok th gots of
           None \<Rightarrow> pump_clicks True clicks
         | Some r \<Rightarrow> pump_tray clicks (r \<noteq> Inr ()))"
proof -
  let ?th = "th\<lparr>tt_slot := Some \<lparr>ps_items = app_menu, ps_selected = None\<rparr>\<rparr>"
  obtain effects server th' r where
    p: "pump_messages w tray_on_event ([], True) ?th gots = ((effects, server), th', r)"
    by (metis prod.exhaust)
  have "holds None ?th" by (simp add: holds_def)
  from pump_messages_asked [OF this p]
  have "effects = pump_clicks True (asked_clicks w gots)" and "r = asked_end w gots" by simp_all
  then show ?thesis
    by (cases window; cases icon_ok)
      (simp_all add: tray_effects_def tray_result_def run_tray_def tray_asked_def pump_tray_def
        add_icon_def p Let_def split: option.split sum.split)
qed

lemma pump_clicks_eq:
  "pump_clicks True clicks =
     replicate (count_list (takeWhile (\<lambda>i. i \<noteq> close_id) clicks) open_id) UiShow @
     (if close_id \<in> set clicks then [SignalShutdown, JoinServer] else [])"
  by (induction clicks) (auto simp: tray_action_def open_id_def close_id_def)

text \<open>C33
  The Win32 tray does what its messages ask for. Whatever messages arrive, also while the menu
  is open: a left click on the icon asks for Open, a menu opened by a right click for what is
  chosen in it. Up to the first Close, each Open asked for shows the window once; Close
  signals the shutdown and joins the server; and when the tray ends, by Close, a quit message
  or an error of Win32, the window is told to quit, after a shutdown signal exactly when it
  was an error. That is the click loop \<open>pump_tray\<close> on the clicks that are asked for.\<close>

theorem tray_pump_implements_clicks:
  "let (clicks, ended) = tray_asked w window icon_ok gots;
       effects = tray_effects w window icon_ok th gots
   in tray_result w window icon_ok th gots = ended \<and>
      effects = (case ended of
                   None \<Rightarrow> pump_clicks True clicks
                 | Some r \<Rightarrow> pump_tray clicks (r \<noteq> Inr ())) \<and>
      effects =
        replicate (count_list (takeWhile (\<lambda>i. i \<noteq> close_id) clicks) open_id) UiShow @
        (if close_id \<in> set clicks then [SignalShutdown, JoinServer] else []) @
        (case ended of
           None \<Rightarrow> []
         | Some (Inl e) \<Rightarrow> [SignalShutdown, UiQuit]
         | Some (Inr _) \<Rightarrow> [UiQuit])"
proof -
  obtain clicks ended where asked: "tray_asked w window icon_ok gots = (clicks, ended)" by fastforce
  show ?thesis
    using tray_runs_asked [of w window icon_ok th gots]
    by (auto simp: asked Let_def pump_clicks_eq pump_tray_def split: option.split sum.split)
qed

definition win32_sample :: win32 where
  "win32_sample = \<lparr>wm_app = 0x8000, wm_destroy = 2, wm_rbuttonup = 0x0205,
                   wm_contextmenu = 0x007B, wm_lbuttonup = 0x0202\<rparr>"

text \<open>A left click, then a right click during whose menu the icon is clicked, and Close is chosen.\<close>

definition sample_messages :: "got list" where
  "sample_messages =
     [Got (WinMsg 0x8001 0x0202 None),
      Got (WinMsg 0x8001 0x0205 (Some ([WinMsg 0x8001 0x0202 None], 2)))]"

lemma sample_asks:
  "tray_asked win32_sample (Inr ()) True sample_messages = ([open_id, close_id], Some (Inr ()))"
  by code_simp

lemma sample_effects:
  "tray_effects win32_sample (Inr ()) True \<lparr>tt_slot = None, tt_quit_posted = False\<rparr> sample_messages =
     [UiShow, SignalShutdown, JoinServer, UiQuit]"
  by code_simp

text \<open>
  On every way out of the tray the icon is deleted, then the window is destroyed and the
  thread's slot is emptied; and a window that was never created leaves nothing.\<close>

lemma run_tray_cleans_up:
  "run_tray w window icon_ok on_event items c th gots = (c', th', calls, Some r) \<Longrightarrow>
     (case window of
        Inl e \<Rightarrow> calls = [] \<and> th' = th \<and> r = Inl e
      | Inr _ \<Rightarrow> calls = [TcAddIcon, TcDeleteIcon, TcDestroyWindow] \<and> tt_slot th' = None)"
  by (cases window) (auto simp: run_tray_def Let_def add_icon_def split: if_splits prod.splits option.splits)

text \<open>The tooltip is cut at 127 units, so the field always ends in a zero.\<close>

lemma tip_buffer_eq:
  "tip_buffer tooltip = take 127 tooltip @ replicate (128 - min 127 (length tooltip)) 0"
proof -
  have writes: "foldl (\<lambda>buf (i, u). buf[i := u]) (pre @ post) (enumerate (length pre) us) =
      pre @ us @ drop (length us) post" if "length us \<le> length post" for pre post :: "u16 list" and us
    using that
  proof (induction us arbitrary: pre post)
    case (Cons u us)
    then obtain p post' where post: "post = p # post'" by (cases post) auto
    have "(pre @ post)[length pre := u] = (pre @ [u]) @ post'" by (simp add: post)
    then show ?case using Cons.IH [of post' "pre @ [u]"] Cons.prems post by simp
  qed simp
  have "take 127 (enumerate 0 tooltip) = enumerate 0 (take 127 tooltip)"
    by (simp add: enumerate_eq_zip take_zip take_upt min_def)
  then show ?thesis
    using writes [of "take 127 tooltip" "replicate 128 0" "[]"]
    by (simp add: tip_buffer_def drop_replicate min.commute)
qed

lemma tip_buffer_terminated: "length (tip_buffer tooltip) = 128 \<and> last (tip_buffer tooltip) = 0"
  by (simp add: tip_buffer_eq)

end
