(* ===== verification/Win_Sspi.thy ===== *)
theory Win_Sspi
  imports Win_Tray
begin

text \<open>
  The contexts of \<^verbatim>\<open>crates/zicade-win/src/sspi\<close>: the outbound client that authenticates
  to the upstream, the inbound server, and the loopback driver that pairs them. The security
  interface is the operating system's: its calls are the fields of \<open>sspi_api\<close>, over a state of
  their own. The release of handles is listed in the order of the drops.
  The lemmas count the legs of a loopback, say which handles are released, and what the
  context is left with when a call fails.
\<close>

subsection \<open>The interface of the system\<close>

text \<open>
  A status as \<^verbatim>\<open>HRESULT::ok\<close> and the comparison with \<^verbatim>\<open>SEC_E_OK\<close> tell them apart:
  zero, another success such as "continue needed", or a failure.
\<close>

datatype sspi_status = SecOk | SecInfo "32 word" | SecFailed "32 word"

datatype cred_use = CredOutbound | CredInbound

text \<open>
  \<open>InitializeSecurityContext\<close> takes the credential, the context so far, the target and the
  input token; it answers with a status, the handle it wrote and the output buffer, which
  is \<open>None\<close> when its pointer is null. \<open>AcceptSecurityContext\<close> has no target.
\<close>

record ('w, 'h) sspi_api =
  api_acquire :: "'w \<Rightarrow> cred_use \<Rightarrow> win_sspi_package \<Rightarrow> 'w \<times> (32 word + 'h)"
  api_isc :: "'w \<Rightarrow> 'h \<Rightarrow> 'h option \<Rightarrow> u16 list option \<Rightarrow> bytes option
                \<Rightarrow> 'w \<times> sspi_status \<times> 'h \<times> bytes option"
  api_asc :: "'w \<Rightarrow> 'h \<Rightarrow> 'h option \<Rightarrow> bytes \<Rightarrow> 'w \<times> sspi_status \<times> 'h \<times> bytes option"

datatype 'h release = DeleteContext 'h | FreeCredentials 'h

subsection \<open>Client and server contexts\<close>

definition package_name :: "win_sspi_package \<Rightarrow> string" where
  "package_name p = (case p of WinNtlm \<Rightarrow> ''NTLM'' | WinNegotiate \<Rightarrow> ''Negotiate'')"

text \<open>The target name arrives as its UTF-16 units.\<close>

definition to_wide :: "u16 list \<Rightarrow> u16 list" where
  "to_wide units = units @ [0]"

definition take_token :: "bytes option \<Rightarrow> bytes" where
  "take_token buf = (case buf of None \<Rightarrow> [] | Some data \<Rightarrow> data)"

record 'h client_context =
  cc_cred :: 'h
  cc_ctx :: "'h option"
  cc_target :: "u16 list option"

record 'h server_context =
  sx_cred :: 'h
  sx_ctx :: "'h option"

definition acquire_cred ::
    "('w, 'h) sspi_api \<Rightarrow> 'w \<Rightarrow> cred_use \<Rightarrow> win_sspi_package \<Rightarrow> 'w \<times> (win_error + 'h)" where
  "acquire_cred api w use package =
     (case api_acquire api w use package of (w, r) \<Rightarrow> (w, map_sum WinSspi id r))"

definition client_new ::
    "('w, 'h) sspi_api \<Rightarrow> 'w \<Rightarrow> u16 list option \<Rightarrow> win_sspi_package \<Rightarrow> 'w \<times> (win_error + 'h client_context)" where
  "client_new api w target_spn package =
     (case acquire_cred api w CredOutbound package of
        (w, r) \<Rightarrow> (w, map_sum id (\<lambda>cred. \<lparr>cc_cred = cred, cc_ctx = None,
                                           cc_target = map_option to_wide target_spn\<rparr>) r))"

text \<open>The handle is kept before the status is looked at; the buffer is taken only after.\<close>

definition client_step ::
    "('w, 'h) sspi_api \<Rightarrow> 'w \<Rightarrow> 'h client_context \<Rightarrow> bytes option
     \<Rightarrow> 'w \<times> 'h client_context \<times> (win_error + bytes)" where
  "client_step api w c challenge =
     (case api_isc api w (cc_cred c) (cc_ctx c) (cc_target c) challenge of
        (w, status, h, buf) \<Rightarrow>
          (w, c\<lparr>cc_ctx := Some h\<rparr>,
           case status of SecFailed e \<Rightarrow> Inl (WinSspi e) | _ \<Rightarrow> Inr (take_token buf)))"

definition client_drop :: "'h client_context \<Rightarrow> 'h release list" where
  "client_drop c = (case cc_ctx c of None \<Rightarrow> [] | Some h \<Rightarrow> [DeleteContext h]) @ [FreeCredentials (cc_cred c)]"

definition server_new ::
    "('w, 'h) sspi_api \<Rightarrow> 'w \<Rightarrow> win_sspi_package \<Rightarrow> 'w \<times> (win_error + 'h server_context)" where
  "server_new api w package =
     (case acquire_cred api w CredInbound package of
        (w, r) \<Rightarrow> (w, map_sum id (\<lambda>cred. \<lparr>sx_cred = cred, sx_ctx = None\<rparr>) r))"

definition server_accept ::
    "('w, 'h) sspi_api \<Rightarrow> 'w \<Rightarrow> 'h server_context \<Rightarrow> bytes
     \<Rightarrow> 'w \<times> 'h server_context \<times> (win_error + bytes \<times> bool)" where
  "server_accept api w s input =
     (case api_asc api w (sx_cred s) (sx_ctx s) input of
        (w, status, h, buf) \<Rightarrow>
          (w, s\<lparr>sx_ctx := Some h\<rparr>,
           case status of
             SecFailed e \<Rightarrow> Inl (WinSspi e)
           | _ \<Rightarrow> Inr (take_token buf, status = SecOk)))"

definition server_drop :: "'h server_context \<Rightarrow> 'h release list" where
  "server_drop s = (case sx_ctx s of None \<Rightarrow> [] | Some h \<Rightarrow> [DeleteContext h]) @ [FreeCredentials (sx_cred s)]"

subsection \<open>The authenticator\<close>

text \<open>Off Windows there is no context to make: \<open>windows\<close> is \<^verbatim>\<open>cfg(windows)\<close>.\<close>

definition sspi_new ::
    "bool \<Rightarrow> ('w, 'h) sspi_api \<Rightarrow> 'w \<Rightarrow> u16 list option \<Rightarrow> win_sspi_package
     \<Rightarrow> 'w \<times> (win_error + 'h client_context)" where
  "sspi_new windows api w target_spn package =
     (if windows then client_new api w target_spn package else (w, Inl WinUnsupportedPlatform))"

definition sspi_step ::
    "bool \<Rightarrow> ('w, 'h) sspi_api \<Rightarrow> ('w \<times> 'h client_context) authenticator" where
  "sspi_step windows api s challenge =
     (if windows
      then (case client_step api (fst s) (snd s) challenge of
              (w, c, r) \<Rightarrow> (map_sum (\<lambda>e. AuthenticatorFailed (win_error_message e)) id r, (w, c)))
      else (Inl (AuthenticatorFailed ''SSPI Negotiate unavailable (not Windows)''), s))"

definition probe_sspi_negotiate ::
    "bool \<Rightarrow> ('w, 'h) sspi_api \<Rightarrow> 'w \<Rightarrow> 'w \<times> 'h release list \<times> (win_error + unit)" where
  "probe_sspi_negotiate windows api w =
     (if windows
      then (case api_acquire api w CredOutbound WinNegotiate of
              (w, Inl e) \<Rightarrow> (w, [], Inl (WinSspi e))
            | (w, Inr cred) \<Rightarrow> (w, [FreeCredentials cred], Inr ()))
      else (w, [], Inl WinUnsupportedPlatform))"

subsection \<open>The loopback\<close>

record loopback_report =
  lr_client_legs :: nat
  lr_server_legs :: nat
  lr_completed :: bool

fun loopback_loop ::
    "('w, 'h) sspi_api \<Rightarrow> nat \<Rightarrow> 'w \<Rightarrow> 'h client_context \<Rightarrow> 'h server_context \<Rightarrow> bytes \<Rightarrow> nat \<Rightarrow> nat
     \<Rightarrow> 'w \<times> 'h client_context \<times> 'h server_context \<times> (win_error + loopback_report)" where
  "loopback_loop api 0 w client server token client_legs server_legs =
     (w, client, server, Inr \<lparr>lr_client_legs = client_legs, lr_server_legs = server_legs, lr_completed = False\<rparr>)"
| "loopback_loop api (Suc n) w client server token client_legs server_legs =
     (case server_accept api w server token of
        (w, server, Inl e) \<Rightarrow> (w, client, server, Inl e)
      | (w, server, Inr (server_token, completed)) \<Rightarrow>
          let server_legs = server_legs + 1;
              report = (\<lambda>legs. \<lparr>lr_client_legs = legs, lr_server_legs = server_legs, lr_completed = True\<rparr>) in
          if completed \<and> server_token = [] then (w, client, server, Inr (report client_legs))
          else (case client_step api w client (Some server_token) of
                  (w, client, Inl e) \<Rightarrow> (w, client, server, Inl e)
                | (w, client, Inr token) \<Rightarrow>
                    if completed then (w, client, server, Inr (report (client_legs + 1)))
                    else loopback_loop api n w client server token (client_legs + 1) server_legs))"

text \<open>The drops run in the reverse order of the declarations.\<close>

definition run_loopback ::
    "('w, 'h) sspi_api \<Rightarrow> 'w \<Rightarrow> u16 list option \<Rightarrow> 'w \<times> 'h release list \<times> (win_error + loopback_report)" where
  "run_loopback api w target_spn =
     (case client_new api w target_spn WinNtlm of
        (w, Inl e) \<Rightarrow> (w, [], Inl e)
      | (w, Inr client) \<Rightarrow>
         (case server_new api w WinNtlm of
            (w, Inl e) \<Rightarrow> (w, client_drop client, Inl e)
          | (w, Inr server) \<Rightarrow>
             (case client_step api w client None of
                (w, client, Inl e) \<Rightarrow> (w, server_drop server @ client_drop client, Inl e)
              | (w, client, Inr token) \<Rightarrow>
                 (case loopback_loop api 10 w client server token 1 0 of
                    (w, client, server, r) \<Rightarrow> (w, server_drop server @ client_drop client, r)))))"

definition run_loopback_handshake ::
    "bool \<Rightarrow> ('w, 'h) sspi_api \<Rightarrow> 'w \<Rightarrow> u16 list option \<Rightarrow> 'w \<times> 'h release list \<times> (win_error + loopback_report)" where
  "run_loopback_handshake windows api w target_spn =
     (if windows then run_loopback api w target_spn else (w, [], Inl WinUnsupportedPlatform))"

subsection \<open>Counting the legs\<close>

text \<open>Each leg of the server is followed by one of the client, the last one perhaps not.\<close>

lemma loopback_loop_legs:
  "loopback_loop api n w client server token (Suc k) k = (w', client', server', Inr rep) \<Longrightarrow>
     k \<le> lr_server_legs rep \<and> lr_server_legs rep \<le> k + n \<and>
     (if lr_completed rep
      then k < lr_server_legs rep \<and>
           (lr_client_legs rep = lr_server_legs rep \<or> lr_client_legs rep = Suc (lr_server_legs rep))
      else lr_server_legs rep = k + n \<and> lr_client_legs rep = Suc (k + n))"
proof (induction n arbitrary: w client server token k)
  case (Suc n)
  obtain w1 server1 r1 where a: "server_accept api w server token = (w1, server1, r1)"
    by (metis prod.exhaust)
  from Suc.prems a obtain tok completed where r1: "r1 = Inr (tok, completed)"
    by (cases r1) auto
  show ?case
  proof (cases "completed \<and> tok = []")
    case True
    with Suc.prems a r1 show ?thesis by (auto simp: Let_def)
  next
    case False
    obtain w2 client2 r2 where c: "client_step api w1 client (Some tok) = (w2, client2, r2)"
      by (metis prod.exhaust)
    from Suc.prems a r1 c False obtain token2 where r2: "r2 = Inr token2"
      by (cases r2) (auto simp: Let_def)
    show ?thesis
    proof (cases completed)
      case True
      with Suc.prems a r1 c r2 False show ?thesis by (auto simp: Let_def)
    next
      case unfinished: False
      with Suc.prems a r1 c r2 have
        "loopback_loop api n w2 client2 server1 token2 (Suc (Suc k)) (Suc k) = (w', client', server', Inr rep)"
        by (simp add: Let_def)
      from Suc.IH [OF this] show ?thesis by (auto split: if_splits)
    qed
  qed
qed auto

theorem loopback_legs:
  assumes "run_loopback api w target = (w', released, Inr rep)"
  shows "lr_server_legs rep \<le> 10 \<and>
    (if lr_completed rep
     then 0 < lr_server_legs rep \<and>
          (lr_client_legs rep = lr_server_legs rep \<or> lr_client_legs rep = Suc (lr_server_legs rep))
     else lr_server_legs rep = 10 \<and> lr_client_legs rep = 11)"
proof -
  from assms obtain w1 client server token client' server' where
    "loopback_loop api 10 w1 client server token 1 0 = (w', client', server', Inr rep)"
    by (auto simp: run_loopback_def split: prod.splits sum.splits)
  then show ?thesis using loopback_loop_legs [of api 10 w1 client server token 0] by (auto split: if_splits)
qed

subsection \<open>Handles\<close>

lemma client_step_keeps:
  "client_step api w c challenge = (w', c', r) \<Longrightarrow> cc_cred c' = cc_cred c \<and> cc_target c' = cc_target c"
  by (auto simp: client_step_def split: prod.splits)

lemma server_accept_keeps: "server_accept api w s input = (w', s', r) \<Longrightarrow> sx_cred s' = sx_cred s"
  by (auto simp: server_accept_def split: prod.splits)

lemma loopback_loop_creds:
  "loopback_loop api n w client server token k m = (w', client', server', r) \<Longrightarrow>
     cc_cred client' = cc_cred client \<and> sx_cred server' = sx_cred server"
proof (induction n arbitrary: w client server token k m)
  case (Suc n)
  then show ?case
    by (auto simp: Let_def split: prod.splits sum.splits if_splits
        dest!: client_step_keeps server_accept_keeps Suc.IH)
qed simp

text \<open>The credentials that a run frees, in order.\<close>

definition freed :: "'h release list \<Rightarrow> 'h list" where
  "freed rs = concat (map (\<lambda>r. case r of FreeCredentials h \<Rightarrow> [h] | DeleteContext _ \<Rightarrow> []) rs)"

lemma freed_drops [simp]:
  "freed (client_drop c) = [cc_cred c]" "freed (server_drop s) = [sx_cred s]"
  "freed (xs @ ys) = freed xs @ freed ys"
  by (auto simp: freed_def client_drop_def server_drop_def split: option.split)

text \<open>
  Whatever a loopback runs into, each credential it acquired is freed exactly once: none when
  the first cannot be acquired, the client's when the server's cannot, and otherwise both.\<close>

theorem loopback_frees_credentials:
  assumes "run_loopback api w target = (w', released, r)"
  shows "freed released =
    (case client_new api w target WinNtlm of
       (_, Inl _) \<Rightarrow> []
     | (w1, Inr client) \<Rightarrow>
         (case server_new api w1 WinNtlm of
            (_, Inl _) \<Rightarrow> [cc_cred client]
          | (_, Inr server) \<Rightarrow> [sx_cred server, cc_cred client]))"
  using assms unfolding run_loopback_def
  by (auto split: prod.splits sum.splits dest!: client_step_keeps loopback_loop_creds simp: freed_def [of "[]"])

text \<open>
  A first call that fails leaves the context with the handle it wrote, and the drop deletes
  it, although no call succeeded.\<close>

lemma failed_first_call_is_deleted:
  assumes "cc_ctx c = None"
    and "api_isc api w (cc_cred c) None (cc_target c) challenge = (w', SecFailed e, h, buf)"
  shows "client_step api w c challenge = (w', c\<lparr>cc_ctx := Some h\<rparr>, Inl (WinSspi e))"
    and "client_drop (c\<lparr>cc_ctx := Some h\<rparr>) = [DeleteContext h, FreeCredentials (cc_cred c)]"
  using assms by (simp_all add: client_step_def client_drop_def)

end
