(* ===== verification/Win_Netmon.thy ===== *)
theory Win_Netmon
  imports Gate
begin

text \<open>
  Network monitoring, \<^verbatim>\<open>crates/zicade-win/src/netmon\<close>: the DNS suffixes of the
  adapters that are up, which the gate matches, and the wait for an address change. The IP
  helper and event functions are the operating system's; their outcomes are arguments, and
  the calls made on their handles are listed in order.
  The lemmas: the buffer is never smaller than what the second call may fill, an answer
  holds exactly the usable suffixes, and no wait leaves an event open or a notification
  pending on memory that is gone.
\<close>

subsection \<open>The suffixes of the active adapters\<close>

datatype adapters_status = ErrorSuccess | ErrorBufferOverflow | ErrorOther

text \<open>
  A node of the list that Windows fills in: whether its status is up, and its suffix, \<open>None\<close>
  for a null pointer and \<open>Some None\<close> for a string that is no valid UTF-16.
\<close>

record adapter =
  ad_up :: bool
  ad_dns_suffix :: "string option option"

definition adapter_suffix :: "adapter \<Rightarrow> string option" where
  "adapter_suffix node =
     (if ad_up node
      then (case ad_dns_suffix node of Some (Some s) \<Rightarrow> if s \<noteq> [] then Some s else None | _ \<Rightarrow> None)
      else None)"

fun walk_adapters :: "adapter list \<Rightarrow> string list" where
  "walk_adapters [] = []"
| "walk_adapters (node # next) =
     (case adapter_suffix node of None \<Rightarrow> walk_adapters next | Some s \<Rightarrow> s # walk_adapters next)"

text \<open>\<open>elem\<close> is the size of a node; the count of nodes to allocate for \<open>needed\<close> bytes.\<close>

definition adapter_count :: "nat \<Rightarrow> nat \<Rightarrow> nat" where
  "adapter_count needed elem = max ((needed + elem - 1) div elem) 1"

definition win_dns_suffixes ::
    "adapters_status \<Rightarrow> 32 word \<Rightarrow> adapters_status \<Rightarrow> adapter list \<Rightarrow> string list" where
  "win_dns_suffixes probe needed second nodes =
     (if probe \<noteq> ErrorBufferOverflow \<or> needed = 0 then []
      else if second \<noteq> ErrorSuccess then []
      else walk_adapters nodes)"

definition active_dns_suffixes ::
    "bool \<Rightarrow> adapters_status \<Rightarrow> 32 word \<Rightarrow> adapters_status \<Rightarrow> adapter list \<Rightarrow> string list" where
  "active_dns_suffixes windows probe needed second nodes =
     (if windows then win_dns_suffixes probe needed second nodes else [])"

lemma adapter_suffix_Some:
  "adapter_suffix node = Some s \<longleftrightarrow> ad_up node \<and> ad_dns_suffix node = Some (Some s) \<and> s \<noteq> []"
  by (auto simp: adapter_suffix_def split: option.splits)

lemma walk_adapters_set: "s \<in> set (walk_adapters nodes) \<longleftrightarrow> (\<exists>node \<in> set nodes. adapter_suffix node = Some s)"
  by (induction nodes) (auto split: option.splits)

lemma suffixes_are_usable:
  "s \<in> set (active_dns_suffixes windows probe needed second nodes) \<Longrightarrow>
     s \<noteq> [] \<and> (\<exists>node \<in> set nodes. ad_up node \<and> ad_dns_suffix node = Some (Some s))"
  by (auto simp: active_dns_suffixes_def win_dns_suffixes_def walk_adapters_set adapter_suffix_Some
      split: if_splits)

text \<open>The second call never writes past the buffer: the nodes allocated hold what it was told.\<close>

lemma adapter_buffer_suffices:
  assumes "0 < elem"
  shows "size_bytes \<le> adapter_count size_bytes elem * elem"
proof -
  have "size_bytes \<le> (size_bytes + elem - 1) div elem * elem"
  proof -
    let ?n = "size_bytes + elem - 1"
    have "?n = ?n div elem * elem + ?n mod elem" by simp
    moreover have "?n mod elem \<le> elem - 1" using assms by (simp add: less_Suc_eq_le [symmetric])
    ultimately show ?thesis using assms by linarith
  qed
  also have "\<dots> \<le> adapter_count size_bytes elem * elem"
    unfolding adapter_count_def by (intro mult_le_mono1) simp
  finally show ?thesis .
qed

text \<open>
  Where the suffixes cannot be read, off Windows among them, the answer is empty, which no
  configured list matches: an enabled gate then finds the machine off the network.\<close>

lemma no_suffixes_off_corp:
  assumes "\<not> windows \<or> probe \<noteq> ErrorBufferOverflow \<or> second \<noteq> ErrorSuccess"
  shows "\<not> on_corp (active_dns_suffixes windows probe needed second nodes) configured"
  using assms by (auto simp: active_dns_suffixes_def win_dns_suffixes_def on_corp_def Let_def)

text \<open>So an enabled gate that has no suffixes to match routes directly, whatever is configured.\<close>

lemma undetected_gate_is_direct:
  assumes "\<not> windows \<or> probe \<noteq> ErrorBufferOverflow \<or> second \<noteq> ErrorSuccess"
    and "gate_params cfg = (True, wanted, poll)"
  shows "gt_routing (fst (gate_evaluate rebuild direct
           (active_dns_suffixes windows probe needed second nodes) (gate_new r cfg))) = direct"
  using no_suffixes_off_corp [OF assms(1), of needed nodes wanted] assms(2)
  by (simp add: gate_evaluate_def gate_new_def gate_apply_def Let_def)

subsection \<open>Waiting for a change\<close>

datatype wait_call =
    CreateEvent | NotifyChange | WaitEvent "32 word" | CancelNotify | CloseEvent | SleepFor nat

text \<open>The wait in milliseconds, cut at the largest 32-bit number.\<close>

definition wait_ms :: "nat \<Rightarrow> 32 word" where
  "wait_ms timeout_ms = of_nat (min timeout_ms (2 ^ 32 - 1))"

text \<open>
  \<open>event\<close>: whether a valid event was made; \<open>pending\<close>: whether the registration is pending;
  \<open>signalled\<close>: whether the wait ended with the event.
\<close>

definition win_wait_for_change :: "bool \<Rightarrow> bool \<Rightarrow> bool \<Rightarrow> nat \<Rightarrow> wait_call list" where
  "win_wait_for_change event pending signalled timeout_ms =
     (if \<not> event then [CreateEvent, SleepFor timeout_ms]
      else if \<not> pending then [CreateEvent, NotifyChange, CloseEvent, SleepFor timeout_ms]
      else [CreateEvent, NotifyChange, WaitEvent (wait_ms timeout_ms)]
           @ (if signalled then [] else [CancelNotify]) @ [CloseEvent])"

definition wait_for_network_change :: "bool \<Rightarrow> bool \<Rightarrow> bool \<Rightarrow> bool \<Rightarrow> nat \<Rightarrow> wait_call list" where
  "wait_for_network_change windows event pending signalled timeout_ms =
     (if windows then win_wait_for_change event pending signalled timeout_ms else [SleepFor timeout_ms])"

text \<open>
  The event is closed exactly when it was made, at most once and after its last use; a
  notification that is still pending is cancelled before its memory goes.\<close>

lemma wait_closes_event:
  "length (filter (\<lambda>c. c = CloseEvent) (wait_for_network_change windows event pending signalled t)) =
     (if windows \<and> event then 1 else 0)"
  by (simp add: wait_for_network_change_def win_wait_for_change_def)

lemma wait_cancels_pending:
  "windows \<Longrightarrow> event \<Longrightarrow> pending \<Longrightarrow> \<not> signalled \<Longrightarrow>
     \<exists>before. wait_for_network_change windows event pending signalled t = before @ [CancelNotify, CloseEvent]
       \<and> NotifyChange \<in> set before"
  by (simp add: wait_for_network_change_def win_wait_for_change_def)

text \<open>
  Milliseconds are exact below the cut. At the cut the number is the one that Win32 reads as
  "no timeout": a poll interval of fifty days or more is not a timeout any more.\<close>

lemma wait_ms_exact: "t < 2 ^ 32 \<Longrightarrow> unat (wait_ms t) = t"
  by (simp add: wait_ms_def unat_of_nat)

lemma wait_ms_infinite: "2 ^ 32 - 1 \<le> t \<Longrightarrow> wait_ms t = - 1"
  by (simp add: wait_ms_def min_def)

end
