(* ===== verification/Winhttp.thy ===== *)
theory Winhttp
  imports Discovery Machine
begin

text \<open>
  The WinHTTP calls behind the proxy discovery, \<^verbatim>\<open>crates/zicade-win/src/winhttp/win.rs\<close>
  and \<^verbatim>\<open>mod.rs\<close>: opening a session, resolving a URL in it, reading the user's
  settings, and the memory that WinHTTP hands over. A string that WinHTTP allocated is an
  address with its text; the addresses given back to \<^verbatim>\<open>GlobalFree\<close> are listed in
  order. The calls themselves are arguments.
  The lemmas: the two modes of a session exclude each other, every string is freed exactly
  once, on the paths that fail as well, and the calls answer what \<open>Discovery\<close> takes them to.
\<close>

subsection \<open>Strings of the system\<close>

text \<open>\<open>None\<close> is the null pointer; a text of \<open>None\<close> is not valid UTF-16.\<close>

type_synonym pwstr = "(nat \<times> string option) option"

definition free_pwstr :: "pwstr \<Rightarrow> nat list" where
  "free_pwstr s = (case s of None \<Rightarrow> [] | Some (a, _) \<Rightarrow> [a])"

definition take_pwstr :: "pwstr \<Rightarrow> string option \<times> nat list" where
  "take_pwstr s =
     (case s of
        None \<Rightarrow> (None, [])
      | Some (a, text) \<Rightarrow>
          ((case text of Some v \<Rightarrow> if v = [] then None else Some v | None \<Rightarrow> None), [a]))"

subsection \<open>The session\<close>

record session =
  wh_handle :: nat
  wh_config_url :: "string option"

text \<open>\<open>opened\<close> is the handle of \<^verbatim>\<open>WinHttpOpen\<close>, 0 for null.\<close>

definition session_open :: "nat \<Rightarrow> string option \<Rightarrow> routing_error + session" where
  "session_open opened config_url =
     (if opened = 0 then Inl (BackendError ''WinHttpOpen returned a null session handle'')
      else Inr \<lparr>wh_handle = opened, wh_config_url = config_url\<rparr>)"

text \<open>The handles closed by the drop.\<close>

definition session_drop :: "session \<Rightarrow> nat list" where
  "session_drop s = (if wh_handle s = 0 then [] else [wh_handle s])"

record autoproxy_options =
  ap_auto_logon :: bool
  ap_config_url :: "string option"
  ap_detect_dhcp :: bool
  ap_detect_dns :: bool

definition autoproxy_options_of :: "session \<Rightarrow> autoproxy_options" where
  "autoproxy_options_of s =
     (case wh_config_url s of
        Some url \<Rightarrow> \<lparr>ap_auto_logon = True, ap_config_url = Some url, ap_detect_dhcp = False, ap_detect_dns = False\<rparr>
      | None \<Rightarrow> \<lparr>ap_auto_logon = True, ap_config_url = None, ap_detect_dhcp = True, ap_detect_dns = True\<rparr>)"

record proxy_info =
  pi_proxy :: pwstr
  pi_bypass :: pwstr

definition read_proxy_info :: "proxy_info \<Rightarrow> pac_result" where
  "read_proxy_info info =
     (case pi_proxy info of
        None \<Rightarrow> PacDirect
      | Some (_, text) \<Rightarrow> pac_parse (case text of Some raw \<Rightarrow> raw | None \<Rightarrow> []))"

definition free_proxy_info :: "proxy_info \<Rightarrow> nat list" where
  "free_proxy_info info = free_pwstr (pi_proxy info) @ free_pwstr (pi_bypass info)"

text \<open>\<open>get\<close> is \<^verbatim>\<open>WinHttpGetProxyForUrl\<close> on the handle, the URL and the options.\<close>

definition session_call ::
    "(nat \<Rightarrow> string \<Rightarrow> autoproxy_options \<Rightarrow> 32 word + proxy_info) \<Rightarrow> session \<Rightarrow> string
     \<Rightarrow> (routing_error + pac_result) \<times> nat list" where
  "session_call get s url =
     (case get (wh_handle s) url (autoproxy_options_of s) of
        Inl code \<Rightarrow> (Inl (BackendError (''WinHttpGetProxyForUrl failed: 0x'' @ hex8 code)), [])
      | Inr info \<Rightarrow> (Inr (read_proxy_info info), free_proxy_info info))"

subsection \<open>The settings of the user\<close>

record raw_ie_config =
  ri_auto_config_url :: pwstr
  ri_auto_detect :: bool
  ri_proxy :: pwstr
  ri_bypass :: pwstr

definition file_not_found :: "32 word" where
  "file_not_found = 0x80070002"

definition ie_config_call :: "32 word + raw_ie_config \<Rightarrow> (routing_error + ie_proxy_config) \<times> nat list" where
  "ie_config_call call =
     (case call of
        Inl code \<Rightarrow>
          if code = file_not_found then (Inr ie_empty, [])
          else (Inl (BackendError (''WinHttpGetIEProxyConfigForCurrentUser failed: 0x'' @ hex8 code)), [])
      | Inr raw \<Rightarrow>
          (case take_pwstr (ri_auto_config_url raw) of (url, f1) \<Rightarrow>
           case take_pwstr (ri_proxy raw) of (proxy, f2) \<Rightarrow>
           case take_pwstr (ri_bypass raw) of (bypass, f3) \<Rightarrow>
             (Inr \<lparr>ie_auto_config_url = url, ie_auto_detect = ri_auto_detect raw,
                   ie_proxy = proxy, ie_bypass = bypass\<rparr>, f1 @ f2 @ f3)))"

subsection \<open>The backend of the application\<close>

text \<open>\<open>windows\<close> is \<^verbatim>\<open>cfg(windows)\<close>.\<close>

definition winhttp_new :: "bool \<Rightarrow> nat \<Rightarrow> routing_error + session win_backend" where
  "winhttp_new windows opened =
     (if windows then map_sum id WbSession (session_open opened None) else Inl RouteUnsupportedPlatform)"

definition winhttp_with_config_url :: "bool \<Rightarrow> nat \<Rightarrow> string \<Rightarrow> routing_error + session win_backend" where
  "winhttp_with_config_url windows opened url =
     (if windows then map_sum id WbSession (session_open opened (Some url)) else Inl RouteUnsupportedPlatform)"

definition winhttp_from_system ::
    "bool \<Rightarrow> nat \<Rightarrow> 32 word + raw_ie_config \<Rightarrow> (routing_error + session win_backend) \<times> nat list" where
  "winhttp_from_system windows opened call =
     (if windows
      then (case ie_config_call call of
              (Inl e, freed) \<Rightarrow> (Inl e, freed)
            | (Inr cfg, freed) \<Rightarrow> (backend_from_system (session_open opened) (Inr cfg), freed))
      else (Inl RouteUnsupportedPlatform, []))"

definition winhttp_resolve ::
    "bool \<Rightarrow> (nat \<Rightarrow> string \<Rightarrow> autoproxy_options \<Rightarrow> 32 word + proxy_info) \<Rightarrow> session win_backend \<Rightarrow> string
     \<Rightarrow> (routing_error + pac_result) \<times> nat list" where
  "winhttp_resolve windows get b url =
     (if windows
      then (case b of
              WbSession s \<Rightarrow> session_call get s url
            | WbStatic r \<Rightarrow> (Inr (static_resolve r url), [])
            | WbDirect \<Rightarrow> (Inr PacDirect, []))
      else (Inl RouteUnsupportedPlatform, []))"

subsection \<open>Lemmas\<close>

text \<open>A session with a configured script never pays for the automatic detection.\<close>

lemma modes_exclusive:
  "ap_config_url (autoproxy_options_of s) \<noteq> None \<longleftrightarrow> \<not> ap_detect_dhcp (autoproxy_options_of s)"
  "ap_detect_dhcp (autoproxy_options_of s) = ap_detect_dns (autoproxy_options_of s)"
  by (simp_all add: autoproxy_options_of_def split: option.split)

text \<open>The addresses a call hands over.\<close>

definition owned :: "pwstr list \<Rightarrow> nat list" where
  "owned ps = concat (map free_pwstr ps)"

text \<open>Every string is freed once, in order, and a call that failed frees nothing.\<close>

lemma take_pwstr_frees: "snd (take_pwstr s) = free_pwstr s"
  by (simp add: take_pwstr_def free_pwstr_def split: option.split)

lemma session_call_frees:
  "snd (session_call get s url) =
     (case get (wh_handle s) url (autoproxy_options_of s) of
        Inl _ \<Rightarrow> [] | Inr info \<Rightarrow> owned [pi_proxy info, pi_bypass info])"
  by (simp add: session_call_def free_proxy_info_def owned_def split: sum.split)

lemma ie_config_call_frees:
  "snd (ie_config_call call) =
     (case call of Inl _ \<Rightarrow> [] | Inr raw \<Rightarrow> owned [ri_auto_config_url raw, ri_proxy raw, ri_bypass raw])"
  by (simp add: ie_config_call_def owned_def take_pwstr_frees [symmetric] split: sum.split prod.split)

text \<open>
  The calls answer as the discovery model takes them to: its reader of the settings and its
  session are these calls with the memory forgotten.\<close>

definition ie_read_of :: "32 word + raw_ie_config \<Rightarrow> string option + ie_proxy_config" where
  "ie_read_of call =
     (case call of
        Inl code \<Rightarrow> Inl (if code = file_not_found then None else Some (''0x'' @ hex8 code))
      | Inr raw \<Rightarrow> Inr \<lparr>ie_auto_config_url = fst (take_pwstr (ri_auto_config_url raw)),
                       ie_auto_detect = ri_auto_detect raw,
                       ie_proxy = fst (take_pwstr (ri_proxy raw)),
                       ie_bypass = fst (take_pwstr (ri_bypass raw))\<rparr>)"

lemma ie_config_call_reads: "fst (ie_config_call call) = read_ie_proxy_config (ie_read_of call)"
  by (simp add: ie_config_call_def read_ie_proxy_config_def ie_read_of_def split: sum.split prod.split)

definition session_answer ::
    "(nat \<Rightarrow> string \<Rightarrow> autoproxy_options \<Rightarrow> 32 word + proxy_info) \<Rightarrow> session \<Rightarrow> string \<Rightarrow> string + string option" where
  "session_answer get s url =
     (case get (wh_handle s) url (autoproxy_options_of s) of
        Inl code \<Rightarrow> Inl (''0x'' @ hex8 code)
      | Inr info \<Rightarrow> Inr (map_option (\<lambda>(_, text). case text of Some raw \<Rightarrow> raw | None \<Rightarrow> []) (pi_proxy info)))"

lemma session_call_resolves: "fst (session_call get s url) = session_resolve (session_answer get) s url"
  by (auto simp: session_call_def session_resolve_def session_answer_def read_proxy_info_def
      split: sum.split option.split prod.split)

lemma winhttp_resolves:
  "fst (winhttp_resolve True get b url) = backend_resolve (session_answer get) b url"
  by (cases b) (simp_all add: winhttp_resolve_def session_call_resolves)

lemma winhttp_discovers:
  "fst (winhttp_from_system True opened call) = backend_from_system (session_open opened) (ie_read_of call)"
  using ie_config_call_reads [of call]
  by (cases "ie_config_call call")
    (auto simp: winhttp_from_system_def backend_from_system_def read_ie_proxy_config_def and_then_def
      split: sum.splits option.splits)

text \<open>A session that was opened has a handle, and its drop closes exactly that one.\<close>

lemma session_closed_once: "session_open opened url = Inr s \<Longrightarrow> session_drop s = [opened]"
  by (auto simp: session_open_def session_drop_def split: if_splits)

end
