(* ===== verification/Process.thy ===== *)
theory Process
  imports App Config_Json
begin

text \<open>
  The processes that \<^verbatim>\<open>main\<close> becomes, \<^verbatim>\<open>apps/zicade/src/main.rs\<close>,
  \<^verbatim>\<open>lib.rs\<close>, \<^verbatim>\<open>tray.rs\<close> and \<^verbatim>\<open>App::run\<close>: console mode with its
  exit code, tray mode with its start-up failures, and the run that joins the proxy, the
  shutdown signal and the network monitor. The outcomes of threads, runtimes and of reading
  the configuration are arguments; \<open>run_step\<close> is the step relation of the joined run.
  The lemmas: no server thread is left without the shutdown signal, the proxy drains only
  after the signal, and after the signal the run can always return, the monitor ended too.
\<close>

subsection \<open>Console mode\<close>

datatype exit_code = ExitSuccess | ExitFailure

datatype serve_error =
    ServeConfig main_error
  | ServeStart start_error
  | ServeMonitor io_error
  | ServeProxy proxy_error

text \<open>\<open>load\<close> is \<^verbatim>\<open>load_or_create_config\<close> on a path, \<open>run_app\<close> the run of a loaded configuration.\<close>

definition serve_console ::
    "string option \<Rightarrow> string option \<Rightarrow> (string \<Rightarrow> main_error + config)
     \<Rightarrow> (config \<Rightarrow> string \<Rightarrow> level_filter_t \<times> bool \<Rightarrow> serve_error + unit) \<Rightarrow> serve_error + unit" where
  "serve_console config_path localappdata load run_app =
     and_then (case config_path of
                 Some path \<Rightarrow> Inr path
               | None \<Rightarrow> map_sum ServeConfig id (default_config_path localappdata)) (\<lambda>path.
     and_then (map_sum ServeConfig id (load path)) (\<lambda>cfg.
     run_app cfg path (init_tracing (cfg_logging cfg))))"

text \<open>\<^verbatim>\<open>zicade::run\<close>: start, then run until the shutdown.\<close>

definition zicade_run :: "start_error + 'a \<Rightarrow> ('a \<Rightarrow> serve_error + unit) \<Rightarrow> serve_error + unit" where
  "zicade_run started run_app = and_then (map_sum ServeStart id started) run_app"

definition report :: "serve_error + unit \<Rightarrow> exit_code" where
  "report r = (case r of Inr _ \<Rightarrow> ExitSuccess | Inl _ \<Rightarrow> ExitFailure)"

definition run_console ::
    "io_error + unit \<Rightarrow> string option \<Rightarrow> string option \<Rightarrow> (string \<Rightarrow> main_error + config)
     \<Rightarrow> (config \<Rightarrow> string \<Rightarrow> level_filter_t \<times> bool \<Rightarrow> serve_error + unit) \<Rightarrow> exit_code" where
  "run_console runtime config_path localappdata load run_app =
     (case runtime of
        Inl _ \<Rightarrow> ExitFailure
      | Inr _ \<Rightarrow> report (serve_console config_path localappdata load run_app))"

lemma console_success:
  "run_console runtime config_path localappdata load run_app = ExitSuccess \<longleftrightarrow>
     runtime = Inr () \<and>
     (\<exists>path cfg. (case config_path of Some p \<Rightarrow> path = p | None \<Rightarrow> default_config_path localappdata = Inr path) \<and>
        load path = Inr cfg \<and> run_app cfg path (init_tracing (cfg_logging cfg)) = Inr ())"
  by (cases runtime; cases config_path; cases "default_config_path localappdata")
    (auto simp: run_console_def report_def serve_console_def and_then_def map_sum_Inr split: sum.splits)

text \<open>
  The next start loads what was saved: the file functions over the stored form of the
  configuration, with a text layer that reads back this document.\<close>

definition of_json :: "(string \<Rightarrow> string + json) \<Rightarrow> (json \<Rightarrow> string) \<Rightarrow> string \<Rightarrow> string + config" where
  "of_json parse refusal text =
     and_then (parse text) (\<lambda>j. case config_of_json j of None \<Rightarrow> Inl (refusal j) | Some cfg \<Rightarrow> Inr cfg)"

definition to_json :: "(json \<Rightarrow> string) \<Rightarrow> config \<Rightarrow> string + string" where
  "to_json pretty cfg = Inr (pretty (json_of_config cfg))"

lemma restart_loads_saved:
  assumes "parse (pretty (json_of_config cfg)) = Inr (json_of_config cfg)" and "config_fits cfg"
    and "save_file (to_json pretty) path cfg Written disk = (Inr (), text)"
  shows "load_file (of_json parse refusal) path (Inr text) = Inr cfg"
  using assms config_codec.reads_back [of cfg]
  by (auto simp: save_file_def to_json_def load_file_def of_json_def)

subsection \<open>Tray mode\<close>

datatype tray_failure =
    FailPath main_error | FailConfig main_error | FailRuntimeThread io_error | FailTrayThread io_error

text \<open>
  What the runtime thread reports: its runtime, then \<^verbatim>\<open>App::start\<close>; the message is the
  one the window shows. Nothing is received when the thread ends before it reports.
\<close>

definition serve_on_runtime :: "io_error + unit \<Rightarrow> string + 'c \<Rightarrow> string + 'c" where
  "serve_on_runtime runtime started =
     (case runtime of
        Inl e \<Rightarrow> Inl (''failed to start the async runtime: '' @ io_message e)
      | Inr _ \<Rightarrow> started)"

definition received_or :: "(string + 'c) option \<Rightarrow> string + 'c" where
  "received_or r = (case r of Some x \<Rightarrow> x | None \<Rightarrow> Inl ''the proxy runtime stopped before starting'')"

record 'c tray_run =
  tn_exit :: exit_code
  tn_failure :: "tray_failure option"
  tn_server_thread :: bool
  tn_signalled :: bool
  tn_ui :: "((string + 'c) \<times> bool) option"

definition tray_failed :: "tray_failure \<Rightarrow> bool \<Rightarrow> bool \<Rightarrow> 'c tray_run" where
  "tray_failed f server signalled =
     \<lparr>tn_exit = ExitFailure, tn_failure = Some f, tn_server_thread = server,
      tn_signalled = signalled, tn_ui = None\<rparr>"

text \<open>
  The whole of \<^verbatim>\<open>run_tray_mode\<close>, up to its return after the UI loop: whether the server
  thread was started and the shutdown signalled, and what the UI was launched with.
\<close>

definition run_tray_mode ::
    "bool \<Rightarrow> main_error + string \<Rightarrow> (string \<Rightarrow> main_error + config) \<Rightarrow> io_error + unit
     \<Rightarrow> (string + 'c) option \<Rightarrow> io_error + unit \<Rightarrow> 'c tray_run" where
  "run_tray_mode show_window path load server_spawned received tray_spawned =
     (case path of
        Inl e \<Rightarrow> tray_failed (FailPath e) False False
      | Inr p \<Rightarrow>
     (case load p of
        Inl e \<Rightarrow> tray_failed (FailConfig e) False False
      | Inr cfg \<Rightarrow>
     (case server_spawned of
        Inl e \<Rightarrow> tray_failed (FailRuntimeThread e) False False
      | Inr _ \<Rightarrow>
         (let control = received_or received; show_now = tray_shows_window show_window control in
          case tray_spawned of
            Inl e \<Rightarrow> tray_failed (FailTrayThread e) True True
          | Inr _ \<Rightarrow> \<lparr>tn_exit = ExitSuccess, tn_failure = None, tn_server_thread = True,
                      tn_signalled = True, tn_ui = Some (control, show_now)\<rparr>))))"

text \<open>A server thread is never left running without the signal, and failing to start shows the window.\<close>

lemma tray_mode_signals:
  "tn_server_thread (run_tray_mode w path load server received tray) \<Longrightarrow>
     tn_signalled (run_tray_mode w path load server received tray)"
  by (auto simp: run_tray_mode_def tray_failed_def Let_def split: sum.splits)

lemma tray_mode_exit:
  "tn_exit (run_tray_mode w path load server received tray) = ExitSuccess \<longleftrightarrow>
     tn_ui (run_tray_mode w path load server received tray) \<noteq> None"
  by (simp add: run_tray_mode_def tray_failed_def Let_def split: sum.split)

lemma tray_mode_shows_failure:
  "tn_ui (run_tray_mode w path load server received tray) = Some (Inl reason, vis) \<Longrightarrow> vis"
  by (auto simp: run_tray_mode_def tray_failed_def tray_shows_window_def Let_def split: sum.splits)

subsection \<open>The joined run\<close>

text \<open>
  \<open>rn_flag\<close> is the shutdown channel's value, \<open>rn_signalled\<close> whether the shutdown future has
  resolved, \<open>rn_monitor\<close> whether the monitor thread is alive. The monitor's evaluations reach
  the server as its \<open>EvSetRouting\<close>.
\<close>

record 'r app_run =
  rn_server :: "'r server"
  rn_flag :: bool
  rn_signalled :: bool
  rn_monitor :: bool
  rn_returned :: bool

definition app_run_start :: "io_error + unit \<Rightarrow> 'r server \<Rightarrow> serve_error + 'r app_run" where
  "app_run_start monitor_spawned server =
     map_sum ServeMonitor (\<lambda>_. \<lparr>rn_server = server, rn_flag = False, rn_signalled = False,
                                 rn_monitor = True, rn_returned = False\<rparr>) monitor_spawned"

datatype 'r run_event =
  RnServer "'r server_event" | RnSignal | RnMonitorTurn 'r | RnMonitorExit | RnReturn

inductive run_step :: "'r app_run \<Rightarrow> 'r run_event \<Rightarrow> 'r app_run \<Rightarrow> bool" where
  Serving: "server_step (rn_server a) e s \<Longrightarrow> (e = EvShutdown \<Longrightarrow> rn_flag a) \<Longrightarrow> \<not> rn_returned a \<Longrightarrow>
    run_step a (RnServer e) (a\<lparr>rn_server := s\<rparr>)"
| Signalled: "\<not> rn_signalled a \<Longrightarrow> run_step a RnSignal (a\<lparr>rn_signalled := True, rn_flag := True\<rparr>)"
| MonitorTurn: "rn_monitor a \<Longrightarrow> \<not> rn_flag a \<Longrightarrow>
    run_step a (RnMonitorTurn r) (a\<lparr>rn_server := routing_set r (rn_server a)\<rparr>)"
| MonitorExit: "rn_monitor a \<Longrightarrow> rn_flag a \<Longrightarrow> run_step a RnMonitorExit (a\<lparr>rn_monitor := False\<rparr>)"
| Returned: "sv_phase (rn_server a) = Stopped \<Longrightarrow> rn_signalled a \<Longrightarrow> \<not> rn_returned a \<Longrightarrow>
    run_step a RnReturn (a\<lparr>rn_returned := True, rn_flag := True\<rparr>)"

inductive_cases run_stepE: "run_step a e a'"

abbreviation run_trace :: "'r app_run \<Rightarrow> 'r run_event list \<Rightarrow> 'r app_run \<Rightarrow> bool" where
  "run_trace \<equiv> trace run_step"

text \<open>
  The steps the program takes by itself once it is told to stop, whatever its clients, the
  network and the settings window do: the loop hears the signal, lets time pass, sees its set
  drained, gives up at the deadline and aborts the rest; the monitor thread leaves; the run
  returns. No connection needs to end for them.\<close>

fun own_server_event :: "'r server_event \<Rightarrow> bool" where
  "own_server_event EvShutdown \<longleftrightarrow> True"
| "own_server_event (EvTick n) \<longleftrightarrow> True"
| "own_server_event EvDrained \<longleftrightarrow> True"
| "own_server_event EvTimeout \<longleftrightarrow> True"
| "own_server_event EvAborted \<longleftrightarrow> True"
| "own_server_event _ \<longleftrightarrow> False"

fun own_event :: "'r run_event \<Rightarrow> bool" where
  "own_event (RnServer e) \<longleftrightarrow> own_server_event e"
| "own_event RnMonitorExit \<longleftrightarrow> True"
| "own_event RnReturn \<longleftrightarrow> True"
| "own_event _ \<longleftrightarrow> False"

fun server_events :: "'r run_event list \<Rightarrow> 'r server_event list" where
  "server_events [] = []"
| "server_events (RnServer e # es) = e # server_events es"
| "server_events (_ # es) = server_events es"

lemma server_events_append [simp]: "server_events (es @ fs) = server_events es @ server_events fs"
  by (induction es rule: server_events.induct) auto

text \<open>An execution of such steps only, that takes no more than the given time.\<close>

definition own_run :: "millis \<Rightarrow> 'r app_run \<Rightarrow> 'r app_run \<Rightarrow> bool" where
  "own_run n a b \<longleftrightarrow>
     (\<exists>es. run_trace a es b \<and> list_all own_event es \<and> time_in (server_events es) \<le> n)"

lemma own_run_refl: "own_run n a a"
  unfolding own_run_def by (intro exI [of _ "[]"]) (simp add: trace.Here)

lemma own_run_trans:
  assumes "own_run m a b" and "own_run n b c"
  shows "own_run (m + n) a c"
proof -
  obtain es fs where es: "run_trace a es b" "list_all own_event es" "time_in (server_events es) \<le> m"
    and fs: "run_trace b fs c" "list_all own_event fs" "time_in (server_events fs) \<le> n"
    using assms unfolding own_run_def by blast
  show ?thesis
    unfolding own_run_def
    by (intro exI [of _ "es @ fs"]) (use es fs trace_append [OF fs(1) es(1)] in simp)
qed

lemma own_run_step: "run_step a e b \<Longrightarrow> own_event e \<Longrightarrow> time_in (server_events [e]) \<le> n \<Longrightarrow> own_run n a b"
  unfolding own_run_def by (intro exI [of _ "[e]"]) (simp add: trace_one)

lemma own_run_then:
  "own_run n a b \<Longrightarrow> run_step b e c \<Longrightarrow> own_event e \<Longrightarrow> time_in (server_events [e]) = 0 \<Longrightarrow> own_run n a c"
  using own_run_trans [of n a b 0 c] own_run_step [of b e c 0] by simp

definition due_within :: "millis \<Rightarrow> 'r server \<Rightarrow> bool" where
  "due_within timeout s \<longleftrightarrow> sv_timeout s = timeout \<and>
     (\<forall>d. sv_phase s = Draining d \<longrightarrow> d \<le> sv_clock s + timeout)"

text \<open>
  The flag is the signal's, the proxy leaves accepting only when it is set, and a drain's
  deadline is at most the timeout away.\<close>

definition run_ok :: "millis \<Rightarrow> 'r app_run \<Rightarrow> bool" where
  "run_ok timeout a \<longleftrightarrow> (rn_flag a = rn_signalled a) \<and>
     (sv_phase (rn_server a) \<noteq> Accepting \<longrightarrow> rn_signalled a) \<and>
     (rn_returned a \<longrightarrow> sv_phase (rn_server a) = Stopped \<and> rn_signalled a) \<and>
     (\<not> rn_monitor a \<longrightarrow> rn_signalled a) \<and>
     due_within timeout (rn_server a)"

lemma server_step_phase:
  "server_step s e s' \<Longrightarrow> sv_phase s = Accepting \<Longrightarrow> sv_phase s' \<noteq> Accepting \<Longrightarrow> e = EvShutdown"
  by (erule server_stepE) (simp_all add: accept_conn_def routing_set_def finish_conn_def detach_tunnel_def)

lemma server_step_due: "server_step s e s' \<Longrightarrow> due_within timeout s \<Longrightarrow> due_within timeout s'"
  by (erule server_stepE)
    (force simp: due_within_def accept_conn_def routing_set_def finish_conn_def detach_tunnel_def)+

lemma due_within_routing [simp]: "due_within timeout (routing_set r s) = due_within timeout s"
  by (simp add: due_within_def routing_set_def)

lemma run_step_ok: "run_step a e a' \<Longrightarrow> run_ok timeout a \<Longrightarrow> run_ok timeout a'"
  by (erule run_stepE)
    (auto simp: run_ok_def dest: server_step_phase server_step_due,
     simp_all add: routing_set_def)

interpretation run_state: kept run_step "run_ok timeout" for timeout
  by unfold_locales (rule run_step_ok)

lemma app_run_start_ok:
  "app_run_start spawned server = Inr a \<Longrightarrow> sv_phase server = Accepting \<Longrightarrow> run_ok (sv_timeout server) a"
  by (cases spawned) (auto simp: app_run_start_def run_ok_def due_within_def)

lemma serve_own:
  assumes "server_run s es t" and "list_all own_server_event es" and "EvShutdown \<notin> set es"
    and "rn_server a = s" and "\<not> rn_returned a"
  shows "own_run (time_in es) a (a\<lparr>rn_server := t\<rparr>)"
  using assms
proof (induction rule: trace.induct)
  case (Here s)
  then have "a\<lparr>rn_server := s\<rparr> = a" by simp
  then show ?case by (simp add: own_run_refl)
next
  case (Then s es t e u)
  have "own_run (time_in es) a (a\<lparr>rn_server := t\<rparr>)" using Then by simp
  moreover have "run_step (a\<lparr>rn_server := t\<rparr>) (RnServer e) ((a\<lparr>rn_server := t\<rparr>)\<lparr>rn_server := u\<rparr>)"
    using Then by (intro Serving) auto
  then have "own_run (time_in [e]) (a\<lparr>rn_server := t\<rparr>) (a\<lparr>rn_server := u\<rparr>)"
    using Then.prems by (intro own_run_step [where e = "RnServer e"]) simp_all
  ultimately show ?case using own_run_trans by fastforce
qed

text \<open>Once it is signalled, the loop gets to the end of its drain within the timeout.\<close>

lemma loop_starts_draining:
  assumes "run_ok timeout a" and "rn_signalled a" and "sv_phase (rn_server a) \<noteq> Stopped"
  obtains d t where "own_run 0 a (a\<lparr>rn_server := t\<rparr>)" and "sv_phase t = Draining d \<or> sv_phase t = Aborting"
    and "d \<le> sv_clock t + timeout"
proof -
  define s where "s = rn_server a"
  have same: "a\<lparr>rn_server := s\<rparr> = a" by (simp add: s_def)
  show thesis
  proof (cases "sv_phase s")
    case Accepting
    let ?t = "s\<lparr>sv_phase := Draining (sv_clock s + sv_timeout s)\<rparr>"
    have "run_step a (RnServer EvShutdown) (a\<lparr>rn_server := ?t\<rparr>)"
      using assms Accepting by (intro Serving) (auto simp: run_ok_def s_def intro: Shutdown)
    then have "own_run 0 a (a\<lparr>rn_server := ?t\<rparr>)" by (rule own_run_step) simp_all
    then show thesis by (rule that [of ?t]) (use assms(1) in \<open>auto simp: run_ok_def due_within_def s_def\<close>)
  next
    case (Draining d)
    with assms(1) show thesis
      by (intro that [of s d]) (simp_all add: same own_run_refl run_ok_def due_within_def s_def)
  next
    case Aborting
    then show thesis by (intro that [of s 0]) (simp_all add: same own_run_refl)
  qed (use assms(3) in \<open>simp add: s_def\<close>)
qed

lemma loop_stops:
  assumes "run_ok timeout a" and "rn_signalled a"
  shows "\<exists>b. own_run timeout a b \<and> sv_phase (rn_server b) = Stopped \<and> rn_signalled b \<and> rn_flag b"
proof (cases "sv_phase (rn_server a) = Stopped")
  case True
  then show ?thesis using assms own_run_refl by (auto simp: run_ok_def)
next
  case False
  then have open_run: "\<not> rn_returned a" using assms(1) by (auto simp: run_ok_def)
  obtain d t where t: "own_run 0 a (a\<lparr>rn_server := t\<rparr>)" "sv_phase t = Draining d \<or> sv_phase t = Aborting"
    "d \<le> sv_clock t + timeout"
    using loop_starts_draining [OF assms False] .
  obtain fs u where u: "server_run t fs u" "sv_phase u = Stopped"
    "set fs \<subseteq> {EvTick (d - sv_clock t), EvDrained, EvTimeout, EvAborted}" "time_in fs \<le> d - sv_clock t"
    using server_can_stop [OF t(2)] by blast
  from u(3) have "list_all own_server_event fs" and "EvShutdown \<notin> set fs" by (auto simp: list_all_iff)
  with u(1) open_run have "own_run (time_in fs) (a\<lparr>rn_server := t\<rparr>) (a\<lparr>rn_server := u\<rparr>)"
    using serve_own [of t fs u "a\<lparr>rn_server := t\<rparr>"] by simp
  from own_run_trans [OF t(1) this] have "own_run (time_in fs) a (a\<lparr>rn_server := u\<rparr>)" by simp
  moreover have "time_in fs \<le> timeout" using u(4) t(3) by linarith
  ultimately have "own_run timeout a (a\<lparr>rn_server := u\<rparr>)"
    unfolding own_run_def by (meson order_trans)
  then show ?thesis using u(2) assms by (intro exI [of _ "a\<lparr>rn_server := u\<rparr>"]) (simp add: run_ok_def)
qed

lemma run_can_return:
  assumes "run_ok timeout a" and "rn_signalled a"
  shows "\<exists>b. own_run timeout a b \<and> rn_returned b \<and> \<not> rn_monitor b \<and> sv_phase (rn_server b) = Stopped"
proof -
  obtain b where b: "own_run timeout a b" "sv_phase (rn_server b) = Stopped" "rn_signalled b" "rn_flag b"
    using loop_stops [OF assms] by blast
  let ?c = "if rn_monitor b then b\<lparr>rn_monitor := False\<rparr> else b"
  have c: "own_run timeout a ?c"
    using b by (auto intro: own_run_then [OF b(1) MonitorExit])
  let ?d = "if rn_returned ?c then ?c else ?c\<lparr>rn_returned := True, rn_flag := True\<rparr>"
  have "own_run timeout a ?d"
  proof (cases "rn_returned ?c")
    case False
    then have "run_step ?c RnReturn ?d" using b by (auto intro: Returned)
    then show ?thesis by (rule own_run_then [OF c]) simp_all
  qed (use c in simp)
  then show ?thesis using b by (intro exI [of _ ?d]) simp
qed



end
