(* ===== verification/Display.thy ===== *)
theory Display
  imports F64 Observe
begin

text \<open>
  The numbers the window shows, \<^verbatim>\<open>crates/zicade-ui/src\<close>: the throughput history and
  the formatting of counts, sizes and durations (\<^verbatim>\<open>throughput.rs\<close>), the chart's
  scale and drawing (\<^verbatim>\<open>chart_model.rs\<close>) and the rates of the single connections
  (\<^verbatim>\<open>connection_rates.rs\<close>). An instant is its offset in nanoseconds; a rate is an
  \<^verbatim>\<open>f64\<close> in the sense of \<open>F64\<close>.
  The lemmas: the history is the newest rates between the samples that advance the clock, the
  rates followed are those of the last snapshot's connections, a count keeps its digits, and
  the chart's scale covers the peak.
\<close>

subsection \<open>Rates\<close>

type_synonym nanos = nat

type_synonym rates = "rat \<times> rat"

definition as_secs_f64 :: "nanos \<Rightarrow> rat" where
  "as_secs_f64 d = f64 (f64 (of_nat (d div 10 ^ 9)) + f64 (of_nat (d mod 10 ^ 9) / 10 ^ 9))"

definition saturating_sub :: "u64 \<Rightarrow> u64 \<Rightarrow> u64" where
  "saturating_sub a b = (if b \<le> a then a - b else 0)"

text \<open>The closure \<^verbatim>\<open>rate\<close> of both samplers.\<close>

definition rate_between :: "rat \<Rightarrow> u64 \<Rightarrow> u64 \<Rightarrow> rat" where
  "rate_between elapsed now before = f64 (f64 (of_int (uint (saturating_sub now before))) / elapsed)"

record throughput =
  tp_capacity :: nat
  tp_previous :: "(u64 \<times> u64 \<times> nanos) option"
  tp_history :: "rates list"

definition throughput_new :: "nat \<Rightarrow> throughput" where
  "throughput_new capacity = \<lparr>tp_capacity = capacity, tp_previous = None, tp_history = []\<rparr>"

definition sample :: "throughput \<Rightarrow> u64 \<times> u64 \<times> nanos \<Rightarrow> throughput" where
  "sample t s =
     (case (s, tp_previous t) of
        (_, None) \<Rightarrow> t\<lparr>tp_previous := Some s\<rparr>
      | ((bytes_in, bytes_out, now), Some (prev_in, prev_out, prev_at)) \<Rightarrow>
          (let elapsed = as_secs_f64 (now - prev_at) in
           if elapsed \<le> 0 then t
           else t\<lparr>tp_history := deque_push (tp_capacity t) (tp_history t)
                    (rate_between elapsed bytes_in prev_in, rate_between elapsed bytes_out prev_out),
                  tp_previous := Some s\<rparr>))"

definition throughput_latest :: "throughput \<Rightarrow> rates option" where
  "throughput_latest t = (case rev (tp_history t) of [] \<Rightarrow> None | r # _ \<Rightarrow> Some r)"

subsection \<open>Text\<close>

text \<open>The loop over the units: at most \<open>n\<close> of them are left.\<close>

fun unit_loop :: "nat \<Rightarrow> rat \<Rightarrow> nat \<Rightarrow> rat \<times> nat" where
  "unit_loop 0 v u = (v, u)"
| "unit_loop (Suc n) v u = (if 1024 \<le> v then unit_loop n (v / 1024) (u + 1) else (v, u))"

definition fixed0 :: "rat \<Rightarrow> string" where
  "fixed0 v = show_int (round_half_even v)"

definition fixed1 :: "rat \<Rightarrow> string" where
  "fixed1 v = (let n = round_half_even (v * 10) in show_int (n div 10) @ ''.'' @ show_int (n mod 10))"

definition rate_units :: "string list" where
  "rate_units = [''B/s'', ''KB/s'', ''MB/s'', ''GB/s'']"

definition format_bytes_per_sec :: "rat \<Rightarrow> string" where
  "format_bytes_per_sec bps =
     (case unit_loop (length rate_units - 1) (max bps 0) 0 of
        (v, u) \<Rightarrow>
          if 0 < u \<and> v < 10 then fixed1 v @ '' '' @ rate_units ! u
          else fixed0 v @ '' '' @ rate_units ! u)"

definition format_count :: "u64 \<Rightarrow> string" where
  "format_count n =
     (let digits = show_word n in
      concat (map (\<lambda>(i, ch). if 0 < i \<and> (length digits - i) mod 3 = 0 then [CHR '','', ch] else [ch])
                (enumerate 0 digits)))"

text \<open>\<open>strip_per_sec\<close> is \<^verbatim>\<open>trim_end_matches("/s")\<close>, on the reversed text.\<close>

fun strip_per_sec :: "string \<Rightarrow> string" where
  "strip_per_sec (c # d # rest) =
     (if c = CHR ''s'' \<and> d = CHR ''/'' then strip_per_sec rest else c # d # rest)"
| "strip_per_sec s = s"

definition format_bytes :: "u64 \<Rightarrow> string" where
  "format_bytes n = rev (strip_per_sec (rev (format_bytes_per_sec (f64 (of_int (uint n))))))"

definition pad2 :: "nat \<Rightarrow> string" where
  "pad2 n = (if n < 10 then ''0'' @ show_nat n else show_nat n)"

text \<open>The duration in whole seconds.\<close>

definition format_duration :: "nat \<Rightarrow> string" where
  "format_duration secs =
     (let h = secs div 3600; m = secs div 60 mod 60; s = secs mod 60 in
      if h = 0 \<and> m = 0 then show_nat s @ ''s''
      else if h = 0 then show_nat m @ ''m '' @ pad2 s @ ''s''
      else show_nat h @ ''h '' @ pad2 m @ ''m'')"

subsection \<open>The chart\<close>

definition window_points :: nat where
  "window_points = 61"

record scale =
  sc_step :: rat
  sc_steps :: nat

definition scale_top :: "scale \<Rightarrow> rat" where
  "scale_top s = f64 (sc_step s * of_nat (sc_steps s))"

definition steps_for :: "rat \<Rightarrow> rat \<Rightarrow> nat" where
  "steps_for peak step = max (nat \<lceil>f64 (peak / step)\<rceil>) 2"

text \<open>The steps in the order of the two loops: five binary units, nine sizes of each.\<close>

definition scale_candidates :: "rat list" where
  "scale_candidates =
     concat (map (\<lambda>unit. map (\<lambda>size. size * unit) [1, 2, 5, 10, 20, 50, 100, 200, 500])
               [1024, 1024 ^ 2, 1024 ^ 3, 1024 ^ 4, 1024 ^ 5])"

definition chart_scale :: "rat \<Rightarrow> scale" where
  "chart_scale peak =
     (case List.find (\<lambda>step. steps_for peak step \<le> 4) scale_candidates of
        Some step \<Rightarrow> \<lparr>sc_step = step, sc_steps = steps_for peak step\<rparr>
      | None \<Rightarrow> \<lparr>sc_step = f64 (peak / 4), sc_steps = 4\<rparr>)"

definition rescale :: "scale option \<Rightarrow> rat \<Rightarrow> scale" where
  "rescale current peak =
     (case current of
        Some held \<Rightarrow>
          if peak \<le> scale_top held \<and> f64 (scale_top held * f64 (4 / 10)) \<le> peak then held
          else chart_scale peak
      | None \<Rightarrow> chart_scale peak)"

fun drop_point_zero :: "string \<Rightarrow> string" where
  "drop_point_zero (a # b # c # rest) =
     (if [a, b, c] = ''.0 '' then CHR '' '' # drop_point_zero rest else a # drop_point_zero (b # c # rest))"
| "drop_point_zero s = s"

definition axis_rate :: "rat \<Rightarrow> string" where
  "axis_rate bps = drop_point_zero (format_bytes_per_sec bps)"

definition when_label :: "nat \<Rightarrow> string" where
  "when_label index =
     (let ago = window_points - (index + 1) in
      if ago = 0 then ''now'' else if 60 \<le> ago then ''1 min ago'' else show_nat ago @ '' s ago'')"

definition series :: "rates list \<Rightarrow> rates list" where
  "series history =
     (let wanted = window_points + 1; start = length history - wanted
      in replicate (wanted - (length history - start)) (0, 0) @ drop start history)"

definition clamp01 :: "rat \<Rightarrow> rat" where
  "clamp01 x = max 0 (min x 1)"

definition slide :: "rat \<Rightarrow> rat" where
  "slide progress = f32 (f32 (clamp01 progress) / of_nat (window_points - 1))"

definition rate_at :: "rates list \<Rightarrow> rat \<Rightarrow> rates" where
  "rate_at history progress =
     (let p = clamp01 progress; move = (\<lambda>a b. f64 (a + f64 (f64 (b - a) * p))) in
      case rev history of
        [] \<Rightarrow> (0, 0)
      | [only] \<Rightarrow> only
      | (b_in, b_out) # (a_in, a_out) # _ \<Rightarrow> (move a_in b_in, move a_out b_out))"

subsection \<open>The rates of the connections\<close>

record connection_rates =
  cr_last :: "u64 \<rightharpoonup> u64 \<times> u64 \<times> nanos"
  cr_rates :: "u64 \<rightharpoonup> rates"

definition rates_default :: connection_rates where
  "rates_default = \<lparr>cr_last = (\<lambda>_. None), cr_rates = (\<lambda>_. None)\<rparr>"

text \<open>The body of the loop over the snapshot; \<open>old\<close> is the state before the update.\<close>

definition follow_connection ::
    "connection_rates \<Rightarrow> nanos \<Rightarrow> connection_rates \<Rightarrow> connection_snapshot \<Rightarrow> connection_rates" where
  "follow_connection old now new c =
     (let rates =
        (case cr_last old (sn_id c) of
           None \<Rightarrow> cr_rates new
         | Some (up, down, since) \<Rightarrow>
             (let elapsed = as_secs_f64 (now - since) in
              if 0 < elapsed
              then (cr_rates new)(sn_id c \<mapsto> (rate_between elapsed (sn_up c) up,
                                           rate_between elapsed (sn_down c) down))
              else (case cr_rates old (sn_id c) of
                      Some kept \<Rightarrow> (cr_rates new)(sn_id c \<mapsto> kept)
                    | None \<Rightarrow> cr_rates new)))
      in \<lparr>cr_last = (cr_last new)(sn_id c \<mapsto> (sn_up c, sn_down c, now)), cr_rates = rates\<rparr>)"

definition update_rates :: "connection_rates \<Rightarrow> connection_snapshot list \<Rightarrow> nanos \<Rightarrow> connection_rates" where
  "update_rates old connections now = foldl (follow_connection old now) rates_default connections"

definition rate_of :: "connection_rates \<Rightarrow> u64 \<Rightarrow> rates option" where
  "rate_of r i = cr_rates r i"

definition tracked :: "connection_rates \<Rightarrow> nat" where
  "tracked r = card (dom (cr_last r))"

subsection \<open>The throughput history\<close>

lemma as_secs_f64_pos: "0 < as_secs_f64 d \<longleftrightarrow> 0 < d"
proof (cases "d = 0")
  case True
  then show ?thesis by (simp add: as_secs_f64_def)
next
  case False
  let ?s = "rat_of_nat (d div 10 ^ 9)" and ?n = "rat_of_nat (d mod 10 ^ 9) / 10 ^ 9"
  have "0 < ?s \<or> 0 < ?n" using False by (metis add.right_neutral div_mult_mod_eq gr0I mult_0
    of_nat_0_less_iff zero_less_divide_iff zero_less_numeral zero_less_power)
  moreover have "0 \<le> f64 ?s" "0 \<le> f64 ?n" by (intro float_round_nonneg; simp)+
  moreover have "0 < ?s \<Longrightarrow> 0 < f64 ?s" "0 < ?n \<Longrightarrow> 0 < f64 ?n" by (intro float_round_pos; simp)+
  ultimately have "0 < f64 ?s + f64 ?n" by (metis add_nonneg_pos add_pos_nonneg)
  then have "0 < as_secs_f64 d" unfolding as_secs_f64_def by (intro float_round_pos) simp_all
  then show ?thesis using False by simp
qed

lemma rate_between_nonneg: "0 \<le> elapsed \<Longrightarrow> 0 \<le> rate_between elapsed now before"
  unfolding rate_between_def
  by (intro float_round_nonneg divide_nonneg_nonneg) (simp_all add: float_round_nonneg del: of_int_uint)

lemma rate_between_0: "0 < elapsed \<Longrightarrow> rate_between elapsed now before = 0 \<longleftrightarrow> now \<le> before"
proof -
  assume e: "0 < elapsed"
  have "0 \<le> f64 (rat_of_int (uint (saturating_sub now before)))"
    by (intro float_round_nonneg) (simp_all del: of_int_uint)
  then have "rate_between elapsed now before = 0 \<longleftrightarrow> f64 (rat_of_int (uint (saturating_sub now before))) = 0"
    unfolding rate_between_def using e by (subst float_round_eq_0) (auto intro: divide_nonneg_pos)
  also have "\<dots> \<longleftrightarrow> saturating_sub now before = 0"
    by (subst float_round_eq_0) (simp_all del: of_int_uint add: unsigned_eq_0_iff)
  also have "\<dots> \<longleftrightarrow> now \<le> before" by (auto simp: saturating_sub_def)
  finally show ?thesis .
qed

text \<open>The samples after \<open>s\<close> that advance the clock, and the rates from each to the next.\<close>

fun advancing :: "u64 \<times> u64 \<times> nanos \<Rightarrow> (u64 \<times> u64 \<times> nanos) list \<Rightarrow> (u64 \<times> u64 \<times> nanos) list" where
  "advancing s [] = []"
| "advancing s (x # xs) = (if snd (snd s) < snd (snd x) then x # advancing x xs else advancing s xs)"

fun step_rates :: "u64 \<times> u64 \<times> nanos \<Rightarrow> (u64 \<times> u64 \<times> nanos) list \<Rightarrow> rates list" where
  "step_rates s [] = []"
| "step_rates s (x # xs) =
     (let elapsed = as_secs_f64 (snd (snd x) - snd (snd s))
      in (rate_between elapsed (fst x) (fst s), rate_between elapsed (fst (snd x)) (fst (snd s))))
     # step_rates x xs"

lemma sample_run:
  assumes "tp_previous t = Some s" and "length (tp_history t) \<le> tp_capacity t" and "0 < tp_capacity t"
  shows "tp_history (foldl sample t xs) =
           newest (tp_capacity t) (tp_history t @ step_rates s (advancing s xs))"
  using assms
proof (induction xs arbitrary: t s)
  case (Cons x xs)
  show ?case
  proof (cases "snd (snd s) < snd (snd x)")
    case True
    let ?e = "as_secs_f64 (snd (snd x) - snd (snd s))"
    let ?r = "(rate_between ?e (fst x) (fst s), rate_between ?e (fst (snd x)) (fst (snd s)))"
    let ?t = "t\<lparr>tp_history := deque_push (tp_capacity t) (tp_history t) ?r, tp_previous := Some x\<rparr>"
    have "\<not> ?e \<le> 0" using True as_secs_f64_pos [of "snd (snd x) - snd (snd s)"] by simp
    then have x: "sample t x = ?t"
      using Cons.prems(1) by (auto simp: sample_def Let_def split: prod.split)
    have h: "tp_history ?t = newest (tp_capacity t) (tp_history t @ [?r])"
      using deque.push_items [of "tp_history t" "tp_capacity t" ?r] Cons.prems by simp
    have "tp_history (foldl sample ?t xs) =
        newest (tp_capacity ?t) (tp_history ?t @ step_rates x (advancing x xs))"
      using Cons.prems h by (intro Cons.IH) (simp_all add: newest_length)
    then show ?thesis using True x h newest_newest_append [of "tp_capacity t" "tp_history t @ [?r]"]
      by (simp add: Let_def)
  next
    case False
    then have "as_secs_f64 (snd (snd x) - snd (snd s)) \<le> 0"
      using as_secs_f64_pos [of "snd (snd x) - snd (snd s)"] by simp
    then have "sample t x = t" using Cons.prems(1) by (auto simp: sample_def Let_def split: prod.split)
    then show ?thesis using Cons False by simp
  qed
qed simp

text \<open>
  The throughput history is the newest \<open>capacity\<close> rates, each between two successive samples
  that advanced the clock: a sample at the same or an earlier instant changes nothing, and
  is not the base of the next rate either.\<close>

theorem throughput_history_exact:
  assumes "0 < capacity"
  shows "tp_history (foldl sample (throughput_new capacity) (s # samples)) =
           newest capacity (step_rates s (advancing s samples))"
proof -
  have "sample (throughput_new capacity) s = (throughput_new capacity)\<lparr>tp_previous := Some s\<rparr>"
    by (simp add: sample_def throughput_new_def split: prod.split)
  then show ?thesis
    using assms sample_run [of "(throughput_new capacity)\<lparr>tp_previous := Some s\<rparr>" s samples]
    by (simp add: throughput_new_def)
qed

theorem throughput_history_exact_witness:
  "tp_history (foldl sample (throughput_new 1) ((0, 0, 0) # [(2048, 0, 10 ^ 9), (9, 9, 5), (4096, 1, 3 * 10 ^ 9)])) =
     newest 1 (step_rates (0, 0, 0) (advancing (0, 0, 0) [(2048, 0, 10 ^ 9), (9, 9, 5), (4096, 1, 3 * 10 ^ 9)]))"
  by (rule throughput_history_exact) simp

text \<open>A rate is never negative, and zero exactly when nothing was added, as after a restart.\<close>

lemma step_rates_nonneg: "r \<in> set (step_rates s xs) \<Longrightarrow> 0 \<le> fst r \<and> 0 \<le> snd r"
proof (induction xs arbitrary: s)
  case (Cons x xs)
  have "0 \<le> as_secs_f64 d" for d using as_secs_f64_pos [of d] by (cases "d = 0") (simp_all add: as_secs_f64_def)
  then have first: "0 \<le> rate_between (as_secs_f64 d) n m" for d n m by (rule rate_between_nonneg)
  show ?case
  proof (cases "r \<in> set (step_rates x xs)")
    case True
    then show ?thesis by (rule Cons.IH)
  next
    case False
    with Cons.prems first show ?thesis by (simp add: Let_def)
  qed
qed simp

subsection \<open>The drawn series\<close>

text \<open>What is drawn always spans the window: the newest 62 points, after a silent past.\<close>

lemma series_newest: "series history = newest 62 (replicate 62 (0, 0) @ history)"
  by (cases "length history \<le> 62") (auto simp: series_def newest_def window_points_def Let_def)

lemma series_length: "length (series history) = 62"
  by (simp add: series_newest newest_length)

subsection \<open>The scale\<close>

lemma f64_below:
  assumes "0 \<le> x" and "f64 x \<le> y"
  shows "x * (1 - 1 / 2 ^ 53) \<le> y"
proof -
  have "\<bar>f64 x - x\<bar> * 2 ^ 53 \<le> x" using float_round_error [of 53 x] assms by simp
  moreover have "(x - f64 x) * 2 ^ 53 \<le> \<bar>f64 x - x\<bar> * 2 ^ 53" by (intro mult_right_mono) simp_all
  ultimately have "(x - f64 x) * 2 ^ 53 \<le> x" by linarith
  then have "x - f64 x \<le> x / 2 ^ 53" by (simp add: field_simps)
  then have "x - x / 2 ^ 53 \<le> y" using assms by linarith
  then show ?thesis by (simp add: right_diff_distrib)
qed

lemma steps_for_covers:
  assumes "0 \<le> peak" and "0 < step"
  shows "peak * (1 - 1 / 2 ^ 53) \<le> step * of_nat (steps_for peak step)"
proof -
  have "f64 (peak / step) \<le> of_nat (steps_for peak step)"
    unfolding steps_for_def by (simp add: max_def) linarith
  then have "peak / step * (1 - 1 / 2 ^ 53) \<le> of_nat (steps_for peak step)"
    using assms by (intro f64_below) simp_all
  then show ?thesis using assms by (simp add: field_simps)
qed

lemma scale_candidates_pos: "step \<in> set scale_candidates \<Longrightarrow> 1024 \<le> step"
  by (auto simp: scale_candidates_def)

text \<open>
  The chart's scale has two to four steps and reaches the peak, up to one rounding of the
  division, whatever the peak; the step is at least 1 KB/s and the smallest of the sequence
  that does.\<close>

theorem chart_scale_covers:
  assumes "0 \<le> peak"
  shows "2 \<le> sc_steps (chart_scale peak) \<and> sc_steps (chart_scale peak) \<le> 4 \<and>
    peak * (1 - 1 / 2 ^ 53) \<le> sc_step (chart_scale peak) * of_nat (sc_steps (chart_scale peak)) \<and>
    list_all (\<lambda>step. 4 < steps_for peak step)
      (takeWhile (\<lambda>step. step \<noteq> sc_step (chart_scale peak)) scale_candidates)"
proof (cases "List.find (\<lambda>step. steps_for peak step \<le> 4) scale_candidates")
  case None
  have "peak / 4 * (1 - 1 / 2 ^ 53) \<le> f64 (peak / 4)" using assms by (intro f64_below) simp_all
  moreover have "list_all (\<lambda>step. 4 < steps_for peak step) (takeWhile P scale_candidates)" for P
    using None by (auto simp: find_None_iff list_all_iff not_le dest: set_takeWhileD)
  ultimately show ?thesis using None by (simp add: chart_scale_def)
next
  case (Some step)
  then obtain i where i: "i < length scale_candidates" "step = scale_candidates ! i"
      "steps_for peak step \<le> 4" "\<forall>j<i. \<not> steps_for peak (scale_candidates ! j) \<le> 4"
    by (auto simp: find_Some_iff)
  have "takeWhile (\<lambda>s. s \<noteq> step) scale_candidates = take i scale_candidates"
  proof (rule takeWhile_eq_take_P_nth)
    fix j assume "j < i" "j < length scale_candidates"
    with i show "scale_candidates ! j \<noteq> step" by metis
  qed (use i in simp)
  moreover have "list_all (\<lambda>step. 4 < steps_for peak step) (take i scale_candidates)"
    using i by (auto simp: list_all_length)
  moreover have "0 < step" using scale_candidates_pos [of step] i by fastforce
  ultimately show ?thesis
    using Some i steps_for_covers [OF assms, of step]
    by (simp add: chart_scale_def steps_for_def)
qed

theorem chart_scale_covers_witness:
  "2 \<le> sc_steps (chart_scale 3000000) \<and> sc_steps (chart_scale 3000000) \<le> 4 \<and>
    3000000 * (1 - 1 / 2 ^ 53) \<le> sc_step (chart_scale 3000000) * of_nat (sc_steps (chart_scale 3000000)) \<and>
    list_all (\<lambda>step. 4 < steps_for 3000000 step)
      (takeWhile (\<lambda>step. step \<noteq> sc_step (chart_scale 3000000)) scale_candidates)"
  by (rule chart_scale_covers) simp

text \<open>The scale on screen is kept only while the peak fits under it.\<close>

lemma rescale_fits:
  "rescale current peak = chart_scale peak \<or>
     (\<exists>held. current = Some held \<and> rescale current peak = held \<and> peak \<le> scale_top held)"
  by (auto simp: rescale_def split: option.split)

subsection \<open>The connections followed\<close>

lemma follow_last_dom:
  "dom (cr_last (foldl (follow_connection old now) new cs)) = dom (cr_last new) \<union> sn_id ` set cs"
  by (induction cs arbitrary: new) (auto simp: follow_connection_def Let_def)

lemma follow_rates_dom:
  "dom (cr_rates new) \<subseteq> dom (cr_last new) \<Longrightarrow>
     dom (cr_rates (foldl (follow_connection old now) new cs)) \<subseteq>
     dom (cr_last (foldl (follow_connection old now) new cs))"
proof (induction cs arbitrary: new)
  case (Cons c cs)
  have "dom (cr_rates (follow_connection old now new c)) \<subseteq> dom (cr_last (follow_connection old now new c))"
    using Cons.prems by (auto simp: follow_connection_def Let_def split: option.splits if_splits)
  then show ?case using Cons.IH by simp
qed simp

text \<open>
  The sampler follows exactly the connections of the last snapshot, so it never grows past
  it; a connection new to it has no rate yet.\<close>

lemma rates_follow_snapshot:
  "dom (cr_last (update_rates r cs now)) = sn_id ` set cs"
  "dom (cr_rates (update_rates r cs now)) \<subseteq> sn_id ` set cs"
  using follow_last_dom [of r now rates_default cs] follow_rates_dom [of rates_default r now cs]
  by (auto simp: update_rates_def rates_default_def)

lemma tracked_bounded: "tracked (update_rates r cs now) \<le> length cs"
  using card_length [of "map sn_id cs"] by (simp add: tracked_def rates_follow_snapshot)

lemma new_connection_no_rate:
  assumes "cr_last r i = None"
  shows "rate_of (update_rates r cs now) i = None"
proof -
  have "cr_rates new i = None \<Longrightarrow> cr_rates (foldl (follow_connection r now) new cs) i = None" for new
  proof (induction cs arbitrary: new)
    case (Cons c cs)
    have "cr_rates (follow_connection r now new c) i = None"
      using Cons.prems assms by (auto simp: follow_connection_def Let_def split: option.split)
    then show ?case using Cons.IH by simp
  qed simp
  then show ?thesis by (simp add: rate_of_def update_rates_def rates_default_def)
qed

subsection \<open>Text\<close>

text \<open>Dividing by 1024 loses nothing: the unit and the number shown denote the rate.\<close>

lemma unit_loop_exact: "unit_loop n v u = (v', u') \<Longrightarrow> u \<le> u' \<and> u' \<le> u + n \<and> v' * 1024 ^ (u' - u) = v \<and> (v' < 1024 \<or> u' = u + n)"
proof (induction n arbitrary: v u)
  case (Suc n)
  show ?case
  proof (cases "1024 \<le> v")
    case True
    with Suc.prems have "unit_loop n (v / 1024) (u + 1) = (v', u')" by simp
    from Suc.IH [OF this] have ih: "u + 1 \<le> u'" "u' \<le> u + 1 + n" "v' * 1024 ^ (u' - (u + 1)) = v / 1024"
      "v' < 1024 \<or> u' = u + 1 + n" by auto
    from ih(1) have "u' - u = Suc (u' - (u + 1))" by simp
    then have "v' * 1024 ^ (u' - u) = (v' * 1024 ^ (u' - (u + 1))) * 1024" by (simp del: Suc_diff_Suc)
    also have "\<dots> = v" using ih(3) by simp
    finally show ?thesis using ih by auto
  qed (use Suc.prems in auto)
qed simp

text \<open>The separators of a count stand before each group of three digits, and nowhere else.\<close>

lemma filter_count:
  assumes "\<forall>c \<in> set ds. c \<noteq> CHR '',''"
  shows "filter (\<lambda>c. c \<noteq> CHR '','')
    (concat (map (\<lambda>(i, ch). if 0 < i \<and> (n - i) mod 3 = 0 then [CHR '','', ch] else [ch]) (enumerate k ds))) = ds"
  using assms by (induction ds arbitrary: k) auto

lemma count_digits: "filter (\<lambda>c. c \<noteq> CHR '','') (format_count n) = show_word n"
proof -
  have "\<forall>c \<in> set (show_word n). c \<noteq> CHR '',''"
  proof
    fix c assume "c \<in> set (show_word n)"
    then have "is_digit c" by (rule show_word_digits)
    then show "c \<noteq> CHR '',''" by (auto simp: is_digit_def code_of_def)
  qed
  then show ?thesis unfolding format_count_def Let_def by (rule filter_count)
qed

lemma count_reads_back: "parse_u64 (filter (\<lambda>c. c \<noteq> CHR '','') (format_count n)) = Some n"
  by (simp add: count_digits)

text \<open>Concrete texts.\<close>

lemma sample_texts:
  "format_count 1234567 = ''1,234,567''"
  "format_count 999 = ''999''"
  "format_bytes 1536 = ''1.5 KB''"
  "format_bytes 0 = ''0 B''"
  "format_bytes 1048575 = ''1024 KB''"
  "format_duration 125 = ''2m 05s''"
  "format_duration 3725 = ''1h 02m''"
  "axis_rate 2097152 = ''2 MB/s''"
  "when_label 0 = ''1 min ago''"
  "when_label 15 = ''45 s ago''"
  by code_simp+

end
