(* ===== verification/Views.thy ===== *)
theory Views
  imports Display Element Win_Tray
begin

text \<open>
  The pages of the window and its loop, \<^verbatim>\<open>crates/zicade-ui/src\<close>: what the
  connections page, the logs page and the overview show (\<^verbatim>\<open>views/connections.rs\<close>,
  \<^verbatim>\<open>views/logs.rs\<close>, \<^verbatim>\<open>views/overview\<close>), the page on screen
  (\<^verbatim>\<open>views/mod.rs\<close>), and the life of the window under the tray's commands
  (\<^verbatim>\<open>shell.rs\<close>). Layout, colours and the toolkit itself are left out; a view is the
  texts and choices it hands to the toolkit.
  The lemmas: the pages show the connections they say, at most one window is ever open, the
  toolkit starts only when the window is wanted, and the window's loop ends after Close.
\<close>

subsection \<open>The connections page\<close>

datatype conn_filter = FilterAll | FilterOpen | FilterFailed

definition conn_filters :: "(conn_filter \<times> string) list" where
  "conn_filters = [(FilterAll, ''All''), (FilterOpen, ''Open''), (FilterFailed, ''Failed'')]"

definition is_live :: "connection_snapshot \<Rightarrow> bool" where
  "is_live c = (sn_state c = StConnecting \<or> sn_state c = StOpen)"

definition conn_failure :: "connection_snapshot \<Rightarrow> string option" where
  "conn_failure c = (case sn_state c of StFailed reason \<Rightarrow> Some reason | _ \<Rightarrow> None)"

fun filter_admits :: "conn_filter \<Rightarrow> connection_snapshot \<Rightarrow> bool" where
  "filter_admits FilterAll c = True"
| "filter_admits FilterOpen c = is_live c"
| "filter_admits FilterFailed c = (case sn_state c of StFailed _ \<Rightarrow> True | _ \<Rightarrow> False)"

record connections_view =
  cv_all :: "connection_snapshot list"
  cv_rates :: connection_rates
  cv_filter :: conn_filter
  cv_search :: input_state

definition connections_refresh :: "connection_snapshot list \<Rightarrow> nanos \<Rightarrow> connections_view \<Rightarrow> connections_view" where
  "connections_refresh connections elapsed v =
     v\<lparr>cv_all := connections, cv_rates := update_rates (cv_rates v) connections elapsed\<rparr>"

definition connections_new :: "connection_snapshot list \<Rightarrow> nanos \<Rightarrow> connections_view" where
  "connections_new connections elapsed =
     connections_refresh connections elapsed
       \<lparr>cv_all = [], cv_rates = rates_default, cv_filter = FilterAll,
        cv_search = input_new [] ''Filter by host or route''\<rparr>"

definition conn_shown :: "connections_view \<Rightarrow> connection_snapshot list" where
  "conn_shown v =
     (let needle = to_lowercase (trim (in_value (cv_search v))) in
      filter (\<lambda>c. needle = [] \<or> contains needle (to_lowercase (sn_target c))
                  \<or> contains needle (to_lowercase (sn_route c)))
        (filter (filter_admits (cv_filter v)) (cv_all v)))"

definition conn_summary :: "connections_view \<Rightarrow> string" where
  "conn_summary v =
     (let open_count = length (filter is_live (cv_all v)) in
      show_nat open_count @ '' open, '' @ show_nat (length (cv_all v) - open_count) @ '' finished'')"

definition conn_filter_clicked :: "nat \<Rightarrow> connections_view \<Rightarrow> connections_view" where
  "conn_filter_clicked index v =
     v\<lparr>cv_filter := (if index < length conn_filters then fst (conn_filters ! index) else FilterAll)\<rparr>"

definition conn_empty_message :: "connections_view \<Rightarrow> string" where
  "conn_empty_message v =
     (if cv_all v = []
      then ''No connections yet. Point a browser or app at the proxy address to see them here.''
      else ''No connections match.'')"

fun kind_label :: "connection_kind \<Rightarrow> string" where
  "kind_label KindTunnel = ''HTTPS''"
| "kind_label (KindHttp method (Some status)) = method @ '' '' @ show_word status"
| "kind_label (KindHttp method None) = method"

definition conn_describe :: "connection_snapshot \<Rightarrow> string" where
  "conn_describe c =
     (let state = (case sn_state c of
           StConnecting \<Rightarrow> ''Connecting'' | StOpen \<Rightarrow> ''Open'' | StClosed \<Rightarrow> ''Closed''
         | StFailed reason \<Rightarrow> ''Failed: '' @ reason)
      in state @ '', '' @ kind_label (sn_kind c) @ '' '' @ sn_target c @ '' via '' @ sn_route c
         @ '', up '' @ format_bytes (sn_up c) @ '', down '' @ format_bytes (sn_down c))"

subsection \<open>The logs page\<close>

definition log_level_tabs :: "(log_levels \<times> string) list" where
  "log_level_tabs = [(LevelsAll, ''All''), (LevelsWarnings, ''Warnings''), (LevelsErrors, ''Errors'')]"

definition levels_clicked :: "nat \<Rightarrow> log_levels" where
  "levels_clicked index =
     (if index < length log_level_tabs then fst (log_level_tabs ! index) else LevelsAll)"

text \<open>\<open>lv_scrolls\<close> counts the requests to scroll to the last line.\<close>

record logs_view =
  lv_buffer :: log_buffer
  lv_scrolls :: nat
  lv_levels :: log_levels
  lv_follow :: bool
  lv_search :: input_state

definition logs_new :: "log_event list \<Rightarrow> logs_view" where
  "logs_new backlog =
     \<lparr>lv_buffer = view_new backlog, lv_scrolls = 1, lv_levels = LevelsAll, lv_follow = True,
      lv_search = input_new [] ''Search logs''\<rparr>"

fun logs_receive :: "logs_view \<Rightarrow> live \<Rightarrow> logs_view" where
  "logs_receive v (LiveEvent e) =
     v\<lparr>lv_buffer := view_receive (lv_buffer v) (LiveEvent e),
       lv_scrolls := (if lv_follow v then lv_scrolls v + 1 else lv_scrolls v)\<rparr>"
| "logs_receive v (LiveLagged n) = v"

definition logs_follow_clicked :: "bool \<Rightarrow> logs_view \<Rightarrow> logs_view" where
  "logs_follow_clicked on v =
     v\<lparr>lv_follow := on, lv_scrolls := (if on then lv_scrolls v + 1 else lv_scrolls v)\<rparr>"

definition logs_shown :: "logs_view \<Rightarrow> log_event list" where
  "logs_shown v = shown (lv_levels v) (in_value (lv_search v)) (lv_buffer v)"

definition log_empty_message :: "log_buffer \<Rightarrow> string" where
  "log_empty_message b = (if lb_events b = [] then ''Nothing logged yet.'' else ''No lines match.'')"

subsection \<open>The overview\<close>

definition recent_rows :: nat where
  "recent_rows = 6"

record overview =
  ov_status :: status_snapshot
  ov_routing :: string
  ov_throughput :: throughput
  ov_open :: "connection_snapshot list"
  ov_open_count :: nat
  ov_rates :: connection_rates
  ov_scale :: "scale option"

definition overview_new :: overview where
  "overview_new =
     \<lparr>ov_status = status_default, ov_routing = [], ov_throughput = throughput_new (window_points + 1),
      ov_open = [], ov_open_count = 0, ov_rates = rates_default, ov_scale = None\<rparr>"

definition routing_sentence :: "config \<Rightarrow> status_snapshot \<Rightarrow> string" where
  "routing_sentence cfg status =
     (let route = (case rt_mode (cfg_routing cfg) of
           ModeDirect \<Rightarrow> ''Connecting to sites directly''
         | ModeUpstream \<Rightarrow> (case rt_upstream (cfg_routing cfg) of
               Some u \<Rightarrow> ''Through '' @ up_host u @ '':'' @ show_word (up_port u)
             | None \<Rightarrow> ''Through the upstream proxy'')
         | ModePac \<Rightarrow> ''Routing each request with the PAC script'')
      in case ss_on_corp status of
           Some True \<Rightarrow> route @ '', on the corporate network''
         | Some False \<Rightarrow> ''Off the corporate network, so connecting directly''
         | None \<Rightarrow> route)"

definition peak_of :: "rates list \<Rightarrow> rat" where
  "peak_of points = foldl max 0 (map (\<lambda>(rx, tx). max rx tx) points)"

text \<open>The refresh, once a second: the status, the redacted configuration and the connections.\<close>

definition overview_refresh ::
    "status_snapshot \<Rightarrow> config \<Rightarrow> connection_snapshot list \<Rightarrow> nanos \<Rightarrow> overview \<Rightarrow> overview" where
  "overview_refresh status redacted connections now v =
     (let tp = sample (ov_throughput v) (ss_bytes_in status, ss_bytes_out status, now);
          live = filter is_live connections
      in v\<lparr>ov_status := status, ov_routing := routing_sentence redacted status, ov_throughput := tp,
           ov_scale := Some (rescale (ov_scale v) (peak_of (series (tp_history tp)))),
           ov_rates := update_rates (ov_rates v) connections now,
           ov_open_count := length live, ov_open := take recent_rows live\<rparr>)"

subsection \<open>The page on screen\<close>

datatype page = PageOverview | PageConnections | PageLogs | PageSettings

definition all_pages :: "page list" where
  "all_pages = [PageOverview, PageConnections, PageLogs, PageSettings]"

fun page_title :: "page \<Rightarrow> string" where
  "page_title PageOverview = ''Overview''"
| "page_title PageConnections = ''Connections''"
| "page_title PageLogs = ''Logs''"
| "page_title PageSettings = ''Settings''"

fun page_description :: "page \<Rightarrow> string" where
  "page_description PageOverview = ''How the proxy is routing and what is going through it.''"
| "page_description PageConnections = ''Requests and tunnels through the proxy, newest first.''"
| "page_description PageLogs = ''What the proxy is doing, newest at the bottom.''"
| "page_description PageSettings = ''Saved changes apply to the running proxy.''"

text \<open>What the listeners of the pages do, each to its view.\<close>

datatype ui_msg =
    MsgShow page | MsgNavigate page | MsgConnFilter nat | MsgLevels nat | MsgFollow bool
  | MsgCorp bool | MsgReload | MsgSave | MsgSaveSettings

datatype ui_action = ShowOverview | ShowConnections | ShowLogs | ShowSettings | SaveSettings

definition key_bindings :: "(string \<times> ui_action) list" where
  "key_bindings =
     [(''ctrl-1'', ShowOverview), (''ctrl-2'', ShowConnections), (''ctrl-3'', ShowLogs),
      (''ctrl-4'', ShowSettings), (''ctrl-s'', SaveSettings)]"

text \<open>The root view: the page, and the pages or the reason the proxy did not start.\<close>

record 'p main_view =
  mv_page :: page
  mv_pages :: "string + 'p"

definition main_view_new :: "string + 'p \<Rightarrow> 'p main_view" where
  "main_view_new pages = \<lparr>mv_page = PageOverview, mv_pages = pages\<rparr>"

definition show_page :: "page \<Rightarrow> 'p main_view \<Rightarrow> 'p main_view" where
  "show_page p v = v\<lparr>mv_page := p\<rparr>"

text \<open>\<open>save\<close> is the settings page's, on the pages; saving also brings that page up.\<close>

definition save_settings :: "('p \<Rightarrow> 'p) \<Rightarrow> 'p main_view \<Rightarrow> 'p main_view" where
  "save_settings save v =
     (case mv_pages v of
        Inr pages \<Rightarrow> (show_page PageSettings v)\<lparr>mv_pages := Inr (save pages)\<rparr>
      | Inl _ \<Rightarrow> v)"

fun on_action :: "('p \<Rightarrow> 'p) \<Rightarrow> 'p main_view \<Rightarrow> ui_action \<Rightarrow> 'p main_view" where
  "on_action save v ShowOverview = show_page PageOverview v"
| "on_action save v ShowConnections = show_page PageConnections v"
| "on_action save v ShowLogs = show_page PageLogs v"
| "on_action save v ShowSettings = show_page PageSettings v"
| "on_action save v SaveSettings = save_settings save v"

text \<open>What the content area holds: the failure, or a page.\<close>

definition main_content :: "'p main_view \<Rightarrow> string + page" where
  "main_content v = map_sum id (\<lambda>_. mv_page v) (mv_pages v)"

subsection \<open>The window and its loop\<close>

datatype ui_command = UcShow | UcQuit

text \<open>
  \<open>mw_alive\<close> are the windows on screen and \<open>mw_next\<close> the handle the toolkit gives next; the
  user may close a window at any time.
\<close>

record main_window =
  mw_handle :: "nat option"
  mw_alive :: "nat list"
  mw_next :: nat

definition main_window_new :: main_window where
  "main_window_new = \<lparr>mw_handle = None, mw_alive = [], mw_next = 0\<rparr>"

text \<open>\<open>ok\<close>: whether the toolkit could open the window.\<close>

definition window_open :: "bool \<Rightarrow> main_window \<Rightarrow> main_window" where
  "window_open ok m =
     (if ok then m\<lparr>mw_handle := Some (mw_next m), mw_alive := mw_next m # mw_alive m, mw_next := mw_next m + 1\<rparr>
      else m\<lparr>mw_handle := None\<rparr>)"

definition window_show :: "bool \<Rightarrow> main_window \<Rightarrow> main_window" where
  "window_show ok m =
     (case mw_handle m of
        Some h \<Rightarrow> if h \<in> set (mw_alive m) then m else window_open ok m
      | None \<Rightarrow> window_open ok m)"

definition window_closed :: "nat \<Rightarrow> main_window \<Rightarrow> main_window" where
  "window_closed h m = m\<lparr>mw_alive := filter (\<lambda>h'. h' \<noteq> h) (mw_alive m)\<rparr>"

text \<open>
  The UI thread: waiting for the first command before the toolkit is started, running the
  loop, running without the tray's side (its channel is gone), or ended.
\<close>

datatype ui = UiWaiting | UiRunning main_window | UiDeaf main_window | UiEnded

datatype ui_event = EvCommand ui_command bool | EvTrayGone | EvClosed nat

text \<open>\<open>wait_for_show\<close> on what the channel gives first, nothing when the tray's side is gone.\<close>

definition wait_for_show :: "ui_command option \<Rightarrow> bool" where
  "wait_for_show received = (received = Some UcShow)"

definition ui_run :: "bool \<Rightarrow> bool \<Rightarrow> ui" where
  "ui_run show_window ok = (if show_window then UiRunning (window_show ok main_window_new) else UiWaiting)"

fun ui_step :: "ui \<Rightarrow> ui_event \<Rightarrow> ui" where
  "ui_step UiWaiting (EvCommand c ok) =
     (if wait_for_show (Some c) then UiRunning (window_show ok main_window_new) else UiEnded)"
| "ui_step UiWaiting EvTrayGone = (if wait_for_show None then UiRunning main_window_new else UiEnded)"
| "ui_step (UiRunning m) (EvCommand UcShow ok) = UiRunning (window_show ok m)"
| "ui_step (UiRunning m) (EvCommand UcQuit ok) = UiEnded"
| "ui_step (UiRunning m) EvTrayGone = UiDeaf m"
| "ui_step (UiRunning m) (EvClosed h) = UiRunning (window_closed h m)"
| "ui_step (UiDeaf m) (EvClosed h) = UiDeaf (window_closed h m)"
| "ui_step u _ = u"

subsection \<open>What the pages show\<close>

lemma conn_shown_sublist: "subseq (conn_shown v) (cv_all v)"
  unfolding conn_shown_def Let_def by (meson subseq_filter_left subseq_order.order_trans)

lemma conn_shown_failed:
  "cv_filter v = FilterFailed \<Longrightarrow> c \<in> set (conn_shown v) \<Longrightarrow> conn_failure c \<noteq> None"
  by (auto simp: conn_shown_def Let_def conn_failure_def split: connection_state.splits)

text \<open>After a refresh the overview lists at most six live connections, of those counted.\<close>

lemma overview_open:
  "let v' = overview_refresh status cfg cs now v in
     length (ov_open v') = min 6 (ov_open_count v') \<and> list_all is_live (ov_open v') \<and>
     ov_open_count v' = length (filter is_live cs)"
  by (auto simp: overview_refresh_def Let_def recent_rows_def list_all_iff dest!: in_set_takeD)

lemma foldl_max_upper: "(a::rat) \<le> foldl max a xs" "x \<in> set xs \<Longrightarrow> x \<le> foldl max a xs"
proof (induction xs arbitrary: a)
  case (Cons y ys)
  { case 1 show ?case using Cons(1) [of "max a y"] by simp }
  { case 2 then show ?case using Cons(1) [of "max a y"] Cons(2) [of "max a y"] by auto }
qed simp_all

lemma peak_of_upper: "r \<in> set points \<Longrightarrow> fst r \<le> peak_of points \<and> snd r \<le> peak_of points"
proof -
  assume "r \<in> set points"
  then have "max (fst r) (snd r) \<le> peak_of points"
    unfolding peak_of_def by (intro foldl_max_upper(2)) force
  then show ?thesis by simp
qed

text \<open>No drawn line leaves the chart: the scale on screen reaches every point of the series.\<close>

lemma overview_scale_fits:
  assumes "r \<in> set (series (tp_history (ov_throughput (overview_refresh status cfg cs now v))))"
    and "ov_scale (overview_refresh status cfg cs now v) = Some sc"
  shows "fst r \<le> scale_top sc \<and> snd r \<le> scale_top sc \<or>
         sc = chart_scale (peak_of (series (tp_history (ov_throughput (overview_refresh status cfg cs now v)))))"
proof -
  let ?tp = "ov_throughput (overview_refresh status cfg cs now v)"
  have "sc = rescale (ov_scale v) (peak_of (series (tp_history ?tp)))"
    using assms(2) by (simp add: overview_refresh_def Let_def)
  then show ?thesis
    using rescale_fits [of "ov_scale v" "peak_of (series (tp_history ?tp))"] peak_of_upper [OF assms(1)] by force
qed

lemma sentence_off_corp:
  "ss_on_corp status = Some False \<Longrightarrow>
     routing_sentence cfg status = ''Off the corporate network, so connecting directly''"
  by (simp add: routing_sentence_def Let_def)

text \<open>Saving from the keyboard always ends on the settings page, unless there are no pages.\<close>

lemma save_settings_page:
  "main_content (on_action save v SaveSettings) =
     (case mv_pages v of Inl reason \<Rightarrow> Inl reason | Inr _ \<Rightarrow> Inr PageSettings)"
  by (simp add: main_content_def save_settings_def show_page_def split: sum.split)

lemma bindings_reach_every_page:
  "mv_pages v = Inr p \<Longrightarrow>
     map (\<lambda>(_, action). main_content (on_action id v action)) (take 4 key_bindings) = map Inr all_pages"
  by (simp add: key_bindings_def all_pages_def main_content_def show_page_def)

subsection \<open>One window at a time\<close>

definition window_ok :: "main_window \<Rightarrow> bool" where
  "window_ok m \<longleftrightarrow> (mw_alive m = [] \<or> (\<exists>h. mw_handle m = Some h \<and> mw_alive m = [h]))"

definition ui_ok :: "ui \<Rightarrow> bool" where
  "ui_ok u = (case u of UiRunning m \<Rightarrow> window_ok m | UiDeaf m \<Rightarrow> window_ok m | _ \<Rightarrow> True)"

lemma window_show_ok: "window_ok m \<Longrightarrow> window_ok (window_show ok m)"
  by (auto simp: window_ok_def window_show_def window_open_def split: option.split)

lemma window_closed_ok: "window_ok m \<Longrightarrow> window_ok (window_closed h m)"
  by (auto simp: window_ok_def window_closed_def split: if_splits)

lemma main_window_new_ok: "window_ok main_window_new"
  by (simp add: window_ok_def main_window_new_def)

interpretation ui_loop: preserving "\<lambda>u e. (ui_step u e, ())" ui_ok
proof
  fix u e s' and x :: unit
  assume "ui_ok u" and "(ui_step u e, ()) = (s', x)"
  moreover note main_window_new_ok
  ultimately show "ui_ok s'"
    by (cases "(u, e)" rule: ui_step.cases)
      (auto simp: ui_ok_def window_show_ok window_closed_ok wait_for_show_def)
qed

lemma ui_run_ok: "ui_ok (ui_run show_window ok)"
  by (simp add: ui_ok_def ui_run_def window_show_ok main_window_new_ok)

text \<open>The state after the events.\<close>

definition ui_after :: "ui \<Rightarrow> ui_event list \<Rightarrow> ui" where
  "ui_after u events = foldl ui_step u events"

lemma run_ui: "fst (run (\<lambda>u e. (ui_step u e, ())) u events) = ui_after u events"
  unfolding ui_after_def by (induction events arbitrary: u) (simp_all split: prod.splits add: run_fst_Cons del: run.simps(2))

definition windows_of :: "ui \<Rightarrow> nat list" where
  "windows_of u = (case u of UiRunning m \<Rightarrow> mw_alive m | UiDeaf m \<Rightarrow> mw_alive m | _ \<Rightarrow> [])"

lemma windows_bounded: "ui_ok u \<Longrightarrow> length (windows_of u) \<le> 1"
  by (auto simp: ui_ok_def windows_of_def window_ok_def split: ui.splits)

text \<open>
  There is never more than one window, whatever the tray asks, the user closes, and the
  toolkit manages to open; and a window that was asked for is there, unless it could not be
  opened.\<close>

theorem one_window_at_a_time:
  "length (windows_of (ui_after (ui_run show_window ok) events)) \<le> 1 \<and>
   (case ui_after (ui_run show_window ok) (events @ [EvCommand UcShow True]) of
      UiRunning m \<Rightarrow> length (mw_alive m) = 1
    | _ \<Rightarrow> True)"
proof -
  let ?u = "ui_after (ui_run show_window ok) events"
  have u: "ui_ok ?u" using ui_loop.run_keeps_fst [OF ui_run_ok, of show_window ok events] by (simp add: run_ui)
  have "case ui_step ?u (EvCommand UcShow True) of UiRunning m \<Rightarrow> length (mw_alive m) = 1 | _ \<Rightarrow> True"
    using u by (cases ?u) (auto simp: ui_ok_def window_ok_def window_show_def window_open_def
        wait_for_show_def main_window_new_def split: option.splits)
  then show ?thesis using windows_bounded [OF u] by (simp add: ui_after_def)
qed

subsection \<open>The tray's commands reach the window\<close>

text \<open>The commands that the tray's effects send, with whether each window could be opened.\<close>

definition commands_of :: "tray_effect list \<Rightarrow> ui_command list" where
  "commands_of effects =
     concat (map (\<lambda>e. case e of UiShow \<Rightarrow> [UcShow] | UiQuit \<Rightarrow> [UcQuit] | _ \<Rightarrow> []) effects)"

lemma ended_stays: "ui_after UiEnded events = UiEnded"
  unfolding ui_after_def by (induction events) simp_all

lemma quit_ends:
  assumes "u = UiWaiting \<or> u = UiEnded \<or> (\<exists>m. u = UiRunning m)" and "EvTrayGone \<notin> set events"
    and "EvCommand UcQuit ok \<in> set events"
  shows "ui_after u events = UiEnded"
  using assms
proof (induction events arbitrary: u)
  case (Cons e events)
  show ?case
  proof (cases "e = EvCommand UcQuit ok")
    case True
    with Cons.prems(1) have "ui_step u e = UiEnded" by (auto simp: wait_for_show_def)
    then show ?thesis using ended_stays [of events] by (simp add: ui_after_def)
  next
    case False
    then have "EvCommand UcQuit ok \<in> set events" using Cons.prems(3) by auto
    moreover have "ui_step u e = UiWaiting \<or> ui_step u e = UiEnded \<or> (\<exists>m. ui_step u e = UiRunning m)"
      using Cons.prems(1,2) by (cases "(u, e)" rule: ui_step.cases) auto
    ultimately show ?thesis using Cons.IH [of "ui_step u e"] Cons.prems(2) by (simp add: ui_after_def)
  qed
qed simp

lemma pump_tray_quits: "UcQuit \<in> set (commands_of (pump_tray clicks failed))"
  by (simp add: commands_of_def pump_tray_def)

text \<open>C34
  When the tray has ended, however it ended, the window's loop ends too and the process can
  exit: the commands it sent include the quit, and whatever the user closed in between, and
  whether the window was ever open, the loop is over after them.\<close>

theorem tray_end_ends_window:
  assumes "map (\<lambda>e. case e of EvCommand c _ \<Rightarrow> c | _ \<Rightarrow> UcShow)
             (filter (\<lambda>e. case e of EvCommand _ _ \<Rightarrow> True | _ \<Rightarrow> False) events) =
           commands_of (pump_tray clicks failed)"
    and "EvTrayGone \<notin> set events"
  shows "ui_after (ui_run show_window ok) events = UiEnded"
proof -
  from pump_tray_quits [of clicks failed] assms(1)
  have "UcQuit \<in> set (map (\<lambda>e. case e of EvCommand c _ \<Rightarrow> c | _ \<Rightarrow> UcShow)
      (filter (\<lambda>e. case e of EvCommand _ _ \<Rightarrow> True | _ \<Rightarrow> False) events))" by simp
  then obtain ok' where "EvCommand UcQuit ok' \<in> set events"
    by (auto split: ui_event.splits)
  then show ?thesis
    using assms(2) by (intro quit_ends [where ok = ok']) (auto simp: ui_run_def)
qed

theorem tray_end_ends_window_witness:
  "ui_after (ui_run False True) [EvCommand UcShow True, EvClosed 0, EvCommand UcQuit True] = UiEnded"
  by (rule tray_end_ends_window [where clicks = "[1, 2]" and failed = False])
    (simp_all add: commands_of_def pump_tray_def tray_action_def open_id_def close_id_def)

text \<open>Started without the window, nothing of the toolkit runs until the window is asked for.\<close>

lemma background_stays_small:
  "\<forall>e \<in> set events. \<forall>ok. e \<noteq> EvCommand UcShow ok \<Longrightarrow>
     ui_after (ui_run False ok) events \<in> {UiWaiting, UiEnded}"
proof (induction events rule: rev_induct)
  case (snoc e events)
  then have u: "ui_after (ui_run False ok) events = UiWaiting \<or> ui_after (ui_run False ok) events = UiEnded"
    by auto
  show ?case
  proof (cases e)
    case (EvCommand c ok')
    with snoc.prems have "c \<noteq> UcShow" by auto
    with u EvCommand show ?thesis by (auto simp: ui_after_def wait_for_show_def)
  qed (use u in \<open>auto simp: ui_after_def wait_for_show_def\<close>)
qed (simp add: ui_after_def ui_run_def)

end
