(* ===== verification/Draw_Overview.thy ===== *)
theory Draw_Overview
  imports Views
begin

text \<open>
  What the overview draws: \<^verbatim>\<open>crates/zicade-ui/src/views/overview\<close> (\<^verbatim>\<open>mod.rs\<close>,
  \<^verbatim>\<open>parts.rs\<close>, \<^verbatim>\<open>chart.rs\<close>), as elements of the toolkit. The arguments are the
  view's state and, for the chart, how far it is between two samples.
  The lemmas: the numbers on the page, for the eye and for a screen reader, are those of the
  last status and read back as them; the chart's drawing covers its frame at every moment and
  the labels stand at the grid lines.
\<close>

subsection \<open>Parts\<close>

definition section_title :: "string \<Rightarrow> 'm element" where
  "section_title text = gdiv (styles [''text_sm'', ''font_semibold'']) [literal text]"

definition total_cell :: "string \<Rightarrow> string \<Rightarrow> string \<Rightarrow> colour option \<Rightarrow> bool \<Rightarrow> 'm element" where
  "total_cell i label shown_value color leading =
     v_flex
       (styles [''flex_1'', ''min_w_0'', ''px_4'', ''py_3'', ''gap_1'']
        @ (if leading then [] else styles [''border_l_1''])
        @ [Paint ''border_color'' ThBorder])
       [gdiv (styles [''text_xs''] @ [Paint ''text_color'' ThMuted]) [literal label],
        gdiv
          ([ElemId (Id i)] @ styles [''test_support''] @ [AriaLabel (shared shown_value)]
           @ styles [''text_lg'', ''font_semibold'']
           @ [Paint ''text_color'' (case color of Some c \<Rightarrow> c | None \<Rightarrow> ThForeground)]
           @ styles [''truncate''])
          [literal shown_value]]"

subsection \<open>The chart\<close>

definition label_every :: nat where
  "label_every = (window_points - 1) div 4"

definition ago_title :: "nat \<Rightarrow> string" where
  "ago_title ago = (if ago = 0 then ''now'' else show_nat ago @ '' s ago'')"

definition legend :: "string \<Rightarrow> string \<Rightarrow> rat \<Rightarrow> colour \<Rightarrow> 'm element" where
  "legend i name rate color =
     (let rate = format_bytes_per_sec rate in
      h_flex (styles [''gap_2'', ''text_sm''])
        [gdiv (styles [''w_3'', ''h_1'', ''rounded_full''] @ [Paint ''bg'' color]) [],
         gdiv [Paint ''text_color'' ThMuted] [literal name],
         gdiv ([ElemId (Id i)] @ styles [''test_support''] @ [AriaLabel (shared rate)] @ styles [''font_medium''])
           [literal rate]])"

text \<open>\<open>points_of\<close> are the drawn points: the title of the moment, and both rates.\<close>

definition points_of :: "rates list \<Rightarrow> (shared_string \<times> rat \<times> rat) list" where
  "points_of drawn =
     map (\<lambda>(i, down, up). (shared (ago_title (length drawn - 1 - i)), down, up)) (enumerate 0 drawn)"

definition area_chart :: "(shared_string \<times> rat \<times> rat) list \<Rightarrow> scale \<Rightarrow> 'm element" where
  "area_chart points sc =
     Elem ''AreaChart''
       ([Plotted points, ElemId (Id ''throughput-chart''),
         Paint ''stroke'' ThChart1, Paint ''fill'' (Faded ThChart1 (f32 (15 / 100))),
         Caption ''name'' (shared ''Download''),
         Paint ''stroke'' ThChart2, Paint ''fill'' (Faded ThChart2 (f32 (15 / 100))),
         Caption ''name'' (shared ''Upload'')]
        @ styles [''linear'']
        @ [Flag ''x_axis'' False, Flag ''y_axis'' False, Flag ''grid'' False,
           Span ''y_domain'' 0 (scale_top sc), Span ''y_padding'' 0 0,
           Worded ''tooltip_value'' (\<lambda>v. shared (format_bytes_per_sec v)), Flag ''appear'' False]) []"

definition grid_top :: "scale \<Rightarrow> nat \<Rightarrow> rat" where
  "grid_top sc i = f32 (1 - f32 (of_nat i / of_nat (sc_steps sc)))"

definition plot_width :: rat where
  "plot_width = f32 (of_nat window_points / of_nat (window_points - 1))"

definition plot :: "rates list \<Rightarrow> scale \<Rightarrow> rat \<Rightarrow> 'm element" where
  "plot drawn sc progress =
     gdiv (styles [''flex_1'', ''min_w_0'', ''h_56'', ''relative''])
       (map (\<lambda>i. gdiv (styles [''absolute'', ''left_0'', ''right_0''] @ [Place ''top'' (grid_top sc i)]
                        @ styles [''border_t_1''] @ [Paint ''border_color'' ThBorder]) [])
          [0..<sc_steps sc + 1]
        @ [gdiv (styles [''absolute'', ''top_0'', ''bottom_0'', ''left_0'', ''right_0'', ''overflow_hidden''])
             [gdiv (styles [''absolute'', ''top_0'', ''bottom_0'']
                    @ [Place ''left'' (- slide progress), Place ''w'' plot_width])
                [area_chart (points_of drawn) sc]]])"

definition value_labels :: "scale \<Rightarrow> 'm element" where
  "value_labels sc =
     gdiv (styles [''w_16'', ''flex_none'', ''relative''])
       (map (\<lambda>i. gdiv (styles [''absolute'', ''right_0'']
                        @ [Place ''bottom'' (f32 (of_nat i / of_nat (sc_steps sc)))]
                        @ styles [''text_xs''] @ [Paint ''text_color'' ThMuted] @ styles [''whitespace_nowrap''])
                   [literal (axis_rate (f64 (sc_step sc * of_nat i)))])
          [0..<sc_steps sc + 1])"

definition time_labels :: "'m element" where
  "time_labels =
     h_flex (styles [''gap_2'', ''text_xs''] @ [Paint ''text_color'' ThMuted])
       [gdiv (styles [''w_16'', ''flex_none'']) [],
        h_flex (styles [''flex_1''])
          (map (\<lambda>i. gdiv (styles [''flex_1'']) [literal (when_label (i * label_every))]) [0..<4]
           @ [gdiv [] [literal (when_label (window_points - 1))]])]"

definition chart_section :: "rates list \<Rightarrow> scale \<Rightarrow> rat \<Rightarrow> 'm element" where
  "chart_section history sc progress =
     (let drawn = series history; (download, upload) = rate_at history progress in
      v_flex (styles [''gap_3''])
        [h_flex (styles [''gap_5''])
           [section_title ''Throughput'', gdiv (styles [''flex_1'']) [],
            legend ''rate-download'' ''Download'' download ThChart1,
            legend ''rate-upload'' ''Upload'' upload ThChart2],
         v_flex (styles [''pt_3'', ''gap_1''])
           [h_flex (styles [''items_stretch'', ''gap_2'']) [value_labels sc, plot drawn sc progress],
            time_labels]])"

subsection \<open>The page\<close>

definition overview_summary :: "overview \<Rightarrow> 'm element" where
  "overview_summary v =
     (let routing = shared (ov_routing v); listen = shared (ss_listen_addr (ov_status v)) in
      h_flex (styles [''gap_6'', ''p_4''] @ [Themed ''rounded'' ''radius_lg''] @ styles [''border_1'']
              @ [Paint ''border_color'' ThBorder])
        [v_flex (styles [''flex_1'', ''min_w_0'', ''gap_1''])
           [h_flex (styles [''gap_2''])
              [gdiv (styles [''size_2'', ''rounded_full''] @ [Paint ''bg'' ThSuccess]) [],
               gdiv (styles [''text_lg'', ''font_semibold'']) [literal ''Running'']],
            gdiv ([ElemId (Id ''stat-routing'')] @ styles [''test_support''] @ [AriaLabel routing]
                  @ styles [''text_sm''] @ [Paint ''text_color'' ThMuted]) [Txt routing]],
         v_flex (styles [''items_end'', ''gap_1''])
           [gdiv (styles [''text_xs''] @ [Paint ''text_color'' ThMuted]) [literal ''Proxy address''],
            h_flex (styles [''gap_1''])
              [gdiv ([ElemId (Id ''stat-listen'')] @ styles [''test_support''] @ [AriaLabel listen,
                     Themed ''font_family'' ''mono_font_family''] @ styles [''text_sm'']) [Txt listen],
               Elem ''Clipboard''
                 [ElemId (Id ''copy-address''), Caption ''value'' listen,
                  Caption ''tooltip'' (shared ''Copy proxy address''),
                  Caption ''accessibility_label'' (shared ''Copy proxy address'')] []]]])"

definition overview_totals :: "overview \<Rightarrow> 'm element" where
  "overview_totals v =
     (let s = ov_status v;
          failed_color = (if 0 < ss_requests_failed s then Some ThDanger else None)
      in h_flex ([Themed ''rounded'' ''radius_lg''] @ styles [''border_1''] @ [Paint ''border_color'' ThBorder])
           [total_cell ''stat-requests'' ''Requests'' (format_count (ss_requests_total s)) None True,
            total_cell ''stat-failed'' ''Failed'' (format_count (ss_requests_failed s)) failed_color False,
            total_cell ''stat-active'' ''Client connections'' (format_count (ss_active_connections s)) None False,
            total_cell ''stat-downloaded'' ''Received'' (format_bytes (ss_bytes_in s)) None False,
            total_cell ''stat-uploaded'' ''Sent'' (format_bytes (ss_bytes_out s)) None False])"

text \<open>The arrows are U+2193 and U+2191.\<close>

definition in_flight_row :: "connection_rates \<Rightarrow> connection_snapshot \<Rightarrow> 'm element" where
  "in_flight_row rates c =
     (let (up, down) = (case rate_of rates (sn_id c) of Some r \<Rightarrow> r | None \<Rightarrow> (0, 0)) in
      h_flex ([ElemId (IdNum ''in-flight'' (unat (sn_id c)))]
              @ styles [''py_1p5'', ''gap_3'', ''text_sm'', ''border_t_1''] @ [Paint ''border_color'' ThBorder])
        [gdiv (styles [''flex_1'', ''min_w_0'', ''truncate'']) [literal (sn_target c)],
         gdiv (styles [''w_20''] @ [Paint ''text_color'' ThMuted]) [literal (kind_label (sn_kind c))],
         gdiv (styles [''w_40'', ''truncate''] @ [Paint ''text_color'' ThMuted]) [literal (sn_route c)],
         gdiv (styles [''w_40'', ''text_right''])
           [Txt (0x2193 # shared ('' '' @ format_bytes_per_sec down @ ''  '')
                 @ 0x2191 # shared ('' '' @ format_bytes_per_sec up))]])"

definition in_flight :: "overview \<Rightarrow> ui_msg element" where
  "in_flight v =
     (let rows = map (in_flight_row (ov_rates v)) (ov_open v);
          header = h_flex (styles [''gap_2''])
            [section_title ''In flight'',
             gdiv (styles [''text_sm''] @ [Paint ''text_color'' ThMuted])
               [literal (format_count (of_nat (ov_open_count v)))],
             gdiv (styles [''flex_1'']) [],
             Elem ''Button''
               ([ElemId (Id ''all-connections'')] @ styles [''ghost'', ''small'']
                @ [Caption ''label'' (shared ''All connections''), Listen (OnClick (MsgNavigate PageConnections))]) []];
          body = (if rows = []
            then gdiv (styles [''py_3'', ''text_sm''] @ [Paint ''text_color'' ThMuted])
                   [literal ''Nothing in flight right now.'']
            else v_flex [] rows)
      in v_flex (styles [''gap_2'']) [header, body])"

text \<open>How far the view is between the samples; \<open>since\<close> is the time from the last one.\<close>

definition chart_progress :: "bool \<Rightarrow> nanos \<Rightarrow> rat" where
  "chart_progress reduce_motion since =
     (if reduce_motion then 1 else f64 (as_secs_f64 since / as_secs_f64 (10 ^ 9)))"

definition overview_render :: "bool \<Rightarrow> nanos \<Rightarrow> overview \<Rightarrow> ui_msg element" where
  "overview_render reduce_motion since v =
     gdiv (styles [''size_full'', ''overflow_y_scrollbar''])
       [v_flex (styles [''px_6'', ''pb_6'', ''gap_6''])
          [overview_summary v,
           chart_section (tp_history (ov_throughput v))
             (case ov_scale v of Some sc \<Rightarrow> sc | None \<Rightarrow> rescale None 0)
             (chart_progress reduce_motion since),
           overview_totals v,
           in_flight v]]"

subsection \<open>What is on the page\<close>

lemma ids_chart: "ids (chart_section history sc progress) = [Id ''rate-download'', Id ''rate-upload'', Id ''throughput-chart'']"
  by (simp add: chart_section_def section_title_def legend_def value_labels_def plot_def area_chart_def
      time_labels_def Let_def comp_def split: prod.split)

lemma ids_row: "ids (in_flight_row r c :: 'm element) = [IdNum ''in-flight'' (unat (sn_id c))]"
  by (simp add: in_flight_row_def Let_def split: prod.split)

definition overview_ids :: "elem_id list" where
  "overview_ids = map Id [''stat-routing'', ''stat-listen'', ''copy-address'', ''rate-download'', ''rate-upload'',
     ''throughput-chart'', ''stat-requests'', ''stat-failed'', ''stat-active'', ''stat-downloaded'', ''stat-uploaded'',
     ''all-connections'']"

lemma ids_overview:
  "ids (overview_render rm since v) =
     overview_ids @ map (\<lambda>c. IdNum ''in-flight'' (unat (sn_id c))) (ov_open v)"
  by (simp add: overview_render_def overview_summary_def overview_totals_def total_cell_def in_flight_def
      ids_chart ids_row section_title_def overview_ids_def Let_def comp_def)

text \<open>The only listener is that of the button under the list.\<close>

lemma reachable_chart: "reachable (chart_section history sc progress) = []"
  by (simp add: chart_section_def section_title_def legend_def value_labels_def plot_def area_chart_def
      time_labels_def Let_def comp_def split: prod.split)

lemma reachable_row: "reachable (in_flight_row r c :: 'm element) = []"
  by (simp add: in_flight_row_def Let_def split: prod.split)

lemma reachable_overview:
  "reachable (overview_render rm since v) = [(AtId (Id ''all-connections''), OnClick (MsgNavigate PageConnections))]"
  by (simp add: overview_render_def overview_summary_def overview_totals_def total_cell_def in_flight_def
      reachable_chart reachable_row section_title_def Let_def comp_def)

text \<open>Every number and sentence of the status stands on the page under its id.\<close>

lemma overview_says:
  "says (overview_render rm since v) ''stat-requests'' (format_count (ss_requests_total (ov_status v)))"
  "says (overview_render rm since v) ''stat-failed'' (format_count (ss_requests_failed (ov_status v)))"
  "says (overview_render rm since v) ''stat-active'' (format_count (ss_active_connections (ov_status v)))"
  "says (overview_render rm since v) ''stat-downloaded'' (format_bytes (ss_bytes_in (ov_status v)))"
  "says (overview_render rm since v) ''stat-uploaded'' (format_bytes (ss_bytes_out (ov_status v)))"
  "says (overview_render rm since v) ''stat-routing'' (ov_routing v)"
  "says (overview_render rm since v) ''stat-listen'' (ss_listen_addr (ov_status v))"
proof -
  have page: "says c i s \<Longrightarrow> c = overview_summary v \<or> c = overview_totals v \<Longrightarrow> says (overview_render rm since v) i s"
    for c :: "ui_msg element" and i s
    unfolding overview_render_def Let_def by (rule says_child, rule says_child [of c]) auto
  have "says (overview_totals v :: ui_msg element) ''stat-requests'' (format_count (ss_requests_total (ov_status v)))"
    "says (overview_totals v :: ui_msg element) ''stat-failed'' (format_count (ss_requests_failed (ov_status v)))"
    "says (overview_totals v :: ui_msg element) ''stat-active'' (format_count (ss_active_connections (ov_status v)))"
    "says (overview_totals v :: ui_msg element) ''stat-downloaded'' (format_bytes (ss_bytes_in (ov_status v)))"
    "says (overview_totals v :: ui_msg element) ''stat-uploaded'' (format_bytes (ss_bytes_out (ov_status v)))"
    by (simp_all add: says_def overview_totals_def total_cell_def Let_def styles_def)
  then show "says (overview_render rm since v) ''stat-requests'' (format_count (ss_requests_total (ov_status v)))"
    "says (overview_render rm since v) ''stat-failed'' (format_count (ss_requests_failed (ov_status v)))"
    "says (overview_render rm since v) ''stat-active'' (format_count (ss_active_connections (ov_status v)))"
    "says (overview_render rm since v) ''stat-downloaded'' (format_bytes (ss_bytes_in (ov_status v)))"
    "says (overview_render rm since v) ''stat-uploaded'' (format_bytes (ss_bytes_out (ov_status v)))"
    by (blast intro: page)+
  have "says (overview_summary v :: ui_msg element) ''stat-routing'' (ov_routing v)"
    "says (overview_summary v :: ui_msg element) ''stat-listen'' (ss_listen_addr (ov_status v))"
    by (simp_all add: says_def overview_summary_def Let_def styles_def)
  then show "says (overview_render rm since v) ''stat-routing'' (ov_routing v)"
    "says (overview_render rm since v) ''stat-listen'' (ss_listen_addr (ov_status v))"
    by (blast intro: page)+
qed

subsection \<open>The geometry of the chart\<close>

text \<open>
  A value label stands at its grid line: the two are placed from opposite edges, and add up to
  the height up to two roundings.\<close>

lemma labels_at_grid_lines:
  assumes "i \<le> sc_steps sc"
  shows "\<bar>grid_top sc i + f32 (of_nat i / of_nat (sc_steps sc)) - 1\<bar> \<le> 1 / 2 ^ 23"
proof -
  let ?q = "rat_of_nat i / of_nat (sc_steps sc)"
  have q: "0 \<le> ?q" "?q \<le> 1" using assms by (cases "sc_steps sc = 0"; simp)+
  then have "\<bar>f32 ?q - ?q\<bar> \<le> 1 / 16777216" by (intro f32_near) simp
  then have b: "\<bar>1 - f32 ?q\<bar> \<le> 2" using q by linarith
  have "\<bar>f32 (1 - f32 ?q) - (1 - f32 ?q)\<bar> \<le> 2 / 16777216" by (rule f32_near [OF b])
  then show ?thesis by (simp add: grid_top_def algebra_simps)
qed

text \<open>
  The drawing is one slot wider than its frame and slides left by at most one slot, so it covers
  the frame at every moment, up to a ten-millionth of the width.\<close>

lemma slide_bounds: "0 \<le> slide p \<and> slide p \<le> 1 / 60 + 1 / 33554432"
proof -
  have c: "0 \<le> clamp01 p" "clamp01 p \<le> 1" by (simp_all add: clamp01_def)
  then have y: "\<bar>f32 (clamp01 p) - clamp01 p\<bar> \<le> 1 / 16777216" by (intro f32_near) simp
  let ?z = "f32 (clamp01 p) / 60"
  have nonneg: "0 \<le> ?z" using c by (simp add: float_round_nonneg)
  have z: "\<bar>?z\<bar> \<le> 1 / 30" using y c nonneg by linarith
  have "\<bar>f32 ?z - ?z\<bar> \<le> 1 / 503316480" using f32_near [OF z] by simp
  moreover have "f32 (clamp01 p) \<le> 1 + 1 / 16777216" using y c by linarith
  then have "?z \<le> 16777217 / 1006632960" by (simp add: field_simps)
  ultimately have "f32 ?z \<le> 1 / 60 + 1 / 33554432" by linarith
  moreover have "0 \<le> f32 ?z" using nonneg by (simp add: float_round_nonneg)
  ultimately show ?thesis by (simp add: slide_def window_points_def)
qed

lemma plot_width_near: "\<bar>plot_width - 61 / 60\<bar> \<le> 61 / 1006632960"
  using f32_near [of "61 / 60" "61 / 60"] by (simp add: plot_width_def window_points_def)

lemma drawing_covers_frame: "1 - 1 / 10 ^ 7 \<le> plot_width - slide p"
proof -
  have "61 / 60 - 61 / 1006632960 \<le> plot_width" using plot_width_near by linarith
  moreover have "(1 :: rat) - 1 / 10 ^ 7 \<le> 61 / 60 - 61 / 1006632960 - (1 / 60 + 1 / 33554432)" by simp
  ultimately show ?thesis using slide_bounds [of p] by linarith
qed

end
