(* ===== verification/Win_Process.thy ===== *)
theory Win_Process
  imports Win_Sspi Draw_Overview
begin

text \<open>
  What the process asks Windows about itself: \<^verbatim>\<open>crates/zicade-win/src/lib.rs\<close>, the
  console functions of \<^verbatim>\<open>tray/mod.rs\<close> and \<^verbatim>\<open>tray/win.rs\<close>, and the usage
  text of \<^verbatim>\<open>apps/zicade/src/main.rs\<close>. \<open>windows\<close> is \<^verbatim>\<open>cfg(windows)\<close>; the
  outcomes of the calls are arguments.
  The lemmas: the probe releases exactly what it acquired; motion is off only when Windows says
  so; off Windows a bare start is never taken for a double-click.
\<close>

subsection \<open>Questions to the system\<close>

text \<open>\<open>None\<close> is a failed call; otherwise the flag it wrote, if it wrote one over the initial 1.\<close>

definition animations_enabled :: "bool \<Rightarrow> 32 word option option \<Rightarrow> bool option" where
  "animations_enabled windows call =
     (if \<not> windows then None
      else (case call of
              None \<Rightarrow> None
            | Some written \<Rightarrow> Some ((case written of Some b \<Rightarrow> b | None \<Rightarrow> 1) \<noteq> 0)))"

definition process_handle_count :: "bool \<Rightarrow> 32 word option option \<Rightarrow> 32 word option" where
  "process_handle_count windows call =
     (if \<not> windows then None
      else (case call of
              None \<Rightarrow> None
            | Some written \<Rightarrow> Some (case written of Some n \<Rightarrow> n | None \<Rightarrow> 0)))"

definition probe_sspi_negotiate ::
    "bool \<Rightarrow> ('w, 'h) sspi_api \<Rightarrow> 'w \<Rightarrow> 'w \<times> (win_error + unit) \<times> 'h release list" where
  "probe_sspi_negotiate windows api w =
     (if \<not> windows then (w, Inl WinUnsupportedPlatform, [])
      else (case api_acquire api w CredOutbound WinNegotiate of
              (w, Inl e) \<Rightarrow> (w, Inl (WinSspi e), [])
            | (w, Inr cred) \<Rightarrow> (w, Inr (), [FreeCredentials cred])))"

subsection \<open>The console\<close>

definition console_process_count :: "bool \<Rightarrow> 32 word \<Rightarrow> nat" where
  "console_process_count windows n = (if windows then unat n else 0)"

datatype console_call = HideWindow | FreeConsole

text \<open>Whether there is a window to hide; the outcomes of the calls are ignored.\<close>

definition hide_console :: "bool \<Rightarrow> bool \<Rightarrow> (win_error + unit) \<times> console_call list" where
  "hide_console windows has_window =
     (if windows then (Inr (), (if has_window then [HideWindow] else []) @ [FreeConsole])
      else (Inl WinUnsupportedPlatform, []))"

text \<open>The NUL-terminated UTF-16 of a text below U+0100.\<close>

definition wide :: "string \<Rightarrow> u16 list" where
  "wide s = map of_char s @ [0]"

subsection \<open>The process\<close>

text \<open>The launch of the window: \<^verbatim>\<open>animations_enabled() == Some(false)\<close>.\<close>

definition reduce_motion :: "bool option \<Rightarrow> bool" where
  "reduce_motion animations = (animations = Some False)"

definition usage_lines :: "string list" where
  "usage_lines =
     [''Zicade - local HTTP/HTTPS forward proxy'',
      [],
      ''USAGE:'',
      ''  zicade [CONFIG_PATH]            Run in the console (default); Ctrl-C to stop'',
      ''  zicade run [CONFIG_PATH]        Same as above, explicit'',
      ''  zicade --background            Run in the tray without opening the window'',
      ''  zicade --help                  Show this help'',
      [],
      ''CONFIG_PATH defaults to %LOCALAPPDATA%'' @ [CHR 0x5C] @ ''Zicade'' @ [CHR 0x5C] @ ''config.json.'']"

definition print_usage :: string where
  "print_usage = join [CHR 0x0A] usage_lines @ [CHR 0x0A]"

subsection \<open>Facts\<close>

lemma probe_releases:
  "probe_sspi_negotiate True api w = (w', r, handles) \<Longrightarrow>
     (case snd (api_acquire api w CredOutbound WinNegotiate) of
        Inr cred \<Rightarrow> r = Inr () \<and> handles = [FreeCredentials cred]
      | Inl e \<Rightarrow> r = Inl (WinSspi e) \<and> handles = [])"
  by (auto simp: probe_sspi_negotiate_def split: prod.splits sum.splits)

text \<open>With motion the drawing moves with the clock; without, each sample shows as it lands.\<close>

lemma motion_follows_windows:
  "chart_progress (reduce_motion (animations_enabled windows call)) since =
     (if windows \<and> call = Some (Some 0) then 1 else f64 (as_secs_f64 since / as_secs_f64 (10 ^ 9)))"
  by (auto simp: chart_progress_def reduce_motion_def animations_enabled_def split: option.splits)

lemma bare_start:
  "main_dispatch (console_process_count windows n) [] =
     (if windows \<and> n = 1 then ProcTray True else ProcConsole None)"
proof -
  have "unat n = 1 \<longleftrightarrow> n = 1" by (metis unat_1 word_unat_eq_iff)
  then show ?thesis
    by (simp add: main_dispatch_def parse_args_def run_default_def launch_mode_def console_process_count_def)
qed

lemma wide_terminated: "last (wide s) = 0 \<and> length (wide s) = Suc (length s)"
  by (simp add: wide_def)

text \<open>The console form of the usage text leaves out that a double-click runs in the tray.\<close>

lemma usage_and_double_click:
  "main_dispatch 1 [] = ProcTray True \<and>
   ''  zicade [CONFIG_PATH]            Run in the console (default); Ctrl-C to stop'' \<in> set usage_lines"
  by (simp add: usage_lines_def main_dispatch_def parse_args_def run_default_def launch_mode_def)

end
