(* ===== verification/Draw_Lists.thy ===== *)
theory Draw_Lists
  imports Views
begin

text \<open>
  What the connections page and the logs page draw:
  \<^verbatim>\<open>crates/zicade-ui/src/views/connections.rs\<close> and \<^verbatim>\<open>views/logs.rs\<close>, as elements
  of the toolkit. A list draws the rows of the range that is scrolled into view; the range is
  the toolkit's choice and an argument, and so is the local clock.
  The lemmas: the rows drawn are the rows shown, in order; a row says the connection's state
  in words, and its accessible label what the sighted reader gets.
\<close>

subsection \<open>The connections page\<close>

record row_colors =
  rc_open :: colour
  rc_failed :: colour
  rc_muted :: colour
  rc_normal :: colour
  rc_border :: colour

text \<open>\<open>calls\<close> are those made on the result.\<close>

definition lanes ::
    "'m element \<Rightarrow> 'm element \<Rightarrow> 'm element \<Rightarrow> 'm element
     \<Rightarrow> 'm element \<times> 'm element \<times> 'm element \<times> 'm element \<Rightarrow> 'm attr list \<Rightarrow> 'm element" where
  "lanes state kind target route numbers calls =
     (case numbers of (time, sent, received, now) \<Rightarrow>
        h_flex (styles [''w_full'', ''px_6'', ''gap_2''] @ calls)
          [gdiv (styles [''w_24'', ''flex_none'']) [state],
           gdiv (styles [''w_16'', ''flex_none'']) [kind],
           gdiv (styles [''flex_1'', ''min_w_0'']) [target],
           gdiv (styles [''w_24'', ''flex_none'', ''truncate'']) [route],
           gdiv (styles [''w_16'', ''flex_none'', ''text_right'']) [time],
           gdiv (styles [''w_16'', ''flex_none'', ''text_right'']) [sent],
           gdiv (styles [''w_16'', ''flex_none'', ''text_right'']) [received],
           gdiv (styles [''w_24'', ''flex_none'', ''text_right'']) [now]])"

definition list_header :: "colour \<Rightarrow> colour \<Rightarrow> 'm element" where
  "list_header muted border =
     (let number = (\<lambda>text. gdiv [] [literal text]) in
      lanes (literal ''State'') (literal ''Kind'') (literal ''Target'') (literal ''Route'')
        (number ''Time'', number ''Sent'', number ''Received'', number ''Now'')
        (styles [''py_1p5'', ''text_xs''] @ [Paint ''text_color'' muted] @ styles [''border_b_1'']
         @ [Paint ''border_color'' border]))"

definition conn_row :: "connection_snapshot \<Rightarrow> rates option \<Rightarrow> row_colors \<Rightarrow> 'm element" where
  "conn_row c rate colors =
     (let (state, state_color) = (case sn_state c of
            StConnecting \<Rightarrow> (''Connecting'', rc_muted colors)
          | StOpen \<Rightarrow> (''Open'', rc_open colors)
          | StClosed \<Rightarrow> (''Closed'', rc_muted colors)
          | StFailed _ \<Rightarrow> (''Failed'', rc_failed colors));
          now = (case rate of
            Some (up, down) \<Rightarrow>
              if is_live c
              then v_flex (styles [''text_xs''])
                     [Txt (0x2193 # shared ('' '' @ format_bytes_per_sec down)),
                      Txt (0x2191 # shared ('' '' @ format_bytes_per_sec up))]
              else gdiv [] []
          | None \<Rightarrow> gdiv [] []);
          state = h_flex (styles [''gap_1p5''])
            [gdiv (styles [''size_1p5'', ''flex_none'', ''rounded_full''] @ [Paint ''bg'' state_color]) [],
             literal state];
          target = v_flex []
            (gdiv (styles [''truncate'']) [literal (sn_target c)]
             # (case conn_failure c of
                  Some reason \<Rightarrow>
                    [gdiv (styles [''text_xs'', ''truncate''] @ [Paint ''text_color'' (rc_failed colors)]) [literal reason]]
                | None \<Rightarrow> []));
          number = (\<lambda>text. gdiv [] [literal text])
      in lanes state
           (gdiv [Paint ''text_color'' (rc_muted colors)] [literal (kind_label (sn_kind c))])
           target
           (gdiv [Paint ''text_color'' (rc_muted colors)] [literal (sn_route c)])
           (number (format_duration (sn_duration c div 1000)), number (format_bytes (sn_up c)),
            number (format_bytes (sn_down c)), now)
           ([ElemId (IdNum ''connection'' (unat (sn_id c)))] @ styles [''test_support'']
            @ [AriaLabel (shared (conn_describe c))] @ styles [''h_10'', ''text_sm'']
            @ [Paint ''text_color'' (if is_live c then rc_normal colors else rc_muted colors)]
            @ styles [''border_b_1''] @ [Paint ''border_color'' (rc_border colors)]))"

definition conn_rows :: "nat \<Rightarrow> nat \<Rightarrow> connections_view \<Rightarrow> 'm element list" where
  "conn_rows first past v =
     (let colors = \<lparr>rc_open = ThSuccess, rc_failed = ThDanger, rc_muted = ThMuted,
                    rc_normal = ThForeground, rc_border = ThBorder\<rparr> in
      map (\<lambda>c. conn_row c (rate_of (cv_rates v) (sn_id c)) colors)
        (take (past - first) (drop first (conn_shown v))))"

text \<open>Where a value stands in a list of choices; the first one when it is not there.\<close>

fun position :: "('a \<times> string) list \<Rightarrow> 'a \<Rightarrow> nat option" where
  "position [] x = None"
| "position ((y, _) # ys) x = (if y = x then Some 0 else map_option Suc (position ys x))"

definition conn_toolbar :: "connections_view \<Rightarrow> ui_msg element" where
  "conn_toolbar v =
     (let summary = shared (conn_summary v);
          selected = (case position conn_filters (cv_filter v) of Some i \<Rightarrow> i | None \<Rightarrow> 0)
      in h_flex (styles [''px_6'', ''pb_3'', ''gap_3''])
           [Elem ''TabBar''
              ([ElemId (Id ''connection-filter'')] @ styles [''segmented'', ''small''] @ [Index ''selected_index'' selected,
                Listen (OnTab MsgConnFilter)])
              (map (\<lambda>(_, label). literal label) conn_filters),
            Elem ''Input''
              ([InputOf (cv_search v), ElemId (Id ''connection-search'')] @ styles [''small'', ''w_64'']
               @ [Flag ''cleanable'' True])
              [Elem ''Icon'' (styles [''Search'', ''small'']) []],
            gdiv (styles [''flex_1'']) [],
            gdiv ([ElemId (Id ''connection-summary'')] @ styles [''test_support''] @ [AriaLabel summary]
                  @ styles [''text_sm''] @ [Paint ''text_color'' ThMuted]) [Txt summary]])"

definition connections_render :: "nat \<times> nat \<Rightarrow> connections_view \<Rightarrow> ui_msg element" where
  "connections_render visible v =
     (let count = length (conn_shown v);
          body = (if count = 0
            then gdiv (styles [''px_6'', ''py_8'', ''text_sm''] @ [Paint ''text_color'' ThMuted])
                   [literal (conn_empty_message v)]
            else Elem ''uniform_list''
                   ([ElemId (Id ''connections''), Index ''count'' count] @ styles [''size_full''])
                   (conn_rows (fst visible) (snd visible) v))
      in v_flex (styles [''size_full''])
           [conn_toolbar v,
            list_header ThMuted ThBorder,
            gdiv (styles [''flex_1'', ''min_h_0'']) [body]])"

subsection \<open>The logs page\<close>

text \<open>
  The clock gives the local time of a number of milliseconds, where it is a single one; the
  conversion to \<^verbatim>\<open>i64\<close> fails from 2 ^ 63 on.\<close>

definition local_time :: "(nat \<Rightarrow> string option) \<Rightarrow> log_event \<Rightarrow> string" where
  "local_time clock e =
     (if unat (le_timestamp e) < 2 ^ 63
      then (case clock (unat (le_timestamp e)) of Some hms \<Rightarrow> hms | None \<Rightarrow> [])
      else [])"

definition log_row :: "(nat \<Rightarrow> string option) \<Rightarrow> nat \<Rightarrow> log_event \<Rightarrow> 'm element" where
  "log_row clock index e =
     (let level_color =
            (if le_level e = ''ERROR'' then ThDanger else if le_level e = ''WARN'' then ThWarning else ThMuted);
          time = local_time clock e;
          message = foldl (\<lambda>message (key, v). message @ '' '' @ key @ ''='' @ v) (le_message e) (le_fields e)
      in h_flex ([ElemId (IdNum ''log-line'' index)] @ styles [''test_support'']
                 @ [AriaLabel (shared (time @ '' '' @ describe e))]
                 @ styles [''h_6'', ''px_6'', ''gap_3'', ''text_xs'']
                 @ [Themed ''font_family'' ''mono_font_family''] @ styles [''whitespace_nowrap''])
           [gdiv (styles [''w_16'', ''flex_none''] @ [Paint ''text_color'' ThMuted]) [literal time],
            gdiv (styles [''w_12'', ''flex_none''] @ [Paint ''text_color'' level_color]) [literal (le_level e)],
            gdiv (styles [''w_48'', ''flex_none'', ''truncate''] @ [Paint ''text_color'' ThMuted]) [literal (le_target e)],
            gdiv (styles [''flex_1'', ''min_w_0'', ''truncate''] @ [Paint ''text_color'' ThForeground]) [literal message]])"

definition log_rows :: "(nat \<Rightarrow> string option) \<Rightarrow> nat \<Rightarrow> nat \<Rightarrow> logs_view \<Rightarrow> 'm element list" where
  "log_rows clock first past v =
     map (\<lambda>(index, e). log_row clock index e)
       (take (past - first) (drop first (enumerate 0 (logs_shown v))))"

definition logs_toolbar :: "logs_view \<Rightarrow> ui_msg element" where
  "logs_toolbar v =
     (let selected = (case position log_level_tabs (lv_levels v) of Some i \<Rightarrow> i | None \<Rightarrow> 0) in
      h_flex (styles [''px_6'', ''pb_3'', ''gap_3''])
        [Elem ''TabBar''
           ([ElemId (Id ''log-levels'')] @ styles [''segmented'', ''small''] @ [Index ''selected_index'' selected,
             Listen (OnTab MsgLevels)])
           (map (\<lambda>(_, label). literal label) log_level_tabs),
         Elem ''Input''
           ([InputOf (lv_search v), ElemId (Id ''log-search'')] @ styles [''small'', ''w_64''] @ [Flag ''cleanable'' True])
           [Elem ''Icon'' (styles [''Search'', ''small'']) []],
         gdiv (styles [''flex_1'']) [],
         Elem ''Switch''
           ([ElemId (Id ''log-follow'')] @ styles [''small''] @ [Flag ''checked'' (lv_follow v),
             Caption ''label'' (shared ''Follow new lines''), Listen (OnToggle MsgFollow)]) []])"

definition logs_render :: "(nat \<Rightarrow> string option) \<Rightarrow> nat \<times> nat \<Rightarrow> logs_view \<Rightarrow> ui_msg element" where
  "logs_render clock visible v =
     (let count = length (logs_shown v);
          body = (if count = 0
            then gdiv (styles [''px_6'', ''py_8'', ''text_sm''] @ [Paint ''text_color'' ThMuted])
                   [literal (log_empty_message (lv_buffer v))]
            else Elem ''uniform_list''
                   ([ElemId (Id ''log-lines''), Index ''count'' count] @ styles [''size_full''])
                   (log_rows clock (fst visible) (snd visible) v))
      in v_flex (styles [''size_full''])
           [logs_toolbar v,
            gdiv (styles [''flex_1'', ''min_h_0'', ''border_t_1''] @ [Paint ''border_color'' ThBorder] @ styles [''py_1''])
              [body]])"

subsection \<open>What is on the pages\<close>

lemma ids_conn_row: "ids (conn_row c r colors :: 'm element) = [IdNum ''connection'' (unat (sn_id c))]"
  by (simp add: conn_row_def lanes_def Let_def conn_failure_def split: prod.split connection_state.split option.split)

definition connections_ids :: "elem_id list" where
  "connections_ids = map Id [''connection-filter'', ''connection-search'', ''connection-summary'']"

definition in_view :: "nat \<times> nat \<Rightarrow> 'a list \<Rightarrow> 'a list" where
  "in_view visible xs = take (snd visible - fst visible) (drop (fst visible) xs)"

lemma ids_connections:
  "ids (connections_render visible v) =
     connections_ids @ (if conn_shown v = [] then []
       else Id ''connections'' # map (\<lambda>c. IdNum ''connection'' (unat (sn_id c))) (in_view visible (conn_shown v)))"
  by (simp add: connections_render_def conn_toolbar_def conn_rows_def list_header_def lanes_def ids_conn_row
      connections_ids_def in_view_def Let_def comp_def case_prod_beta)

lemma ids_log_row: "ids (log_row clock i e :: 'm element) = [IdNum ''log-line'' i]"
  by (simp add: log_row_def Let_def)

definition logs_ids :: "elem_id list" where
  "logs_ids = map Id [''log-levels'', ''log-search'', ''log-follow'']"

lemma ids_logs:
  "ids (logs_render clock visible v) =
     logs_ids @ (if logs_shown v = [] then []
       else Id ''log-lines'' # map (IdNum ''log-line'') (in_view visible [0..<length (logs_shown v)]))"
proof -
  let ?xs = "logs_shown v"
  have "map fst (in_view visible (enumerate 0 ?xs)) = in_view visible [0..<length ?xs]"
    by (simp add: in_view_def take_map [symmetric] drop_map [symmetric] del: drop_upt)
  moreover have "map (\<lambda>x. IdNum ''log-line'' (fst x)) (take (snd visible - fst visible) (drop (fst visible) (enumerate 0 ?xs))) =
      map (IdNum ''log-line'') (map fst (in_view visible (enumerate 0 ?xs)))"
    by (simp only: in_view_def map_map comp_def)
  ultimately have rows: "map (\<lambda>x. IdNum ''log-line'' (fst x)) (take (snd visible - fst visible) (drop (fst visible) (enumerate 0 ?xs))) =
      map (IdNum ''log-line'') (in_view visible [0..<length ?xs])" by (simp only:)
  show ?thesis
    by (simp add: logs_render_def logs_toolbar_def log_rows_def ids_log_row logs_ids_def Let_def comp_def
        case_prod_beta rows del: drop_upt)
qed

text \<open>The listeners are those of the toolbars.\<close>

lemma reachable_conn_row: "reachable (conn_row c r colors :: 'm element) = []"
  by (simp add: conn_row_def lanes_def Let_def conn_failure_def split: prod.split connection_state.split option.split)

lemma reachable_connections:
  "reachable (connections_render visible v) = [(AtId (Id ''connection-filter''), OnTab MsgConnFilter)]"
  by (simp add: connections_render_def conn_toolbar_def conn_rows_def list_header_def lanes_def reachable_conn_row
      Let_def comp_def case_prod_beta)

lemma reachable_log_row: "reachable (log_row clock i e :: 'm element) = []"
  by (simp add: log_row_def Let_def)

lemma reachable_logs:
  "reachable (logs_render clock visible v) =
     [(AtId (Id ''log-levels''), OnTab MsgLevels), (AtId (Id ''log-follow''), OnToggle MsgFollow)]"
  by (simp add: logs_render_def logs_toolbar_def log_rows_def reachable_log_row Let_def comp_def case_prod_beta)

end
