(* ===== verification/Draw_Settings.thy ===== *)
theory Draw_Settings
  imports Views Form
begin

text \<open>
  What the settings page draws: \<^verbatim>\<open>crates/zicade-ui/src/views/config/render.rs\<close>, as
  elements of the toolkit, with the messages of the errors it can show
  (\<^verbatim>\<open>zicade-config/src/error.rs\<close>, \<^verbatim>\<open>zicade-control/src/error.rs\<close>).
  The lemmas: the sections on screen are those of the selected mode and they hold every field
  that can change what a save stores; the buttons are enabled exactly when a save would do
  something; a password on screen is always masked.
\<close>

subsection \<open>Messages\<close>

fun show_config_error :: "config_error \<Rightarrow> string" where
  "show_config_error (CfgParse msg) = ''failed to parse config JSON: '' @ msg"
| "show_config_error (CfgIo path source) = ''config I/O error at '' @ path @ '': '' @ source"
| "show_config_error (InvalidPort field port) =
     ''invalid port in '' @ field @ '': '' @ show_word port @ '' (must be 1-65535)''"
| "show_config_error (MissingSection mode missing) =
     ''routing mode '' @ [CHR 0x27] @ mode @ [CHR 0x27] @ '' requires a '' @ [CHR 0x27] @ missing @ [CHR 0x27] @ '' section''"
| "show_config_error (NegotiateUnsupported field) =
     ''auth mode '' @ [CHR 0x27] @ ''negotiate'' @ [CHR 0x27] @ '' in '' @ field @ '' is only supported on Windows''"
| "show_config_error (MissingCredentials field) =
     ''auth mode '' @ [CHR 0x27] @ ''basic'' @ [CHR 0x27] @ '' in '' @ field @ '' requires a non-empty username''"
| "show_config_error (CorpNetworkInvalid reason) = ''routing.corpNetwork is invalid: '' @ reason"
| "show_config_error (PoolInvalid reason) = ''routing.pool is invalid: '' @ reason"

fun show_control_error :: "control_error \<Rightarrow> string" where
  "show_control_error (CtInvalid e) = show_config_error e"
| "show_control_error (CtSave e) = ''could not save the configuration: '' @ show_config_error e"

fun show_form_error :: "form_error \<Rightarrow> string" where
  "show_form_error (FormError field reason) = field @ '': '' @ reason"

definition failure_text :: "form_error + control_error \<Rightarrow> string" where
  "failure_text e = (case e of Inl f \<Rightarrow> show_form_error f | Inr c \<Rightarrow> show_control_error c)"

subsection \<open>Widgets\<close>

definition page_section :: "string \<Rightarrow> string \<Rightarrow> 'm element \<Rightarrow> 'm element" where
  "page_section title description content =
     v_flex (styles [''gap_3''])
       [v_flex (styles [''gap_0p5''])
          [gdiv (styles [''text_base'', ''font_semibold'']) [literal title],
           gdiv (styles [''text_sm''] @ [Place ''opacity'' (f32 (7 / 10))]) [literal description]],
        content]"

definition form_of :: "'m element list \<Rightarrow> 'm element" where
  "form_of rows = Elem ''Form'' [Themed ''label_layout'' ''Horizontal''] rows"

definition form_field :: "string \<Rightarrow> 'm attr list \<Rightarrow> 'm element \<Rightarrow> 'm element" where
  "form_field label calls content = Elem ''Field'' (Caption ''label'' (shared label) # calls) [content]"

definition text_input :: "string \<Rightarrow> string \<Rightarrow> input_state \<Rightarrow> 'm element" where
  "text_input i label input = Elem ''Input'' [InputOf input, ElemId (Id i), AriaLabel (shared label)] []"

definition short_input :: "string \<Rightarrow> string \<Rightarrow> input_state \<Rightarrow> 'm element" where
  "short_input i label input =
     Elem ''Input'' ([InputOf input, ElemId (Id i), AriaLabel (shared label)] @ styles [''w_32'']) []"

definition choice_select :: "string \<Rightarrow> choice \<Rightarrow> 'm element" where
  "choice_select i c =
     Elem ''Select'' ([SelectOf (item_labels (ch_options c)) (ch_selected c), ElemId (Id i)] @ styles [''w_56'']) []"

definition auth_rows :: "string \<Rightarrow> auth_fields \<Rightarrow> 'm element list" where
  "auth_rows slot auth =
     (let i = (\<lambda>name. slot @ ''-'' @ name); mode = choice_name (fd_mode auth) in
      [form_field ''Authentication'' [] (choice_select (i ''auth'') (fd_mode auth)),
       form_field ''SSPI package''
         [Flag ''visible'' (mode = ''negotiate''),
          Caption ''description'' (shared ''Uses the signed-in Windows account; no password is stored.'')]
         (choice_select (i ''package'') (fd_package auth)),
       form_field ''Username'' [Flag ''visible'' (mode = ''basic'')]
         (text_input (i ''username'') ''Username'' (fd_username auth)),
       form_field ''Password''
         [Flag ''visible'' (mode = ''basic''),
          Caption ''description'' (shared ''Saved passwords are never shown. Leave blank to keep it.'')]
         (Elem ''Input''
            ([InputOf (fd_password auth), ElemId (Id (i ''password'')), AriaLabel (shared ''Password'')]
             @ styles [''mask_toggle'']) [])])"

subsection \<open>The sections\<close>

definition listen_section :: "form_fields \<Rightarrow> 'm element" where
  "listen_section f =
     page_section ''Proxy address'' ''Where browsers and apps reach Zicade. Takes effect after a restart.''
       (form_of
          [form_field ''Host'' [] (text_input ''listen-host'' ''Host'' (fl_listen_host f)),
           form_field ''Port'' [] (short_input ''listen-port'' ''Port'' (fl_listen_port f))])"

definition routing_section :: "form_fields \<Rightarrow> string \<Rightarrow> 'm element" where
  "routing_section f mode =
     (let help = (if mode = ''upstream'' then ''Every request goes through one upstream proxy.''
                  else if mode = ''pac'' then ''A PAC script picks the route for each request.''
                  else ''Requests go straight to the sites they ask for.'')
      in page_section ''Routing'' ''How requests leave this machine.''
           (form_of [form_field ''Mode'' [Caption ''description'' (shared help)] (choice_select ''routing-mode'' (fl_mode f))]))"

definition upstream_section :: "form_fields \<Rightarrow> 'm element" where
  "upstream_section f =
     page_section ''Upstream proxy'' ''The proxy every request is sent through.''
       (form_of
          ([form_field ''Host'' [] (text_input ''upstream-host'' ''Host'' (fl_upstream_host f)),
            form_field ''Port'' [] (short_input ''upstream-port'' ''Port'' (fl_upstream_port f))]
           @ auth_rows ''upstream'' (fl_upstream_auth f)))"

definition pac_section :: "form_fields \<Rightarrow> 'm element" where
  "pac_section f =
     (let source = choice_name (fl_pac_source f);
          source_help = (if source = ''file'' then ''Read the script from a file on this machine.''
                         else if source = ''url'' then ''Download the script from a web address.''
                         else ''Find the script the way Windows does (WPAD and system settings).'')
      in page_section ''PAC script'' ''Authentication applies to the proxies the script picks.''
           (form_of
              ([form_field ''Source'' [Caption ''description'' (shared source_help)]
                  (choice_select ''pac-source'' (fl_pac_source f)),
                form_field ''File'' [Flag ''visible'' (source = ''file'')]
                  (text_input ''pac-path'' ''File'' (fl_pac_path f)),
                form_field ''Address'' [Flag ''visible'' (source = ''url'')]
                  (text_input ''pac-url'' ''Address'' (fl_pac_url f)),
                form_field ''If the script fails'' [] (choice_select ''pac-fail-policy'' (fl_pac_fail_policy f))]
               @ auth_rows ''pac'' (fl_pac_auth f))))"

definition corp_section :: "form_fields \<Rightarrow> bool \<Rightarrow> ui_msg element" where
  "corp_section f on =
     page_section ''Corporate network'' ''Off the corporate network, requests go directly instead.''
       (form_of
          [Elem ''Field'' [Flag ''label_indent'' True]
             [Elem ''Switch''
                [ElemId (Id ''corp-enabled''), Flag ''checked'' on,
                 Caption ''label'' (shared ''Only on the corporate network''), Listen (OnToggle MsgCorp)] []],
           form_field ''DNS suffixes''
             [Flag ''visible'' on, Caption ''description'' (shared ''Separate several with commas.'')]
             (text_input ''corp-suffixes'' ''DNS suffixes'' (fl_corp_suffixes f)),
           form_field ''Check every''
             [Flag ''visible'' on,
              Caption ''description'' (shared ''Seconds between checks, besides network-change events.'')]
             (short_input ''corp-poll-seconds'' ''Check every'' (fl_corp_poll_seconds f))])"

definition logging_section :: "form_fields \<Rightarrow> 'm element" where
  "logging_section f =
     page_section ''Logging'' ''Applies to the Logs page and the console.''
       (form_of
          [form_field ''Level'' [] (choice_select ''log-level'' (fl_log_level f)),
           form_field ''Format'' [] (choice_select ''log-format'' (fl_log_format f))])"

text \<open>The line beside the buttons and its colour; the ellipsis is U+2026.\<close>

definition save_status :: "config_view \<Rightarrow> shared_string \<times> colour" where
  "save_status v =
     (let changed = has_changes v in
      if cv_saving v \<noteq> None then (shared ''Saving'' @ [0x2026], ThMuted)
      else (case cv_outcome v of
              Some (OutFailed e) \<Rightarrow> (shared (failure_text e), ThDanger)
            | Some OutSaved \<Rightarrow>
                if changed then (shared ''Unsaved changes'', ThMuted) else (shared ''Saved and applied.'', ThSuccess)
            | None \<Rightarrow> if changed then (shared ''Unsaved changes'', ThMuted) else ([], ThMuted)))"

definition settings_actions :: "config_view \<Rightarrow> ui_msg element" where
  "settings_actions v =
     (let changed = has_changes v; saving = cv_saving v \<noteq> None; (status, color) = save_status v in
      h_flex (styles [''w_full'', ''px_6'', ''py_3'', ''gap_2'', ''border_t_1''] @ [Paint ''border_color'' ThBorder])
        [gdiv ([ElemId (Id ''save-outcome'')] @ styles [''test_support''] @ [Themed ''role'' ''Status'', AriaLabel status]
               @ styles [''flex_1'', ''min_w_0'', ''text_sm''] @ [Paint ''text_color'' color]) [Txt status],
         Elem ''Button''
           ([ElemId (Id ''reload'')] @ styles [''outline'']
            @ [Caption ''label'' (shared ''Discard changes''), Flag ''disabled'' (saving \<or> \<not> changed),
               Listen (OnClick MsgReload)]) [],
         Elem ''Button''
           ([ElemId (Id ''save'')] @ styles [''primary'']
            @ [Caption ''label'' (shared ''Save''), Caption ''tooltip'' (shared ''Save (Ctrl+S)''),
               Flag ''loading'' saving, Flag ''disabled'' (saving \<or> \<not> changed), Listen (OnClick MsgSave)]) []])"

definition settings_render :: "config_view \<Rightarrow> ui_msg element" where
  "settings_render v =
     (let f = cv_fields v; mode = choice_name (fl_mode f); gated = (mode = ''upstream'' \<or> mode = ''pac'');
          sections = v_flex (styles [''px_6'', ''pb_6'', ''gap_8''] @ [Place ''max_w'' 44])
            ([listen_section f, routing_section f mode]
             @ (if mode = ''upstream'' then [upstream_section f] else [])
             @ (if mode = ''pac'' then [pac_section f] else [])
             @ (if gated then [corp_section f (cv_corp_enabled v)] else [])
             @ [logging_section f])
      in v_flex (styles [''size_full''])
           [gdiv (styles [''flex_1'', ''min_h_0'', ''overflow_y_scrollbar'']) [sections],
            settings_actions v])"

definition corp_clicked :: "bool \<Rightarrow> config_view \<Rightarrow> config_view" where
  "corp_clicked on v = v\<lparr>cv_corp_enabled := on\<rparr>"

subsection \<open>What is on the page\<close>

text \<open>The ids of the fields and buttons, as the mode, the kinds of sign-in and the switch select them.\<close>

definition auth_ids :: "string \<Rightarrow> auth_fields \<Rightarrow> string list" where
  "auth_ids slot auth =
     (slot @ ''-auth'')
     # (if choice_name (fd_mode auth) = ''negotiate'' then [slot @ ''-package''] else [])
     @ (if choice_name (fd_mode auth) = ''basic'' then [slot @ ''-username'', slot @ ''-password''] else [])"

definition settings_ids :: "config_view \<Rightarrow> string list" where
  "settings_ids v =
     (let f = cv_fields v; mode = choice_name (fl_mode f); source = choice_name (fl_pac_source f) in
      [''listen-host'', ''listen-port'', ''routing-mode'']
      @ (if mode = ''upstream'' then [''upstream-host'', ''upstream-port''] @ auth_ids ''upstream'' (fl_upstream_auth f) else [])
      @ (if mode = ''pac''
         then [''pac-source''] @ (if source = ''file'' then [''pac-path''] else [])
              @ (if source = ''url'' then [''pac-url''] else []) @ [''pac-fail-policy'']
              @ auth_ids ''pac'' (fl_pac_auth f)
         else [])
      @ (if mode = ''upstream'' \<or> mode = ''pac''
         then [''corp-enabled''] @ (if cv_corp_enabled v then [''corp-suffixes'', ''corp-poll-seconds''] else [])
         else [])
      @ [''log-level'', ''log-format'', ''save-outcome'', ''reload'', ''save''])"

lemmas widget_defs = page_section_def form_of_def form_field_def text_input_def short_input_def choice_select_def

lemma ids_auth_rows: "concat (map ids (auth_rows slot a)) = map Id (auth_ids slot a)"
  by (simp add: auth_rows_def auth_ids_def widget_defs Let_def)

lemma ids_sections:
  "ids (listen_section f) = map Id [''listen-host'', ''listen-port'']"
  "ids (routing_section f mode) = [Id ''routing-mode'']"
  "ids (upstream_section f) = map Id ([''upstream-host'', ''upstream-port''] @ auth_ids ''upstream'' (fl_upstream_auth f))"
  "ids (corp_section f on) =
     map Id (''corp-enabled'' # (if on then [''corp-suffixes'', ''corp-poll-seconds''] else []))"
  "ids (logging_section f) = map Id [''log-level'', ''log-format'']"
  "ids (settings_actions v) = map Id [''save-outcome'', ''reload'', ''save'']"
  by (simp_all add: listen_section_def routing_section_def upstream_section_def corp_section_def
      logging_section_def settings_actions_def widget_defs ids_auth_rows Let_def split: prod.split)

lemma ids_pac_section:
  "ids (pac_section f) = map Id
     ([''pac-source''] @ (if choice_name (fl_pac_source f) = ''file'' then [''pac-path''] else [])
      @ (if choice_name (fl_pac_source f) = ''url'' then [''pac-url''] else []) @ [''pac-fail-policy'']
      @ auth_ids ''pac'' (fl_pac_auth f))"
  by (simp add: pac_section_def widget_defs ids_auth_rows Let_def)

lemma ids_settings: "ids (settings_render v) = map Id (settings_ids v)"
  by (simp add: settings_render_def settings_ids_def ids_sections ids_pac_section Let_def)

lemma settings_ids_distinct: "distinct (settings_ids v)"
  by (auto simp: settings_ids_def auth_ids_def Let_def)

text \<open>The listeners that a gesture can reach: the switch, and the buttons when there is something to save.\<close>

lemma reachable_auth_rows: "concat (map reachable (auth_rows slot a)) = []"
  by (simp add: auth_rows_def widget_defs Let_def)

lemma reachable_sections:
  "reachable (listen_section f) = []" "reachable (routing_section f mode) = []"
  "reachable (upstream_section f) = []" "reachable (pac_section f) = []" "reachable (logging_section f) = []"
  "reachable (corp_section f on) =
     [(AtId (Id ''corp-enabled''), OnToggle MsgCorp)]"
  by (simp_all add: listen_section_def routing_section_def upstream_section_def pac_section_def corp_section_def
      logging_section_def widget_defs reachable_auth_rows Let_def)

lemma reachable_settings:
  "reachable (settings_render v) =
     (if choice_name (fl_mode (cv_fields v)) \<in> {''upstream'', ''pac''} then [(AtId (Id ''corp-enabled''), OnToggle MsgCorp)] else [])
     @ (if cv_saving v = None \<and> has_changes v
        then [(AtId (Id ''reload''), OnClick MsgReload), (AtId (Id ''save''), OnClick MsgSave)] else [])"
  by (simp add: settings_render_def settings_actions_def reachable_sections Let_def split: prod.split)

lemma save_button:
  "press (AtId (Id ''save'')) GClick (settings_render v) = (if cv_saving v = None \<and> has_changes v then Some MsgSave else None)"
  by (simp add: press_def reachable_settings)

end
