(* ===== verification/Window.thy ===== *)
theory Window
  imports Draw_Overview Draw_Lists Draw_Settings
begin

text \<open>
  The window as a whole, \<^verbatim>\<open>crates/zicade-ui/src/views/mod.rs\<close>,
  \<^verbatim>\<open>sidebar.rs\<close> and \<^verbatim>\<open>assets.rs\<close>: the navigation and its icons, the page on screen drawn from its view, and what a
  gesture, a key, a timer, a log line or the end of a save does to the views. A gesture acts on
  what is drawn: the message comes from the listener that \<open>press\<close> finds in the tree.
  The lemmas: the settings in the window move as the form of \<open>Form\<close> does; what the window
  shows and does never depends on a stored password; ids are unique on every page, whatever the
  tracker reports.
\<close>

subsection \<open>The sidebar\<close>

fun page_icon :: "page \<Rightarrow> string" where
  "page_icon PageOverview = ''LayoutDashboard''"
| "page_icon PageConnections = ''ArrowLeftRight''"
| "page_icon PageLogs = ''ScrollText''"
| "page_icon PageSettings = ''Settings''"

text \<open>
  The icons the executable embeds. \<^verbatim>\<open>icon_assets!\<close> generates the source \<open>own\<close> of them,
  \<open>kit\<close> is the toolkit's; both may fail.
\<close>

definition app_icons :: "string list" where
  "app_icons = [''LayoutDashboard'', ''ArrowLeftRight'', ''ScrollText'', ''Settings'', ''ArrowDown'', ''ArrowUp'', ''Search'']"

definition assets_load :: "(string \<Rightarrow> 'e + 'b option) \<Rightarrow> (string \<Rightarrow> 'e + 'b option) \<Rightarrow> string \<Rightarrow> 'e + 'b option" where
  "assets_load own kit path = (case own path of Inr (Some bytes) \<Rightarrow> Inr (Some bytes) | _ \<Rightarrow> kit path)"

definition assets_list :: "(string \<Rightarrow> 'e + string list) \<Rightarrow> (string \<Rightarrow> 'e + string list) \<Rightarrow> string \<Rightarrow> 'e + string list" where
  "assets_list own kit path =
     (case kit path of Inl e \<Rightarrow> Inl e | Inr xs \<Rightarrow> Inr (xs @ (case own path of Inl _ \<Rightarrow> [] | Inr ys \<Rightarrow> ys)))"

text \<open>The navigation needs no icon of the toolkit's, and what is listed can be loaded.\<close>

lemma page_icons_embedded: "page_icon p \<in> set app_icons"
  by (cases p) (simp_all add: app_icons_def)

lemma listed_assets_load:
  assumes "\<And>q ys. own_list q = Inr ys \<Longrightarrow> \<forall>y \<in> set ys. \<exists>b. own y = Inr (Some b)"
    and "\<And>q xs. kit_list q = Inr xs \<Longrightarrow> \<forall>x \<in> set xs. \<exists>b. kit x = Inr (Some b)"
    and "assets_list own_list kit_list q = Inr names" "n \<in> set names"
  shows "\<exists>b. assets_load own kit n = Inr (Some b)"
  using assms(1) [of q] assms(2) [of q] assms(3,4)
  by (fastforce simp: assets_list_def assets_load_def split: sum.splits option.splits)

definition sidebar_identity :: "'m element" where
  "sidebar_identity =
     h_flex (styles [''gap_2'', ''py_1''])
       [gdiv (styles [''size_7'', ''flex'', ''items_center'', ''justify_center'']
              @ [Themed ''rounded'' ''radius'', Paint ''bg'' ThPrimary, Paint ''text_color'' ThPrimaryForeground]
              @ styles [''font_semibold'']) [literal ''Z''],
        v_flex []
          [gdiv (styles [''text_sm'', ''font_semibold'']) [literal ''Zicade''],
           gdiv (styles [''text_xs''] @ [Paint ''text_color'' ThMuted]) [literal ''Local proxy'']]]"

text \<open>\<open>listen_addr\<close> is the one of the control's status, where there is a control.\<close>

definition sidebar_status :: "string option \<Rightarrow> 'm element" where
  "sidebar_status listen_addr =
     (let listen = shared (case listen_addr of Some a \<Rightarrow> a | None \<Rightarrow> []) in
      h_flex (styles [''w_full'', ''gap_2'', ''py_1''])
        [gdiv (styles [''size_2'', ''flex_none'', ''rounded_full''] @ [Paint ''bg'' ThSuccess]) [],
         v_flex (styles [''min_w_0''])
           [gdiv (styles [''text_xs'', ''font_medium'']) [literal ''Running''],
            gdiv ([ElemId (Id ''sidebar-listen'')] @ styles [''test_support''] @ [AriaLabel listen]
                  @ styles [''text_xs''] @ [Paint ''text_color'' ThMuted] @ styles [''truncate'']) [Txt listen]]])"

definition sidebar_render :: "page \<Rightarrow> string option \<Rightarrow> ui_msg element" where
  "sidebar_render current listen_addr =
     Elem ''Sidebar'' ([ElemId (Id ''nav'')] @ styles [''w_56''])
       [sidebar_identity,
        Elem ''SidebarMenu'' []
          (map (\<lambda>p. Elem ''SidebarMenuItem''
                 [Caption ''title'' (shared (page_title p)), Themed ''icon'' (page_icon p),
                  Flag ''active'' (p = current), Listen (OnClick (MsgShow p))] []) all_pages),
        sidebar_status listen_addr]"

subsection \<open>The page on screen\<close>

record pages =
  pg_overview :: overview
  pg_connections :: connections_view
  pg_logs :: logs_view
  pg_settings :: config_view

text \<open>
  What the toolkit brings to a frame: whether motion is reduced, the time since the last sample,
  the ranges of the lists in view and the local clock.\<close>

record viewport =
  fr_reduce_motion :: bool
  fr_since :: nanos
  fr_connections :: "nat \<times> nat"
  fr_logs :: "nat \<times> nat"
  fr_clock :: "nat \<Rightarrow> string option"

definition page_body :: "viewport \<Rightarrow> page \<Rightarrow> pages \<Rightarrow> ui_msg element" where
  "page_body fr p pages =
     (case p of
        PageOverview \<Rightarrow> overview_render (fr_reduce_motion fr) (fr_since fr) (pg_overview pages)
      | PageConnections \<Rightarrow> connections_render (fr_connections fr) (pg_connections pages)
      | PageLogs \<Rightarrow> logs_render (fr_clock fr) (fr_logs fr) (pg_logs pages)
      | PageSettings \<Rightarrow> settings_render (pg_settings pages))"

text \<open>The apostrophe is U+2019.\<close>

definition failed_page :: "string \<Rightarrow> 'm element" where
  "failed_page reason =
     v_flex (styles [''size_full'', ''justify_center'', ''items_center'', ''p_8'', ''gap_2''])
       [gdiv (styles [''text_lg'', ''font_semibold'']) [Txt (shared ''Zicade couldn'' @ 0x2019 # shared ''t start'')],
        gdiv ([ElemId (Id ''start-error'')] @ styles [''test_support''] @ [AriaLabel (shared reason)]
              @ styles [''max_w_128'', ''text_sm''] @ [Paint ''text_color'' ThDanger]) [literal reason],
        gdiv (styles [''text_sm''] @ [Paint ''text_color'' ThMuted])
          [literal ''Fix the configuration file, then start Zicade again.'']]"

definition content_of :: "viewport \<Rightarrow> pages main_view \<Rightarrow> ui_msg element" where
  "content_of fr v =
     (case mv_pages v of
        Inl reason \<Rightarrow> failed_page reason
      | Inr pages \<Rightarrow>
          v_flex (styles [''flex_1'', ''min_w_0'', ''h_full''])
            [v_flex (styles [''px_6'', ''pt_5'', ''pb_4'', ''gap_1''])
               [gdiv (styles [''text_xl'', ''font_semibold'']) [literal (page_title (mv_page v))],
                gdiv (styles [''text_sm''] @ [Paint ''text_color'' ThMuted]) [literal (page_description (mv_page v))]],
             gdiv (styles [''flex_1'', ''min_h_0'']) [page_body fr (mv_page v) pages]])"

definition window_render :: "viewport \<Rightarrow> string option \<Rightarrow> pages main_view \<Rightarrow> ui_msg element" where
  "window_render fr listen_addr v =
     h_flex
       ([ElemId (Id ''zicade''), Themed ''key_context'' ''Zicade'',
         Listen (OnAction ''ShowOverview'' (MsgShow PageOverview)),
         Listen (OnAction ''ShowConnections'' (MsgShow PageConnections)),
         Listen (OnAction ''ShowLogs'' (MsgShow PageLogs)),
         Listen (OnAction ''ShowSettings'' (MsgShow PageSettings)),
         Listen (OnAction ''SaveSettings'' MsgSaveSettings)]
        @ styles [''items_stretch'', ''size_full''] @ [Paint ''bg'' ThBackground, Paint ''text_color'' ThForeground])
       ((case mv_pages v of Inr _ \<Rightarrow> [sidebar_render (mv_page v) listen_addr] | Inl _ \<Rightarrow> [])
        @ [content_of fr v])"

subsection \<open>What moves the window\<close>

text \<open>What the control reads when it is asked: the metrics, the gate's cell and the time.\<close>

record sources =
  so_metrics :: "metrics option"
  so_on_corp :: "bool option option"
  so_now :: millis

definition refresh_overview :: "sources \<Rightarrow> nanos \<Rightarrow> 'w control \<Rightarrow> overview \<Rightarrow> overview" where
  "refresh_overview src elapsed c v =
     overview_refresh (control_status (so_metrics src) (so_on_corp src) c) (config_redacted c)
       (control_connections (so_now src) (so_metrics src)) elapsed v"

definition pages_new :: "sources \<Rightarrow> log_event list \<Rightarrow> 'w control \<Rightarrow> pages" where
  "pages_new src backlog c =
     \<lparr>pg_overview = refresh_overview src 0 c overview_new,
      pg_connections = connections_new (control_connections (so_now src) (so_metrics src)) 0,
      pg_logs = logs_new backlog,
      pg_settings = view_open c\<rparr>"

definition window_new :: "sources \<Rightarrow> log_event list \<Rightarrow> 'w control \<Rightarrow> pages main_view" where
  "window_new src backlog c = main_view_new (Inr (pages_new src backlog c))"

text \<open>
  The user types into the text field of an id, or picks an option of a drop-down; the toolkit
  keeps the text in the field's state, masked or not. Only what is on screen can be edited.\<close>

definition type_field :: "string \<Rightarrow> string \<Rightarrow> form_fields \<Rightarrow> form_fields" where
  "type_field i t f =
     (let set = set_value t; auth = (\<lambda>name a. if name = ''username'' then a\<lparr>fd_username := set (fd_username a)\<rparr>
                                            else a\<lparr>fd_password := set (fd_password a)\<rparr>) in
      if i = ''listen-host'' then f\<lparr>fl_listen_host := set (fl_listen_host f)\<rparr>
      else if i = ''listen-port'' then f\<lparr>fl_listen_port := set (fl_listen_port f)\<rparr>
      else if i = ''upstream-host'' then f\<lparr>fl_upstream_host := set (fl_upstream_host f)\<rparr>
      else if i = ''upstream-port'' then f\<lparr>fl_upstream_port := set (fl_upstream_port f)\<rparr>
      else if i = ''upstream-username'' then f\<lparr>fl_upstream_auth := auth ''username'' (fl_upstream_auth f)\<rparr>
      else if i = ''upstream-password'' then f\<lparr>fl_upstream_auth := auth ''password'' (fl_upstream_auth f)\<rparr>
      else if i = ''pac-path'' then f\<lparr>fl_pac_path := set (fl_pac_path f)\<rparr>
      else if i = ''pac-url'' then f\<lparr>fl_pac_url := set (fl_pac_url f)\<rparr>
      else if i = ''pac-username'' then f\<lparr>fl_pac_auth := auth ''username'' (fl_pac_auth f)\<rparr>
      else if i = ''pac-password'' then f\<lparr>fl_pac_auth := auth ''password'' (fl_pac_auth f)\<rparr>
      else if i = ''corp-suffixes'' then f\<lparr>fl_corp_suffixes := set (fl_corp_suffixes f)\<rparr>
      else if i = ''corp-poll-seconds'' then f\<lparr>fl_corp_poll_seconds := set (fl_corp_poll_seconds f)\<rparr>
      else f)"

definition pick_field :: "string \<Rightarrow> nat \<Rightarrow> form_fields \<Rightarrow> form_fields" where
  "pick_field i n f =
     (let pick = (\<lambda>c. if n < length (ch_options c) then c\<lparr>ch_selected := Some n\<rparr> else c) in
      if i = ''routing-mode'' then f\<lparr>fl_mode := pick (fl_mode f)\<rparr>
      else if i = ''upstream-auth'' then f\<lparr>fl_upstream_auth := (fl_upstream_auth f)\<lparr>fd_mode := pick (fd_mode (fl_upstream_auth f))\<rparr>\<rparr>
      else if i = ''upstream-package'' then f\<lparr>fl_upstream_auth := (fl_upstream_auth f)\<lparr>fd_package := pick (fd_package (fl_upstream_auth f))\<rparr>\<rparr>
      else if i = ''pac-source'' then f\<lparr>fl_pac_source := pick (fl_pac_source f)\<rparr>
      else if i = ''pac-fail-policy'' then f\<lparr>fl_pac_fail_policy := pick (fl_pac_fail_policy f)\<rparr>
      else if i = ''pac-auth'' then f\<lparr>fl_pac_auth := (fl_pac_auth f)\<lparr>fd_mode := pick (fd_mode (fl_pac_auth f))\<rparr>\<rparr>
      else if i = ''pac-package'' then f\<lparr>fl_pac_auth := (fl_pac_auth f)\<lparr>fd_package := pick (fd_package (fl_pac_auth f))\<rparr>\<rparr>
      else if i = ''log-level'' then f\<lparr>fl_log_level := pick (fl_log_level f)\<rparr>
      else if i = ''log-format'' then f\<lparr>fl_log_format := pick (fl_log_format f)\<rparr>
      else f)"

datatype win_event =
    WePress viewport aim gesture
  | WeType viewport string string
  | WePick viewport string nat
  | WeOverviewTick sources nanos
  | WeConnectionsTick sources nanos
  | WeLog live
  | WeApplied write_outcome

definition on_pages :: "(pages \<Rightarrow> pages) \<Rightarrow> pages main_view \<Rightarrow> pages main_view" where
  "on_pages f v = v\<lparr>mv_pages := map_sum id f (mv_pages v)\<rparr>"

definition on_settings :: "(config_view \<Rightarrow> config_view) \<Rightarrow> pages main_view \<Rightarrow> pages main_view" where
  "on_settings f v = on_pages (\<lambda>p. p\<lparr>pg_settings := f (pg_settings p)\<rparr>) v"

text \<open>What the listeners do: those of the pages act on their view, the sidebar's on the window.\<close>

fun window_msg :: "'w control \<Rightarrow> ui_msg \<Rightarrow> pages main_view \<Rightarrow> pages main_view" where
  "window_msg c (MsgShow p) v = show_page p v"
| "window_msg c (MsgNavigate p) v = show_page p v"
| "window_msg c (MsgConnFilter i) v = on_pages (\<lambda>p. p\<lparr>pg_connections := conn_filter_clicked i (pg_connections p)\<rparr>) v"
| "window_msg c (MsgLevels i) v = on_pages (\<lambda>p. p\<lparr>pg_logs := (pg_logs p)\<lparr>lv_levels := levels_clicked i\<rparr>\<rparr>) v"
| "window_msg c (MsgFollow on) v = on_pages (\<lambda>p. p\<lparr>pg_logs := logs_follow_clicked on (pg_logs p)\<rparr>) v"
| "window_msg c (MsgCorp on) v = on_settings (corp_clicked on) v"
| "window_msg c MsgReload v = on_settings (view_reload c) v"
| "window_msg c MsgSave v = on_settings view_save v"
| "window_msg c MsgSaveSettings v = save_settings (\<lambda>p. p\<lparr>pg_settings := view_save (pg_settings p)\<rparr>) v"

definition listen_of :: "'w control \<Rightarrow> string option" where
  "listen_of c = Some (ss_listen_addr (ct_status c))"

definition on_screen :: "viewport \<Rightarrow> 'w control \<Rightarrow> string \<Rightarrow> pages main_view \<Rightarrow> bool" where
  "on_screen fr c i v = (Id i \<in> set (ids (window_render fr (listen_of c) v)))"

fun window_step ::
    "(config \<Rightarrow> string + string) \<Rightarrow> validation_ctx \<Rightarrow> (config \<Rightarrow> 'w \<Rightarrow> 'w) option
     \<Rightarrow> pages main_view \<times> 'w control \<Rightarrow> win_event
     \<Rightarrow> (pages main_view \<times> 'w control) \<times> (control_error + unit) option" where
  "window_step to_json ctx hook (v, c) (WePress fr a g) =
     ((case press a g (window_render fr (listen_of c) v) of Some m \<Rightarrow> window_msg c m v | None \<Rightarrow> v, c), None)"
| "window_step to_json ctx hook (v, c) (WeType fr i t) =
     ((if \<not> on_screen fr c i v then v
       else if i = ''connection-search'' then
         on_pages (\<lambda>p. p\<lparr>pg_connections := (pg_connections p)\<lparr>cv_search := set_value t (cv_search (pg_connections p))\<rparr>\<rparr>) v
       else if i = ''log-search'' then
         on_pages (\<lambda>p. p\<lparr>pg_logs := (pg_logs p)\<lparr>lv_search := set_value t (lv_search (pg_logs p))\<rparr>\<rparr>) v
       else on_settings (\<lambda>s. s\<lparr>cv_fields := type_field i t (cv_fields s)\<rparr>) v, c), None)"
| "window_step to_json ctx hook (v, c) (WePick fr i n) =
     ((if on_screen fr c i v then on_settings (\<lambda>s. s\<lparr>cv_fields := pick_field i n (cv_fields s)\<rparr>) v else v, c), None)"
| "window_step to_json ctx hook (v, c) (WeOverviewTick src elapsed) =
     ((on_pages (\<lambda>p. p\<lparr>pg_overview := refresh_overview src elapsed c (pg_overview p)\<rparr>) v, c), None)"
| "window_step to_json ctx hook (v, c) (WeConnectionsTick src elapsed) =
     ((on_pages (\<lambda>p. p\<lparr>pg_connections :=
         connections_refresh (control_connections (so_now src) (so_metrics src)) elapsed (pg_connections p)\<rparr>) v, c), None)"
| "window_step to_json ctx hook (v, c) (WeLog l) =
     ((on_pages (\<lambda>p. p\<lparr>pg_logs := logs_receive (pg_logs p) l\<rparr>) v, c), None)"
| "window_step to_json ctx hook (v, c) (WeApplied outcome) =
     (case mv_pages v of
        Inl _ \<Rightarrow> ((v, c), None)
      | Inr p \<Rightarrow>
          (case view_step to_json ctx hook (pg_settings p, c) (VoApplied outcome) of
             ((s, c'), r) \<Rightarrow> ((on_settings (\<lambda>_. s) v, c'), r)))"

subsection \<open>Navigation\<close>

lemma nav_pressed:
  "mv_pages v = Inr p \<Longrightarrow> press (AtTitle (shared (page_title q))) GClick (window_render fr l v) = Some (MsgShow q)"
  by (cases q) (simp_all add: press_def window_render_def sidebar_render_def sidebar_identity_def sidebar_status_def
      all_pages_def first_answer_append Let_def)

lemma action_pressed:
  "press (AtId (Id ''zicade'')) (GAction ''ShowOverview'') (window_render fr l v) = Some (MsgShow PageOverview)"
  "press (AtId (Id ''zicade'')) (GAction ''ShowConnections'') (window_render fr l v) = Some (MsgShow PageConnections)"
  "press (AtId (Id ''zicade'')) (GAction ''ShowLogs'') (window_render fr l v) = Some (MsgShow PageLogs)"
  "press (AtId (Id ''zicade'')) (GAction ''ShowSettings'') (window_render fr l v) = Some (MsgShow PageSettings)"
  "press (AtId (Id ''zicade'')) (GAction ''SaveSettings'') (window_render fr l v) = Some MsgSaveSettings"
  by (simp_all add: press_def window_render_def)

subsection \<open>The settings in the window\<close>

definition settings_of :: "pages main_view \<times> 'w control \<Rightarrow> config_view \<times> 'w control" where
  "settings_of s = (case mv_pages (fst s) of Inr p \<Rightarrow> (pg_settings p, snd s) | Inl _ \<Rightarrow> (view_open (snd s), snd s))"

definition has_pages :: "pages main_view \<times> 'w control \<Rightarrow> bool" where
  "has_pages s \<longleftrightarrow> (case mv_pages (fst s) of Inr _ \<Rightarrow> True | Inl _ \<Rightarrow> False)"

fun msg_op :: "config_view \<Rightarrow> ui_msg \<Rightarrow> view_op option" where
  "msg_op s (MsgCorp on) = Some (VoEdit (cv_fields s) on)"
| "msg_op s MsgReload = Some VoReload"
| "msg_op s MsgSave = Some VoSave"
| "msg_op s MsgSaveSettings = Some VoSave"
| "msg_op s _ = None"

text \<open>
  What the user means by a gesture, said of the page shown and the state of the form alone: the
  key for saving saves, from every page; on the settings page the two buttons save and discard,
  while there is something to save and no save is running, and the switch switches the gate,
  while the mode has one. No other gesture concerns the settings.\<close>

definition settings_gesture :: "page \<Rightarrow> config_view \<Rightarrow> aim \<Rightarrow> gesture \<Rightarrow> view_op option" where
  "settings_gesture pg s a g =
     (if a = AtId (Id ''zicade'') \<and> g = GAction ''SaveSettings'' then Some VoSave
      else if pg \<noteq> PageSettings then None
      else
        (case g of
           GClick \<Rightarrow>
             if cv_saving s \<noteq> None \<or> \<not> has_changes s then None
             else if a = AtId (Id ''save'') then Some VoSave
             else if a = AtId (Id ''reload'') then Some VoReload
             else None
         | GToggle on \<Rightarrow>
             if a = AtId (Id ''corp-enabled'') \<and> choice_name (fl_mode (cv_fields s)) \<in> {''upstream'', ''pac''}
             then Some (VoEdit (cv_fields s) on) else None
         | _ \<Rightarrow> None))"

fun form_op :: "pages main_view \<times> 'w control \<Rightarrow> win_event \<Rightarrow> view_op option" where
  "form_op (v, c) (WePress fr a g) = settings_gesture (mv_page v) (fst (settings_of (v, c))) a g"
| "form_op (v, c) (WeType fr i t) =
     (if \<not> on_screen fr c i v \<or> i = ''connection-search'' \<or> i = ''log-search'' then None
      else let s = fst (settings_of (v, c)) in Some (VoEdit (type_field i t (cv_fields s)) (cv_corp_enabled s)))"
| "form_op (v, c) (WePick fr i n) =
     (if \<not> on_screen fr c i v then None
      else let s = fst (settings_of (v, c)) in Some (VoEdit (pick_field i n (cv_fields s)) (cv_corp_enabled s)))"
| "form_op (v, c) (WeApplied outcome) = Some (VoApplied outcome)"
| "form_op _ _ = None"

lemma settings_of_Inr [simp]: "mv_pages v = Inr p \<Longrightarrow> settings_of (v, c) = (pg_settings p, c)"
  by (simp add: settings_of_def)

lemma has_pages_Inr [simp]: "has_pages (v, c) \<longleftrightarrow> (\<exists>p. mv_pages v = Inr p)"
  by (simp add: has_pages_def split: sum.split)

lemma on_pages_Inr [simp]: "mv_pages v = Inr p \<Longrightarrow> mv_pages (on_pages f v) = Inr (f p)"
  by (simp add: on_pages_def)

text \<open>Of all listeners that a gesture can reach, those of the settings answer to just these.\<close>

lemma reachable_window:
  assumes "mv_pages v = Inr p"
  shows "reachable (window_render fr l v) =
     map (Pair (AtId (Id ''zicade'')))
       [OnAction ''ShowOverview'' (MsgShow PageOverview), OnAction ''ShowConnections'' (MsgShow PageConnections),
        OnAction ''ShowLogs'' (MsgShow PageLogs), OnAction ''ShowSettings'' (MsgShow PageSettings),
        OnAction ''SaveSettings'' MsgSaveSettings] @
     map (\<lambda>q. (AtTitle (shared (page_title q)), OnClick (MsgShow q))) all_pages @
     reachable (page_body fr (mv_page v) p)"
  using assms
  by (simp add: window_render_def sidebar_render_def sidebar_identity_def sidebar_status_def content_of_def
      all_pages_def Let_def)

lemma nav_means_nothing:
  "(case first_answer a g (map (\<lambda>q. (AtTitle (t q), OnClick (MsgShow q))) qs) of
      Some m \<Rightarrow> msg_op s m | None \<Rightarrow> None) = None"
  by (induction qs; cases g) (auto split: option.splits)

lemma nav_by_title: "first_answer (AtId i) g (map (\<lambda>q. (AtTitle (t q), l q)) qs) = None"
  by (induction qs) auto

lemma body_means:
  "(case first_answer a g (reachable (page_body fr pg p)) of Some m \<Rightarrow> msg_op s m | None \<Rightarrow> None) =
     (if pg = PageSettings then
        (case first_answer a g (reachable (settings_render (pg_settings p))) of Some m \<Rightarrow> msg_op s m | None \<Rightarrow> None)
      else None)"
  by (cases pg; cases g)
    (simp_all add: page_body_def reachable_overview reachable_connections reachable_logs split: option.split)

lemma settings_listeners_mean:
  "(case first_answer a g (reachable (settings_render s)) of Some m \<Rightarrow> msg_op s m | None \<Rightarrow> None) =
     (case g of
        GClick \<Rightarrow>
          if cv_saving s \<noteq> None \<or> \<not> has_changes s then None
          else if a = AtId (Id ''save'') then Some VoSave
          else if a = AtId (Id ''reload'') then Some VoReload
          else None
      | GToggle on \<Rightarrow>
          if a = AtId (Id ''corp-enabled'') \<and> choice_name (fl_mode (cv_fields s)) \<in> {''upstream'', ''pac''}
          then Some (VoEdit (cv_fields s) on) else None
      | _ \<Rightarrow> None)"
  unfolding reachable_settings by (cases g) auto

lemma press_means:
  assumes "mv_pages v = Inr p"
  shows "(case press a g (window_render fr l v) of Some m \<Rightarrow> msg_op (pg_settings p) m | None \<Rightarrow> None) =
     settings_gesture (mv_page v) (pg_settings p) a g"
proof (cases a)
  case (AtTitle t)
  have "first_answer a g (reachable (page_body fr (mv_page v) p)) = None"
    unfolding AtTitle by (cases "mv_page v")
      (simp_all add: page_body_def reachable_overview reachable_connections reachable_logs reachable_settings)
  then show ?thesis
    using nav_means_nothing [where a = a and g = g and t = "\<lambda>q. shared (page_title q)" and qs = all_pages and s = "pg_settings p"]
    unfolding AtTitle press_def reachable_window [OF assms] first_answer_append
    by (cases g) (auto simp: settings_gesture_def split: option.splits)
next
  case (AtId i)
  show ?thesis
  proof (cases "i = Id ''zicade''")
    case True
    have "first_answer a g (reachable (page_body fr (mv_page v) p)) = None"
      unfolding AtId True by (cases "mv_page v")
        (simp_all add: page_body_def reachable_overview reachable_connections reachable_logs reachable_settings)
    then show ?thesis
      unfolding AtId True press_def reachable_window [OF assms] first_answer_append nav_by_title
      by (cases g) (auto simp: settings_gesture_def)
  next
    case False
    then show ?thesis
      unfolding AtId press_def reachable_window [OF assms] first_answer_append nav_by_title
      using body_means [where a = a and g = g and fr = fr and pg = "mv_page v" and p = p and s = "pg_settings p"] settings_listeners_mean [where a = a and g = g and s = "pg_settings p"]
      by (cases g) (simp_all add: AtId settings_gesture_def)
  qed
qed

lemma window_msg_pages:
  assumes "mv_pages v = Inr p"
  shows "\<exists>q. mv_pages (window_msg c m v) = Inr q \<and>
    (case msg_op (pg_settings p) m of
       Some op \<Rightarrow> view_step to_json ctx hook (pg_settings p, c) op = ((pg_settings q, c), None)
     | None \<Rightarrow> pg_settings q = pg_settings p)"
  using assms
  by (cases m) (simp_all add: show_page_def on_settings_def save_settings_def corp_clicked_def)

lemma window_step_form:
  assumes p: "mv_pages v = Inr p" and step: "window_step to_json ctx hook (v, c) e = ((v', c'), x)"
  shows "\<exists>q. mv_pages v' = Inr q \<and>
    (case form_op (v, c) e of
       Some op \<Rightarrow> view_step to_json ctx hook (pg_settings p, c) op = ((pg_settings q, c'), x)
     | None \<Rightarrow> pg_settings q = pg_settings p \<and> c' = c \<and> x = None)"
proof (cases e)
  case (WePress fr a g)
  show ?thesis
  proof (cases "press a g (window_render fr (listen_of c) v)")
    case (Some m)
    with press_means [OF p, of a g fr "listen_of c"]
    have "msg_op (pg_settings p) m = form_op (v, c) e" using WePress p by simp
    with window_msg_pages [OF p, of c m to_json ctx hook] step WePress Some p show ?thesis
      by (auto split: option.splits)
  next
    case None
    with press_means [OF p, of a g fr "listen_of c"] have "form_op (v, c) e = None" using WePress p by simp
    then show ?thesis using step WePress p None by simp
  qed
next
  case (WeApplied outcome)
  then show ?thesis using step p by (auto simp: on_settings_def split: prod.splits)
qed (use step p in \<open>auto simp: on_settings_def Let_def split: if_splits\<close>)

interpretation window_form: stutters "window_step to_json ctx hook" has_pages settings_of
    "view_step to_json ctx hook" form_op None for to_json ctx hook
proof
  fix s e s' and x :: "(control_error + unit) option"
  assume pages: "has_pages s" and step: "window_step to_json ctx hook s e = (s', x)"
  obtain v c v' c' where s: "s = (v, c)" "s' = (v', c')" by fastforce
  with pages obtain p where p: "mv_pages v = Inr p" by auto
  from window_step_form [OF p step [unfolded s]] obtain q where q: "mv_pages v' = Inr q"
    "case form_op (v, c) e of
       Some op \<Rightarrow> view_step to_json ctx hook (pg_settings p, c) op = ((pg_settings q, c'), x)
     | None \<Rightarrow> pg_settings q = pg_settings p \<and> c' = c \<and> x = None" by blast
  show "has_pages s'" using s q by simp
  { assume "form_op s e = None"
    then show "settings_of s' = settings_of s \<and> x = None" using s p q by simp }
  { fix j assume "form_op s e = Some j"
    then show "view_step to_json ctx hook (settings_of s) j = (settings_of s', x)" using s p q by simp }
qed

text \<open>C32
  The settings in the window are the settings form, whatever else happens in the window. Any
  sequence of gestures, typing, keys, ticks, log lines and ends of saves moves the settings page
  and the control exactly as the form's own operations do that these events mean, one by one and
  in order, with the same results of the applies. What an event means is said by \<open>form_op\<close>
  without the listeners: a click on \<open>save\<close> or \<open>reload\<close> is the save or the discard, only on the
  settings page and only while the button is enabled; the switch and the saving key are theirs;
  typing and picking change one field, and only one on screen; all else leaves the form alone.\<close>

theorem window_implements_form:
  "case run (window_step to_json ctx hook) (window_new src backlog c, c) events of
     ((v', c'), results) \<Rightarrow>
       \<exists>p answers. mv_pages v' = Inr p \<and>
         run (view_step to_json ctx hook) (view_open c, c)
             (ops_along (window_step to_json ctx hook) form_op (window_new src backlog c, c) events)
           = ((pg_settings p, c'), answers) \<and>
         filter (\<lambda>r. r \<noteq> None) answers = filter (\<lambda>r. r \<noteq> None) results"
proof -
  obtain v' c' rs where r: "run (window_step to_json ctx hook) (window_new src backlog c, c) events = ((v', c'), rs)"
    by (metis prod.exhaust)
  have new: "mv_pages (window_new src backlog c) = Inr (pages_new src backlog c)"
    by (simp add: window_new_def main_view_new_def)
  then have pages: "has_pages (window_new src backlog c, c)" by simp
  obtain p where p: "mv_pages v' = Inr p" using window_form.run_keeps [OF pages r] by auto
  from window_form.run_stutters [OF pages r] obtain ys where
    "run (view_step to_json ctx hook) (settings_of (window_new src backlog c, c))
       (ops_along (window_step to_json ctx hook) form_op (window_new src backlog c, c) events) = (settings_of (v', c'), ys)"
    "filter (\<lambda>y. y \<noteq> None) ys = filter (\<lambda>x. x \<noteq> None) rs" by blast
  with p new r show ?thesis by (auto simp: pages_new_def)
qed

subsection \<open>Passwords\<close>

definition same_but_passwords :: "'w control \<Rightarrow> 'w control \<Rightarrow> bool" where
  "same_but_passwords c d \<longleftrightarrow>
     config_redacted c = config_redacted d \<and> ct_status c = ct_status d \<and> ct_path c = ct_path d"

lemma apply_same:
  assumes "same_but_passwords c d"
    and "control_apply (\<lambda>cfg. Inr (json cfg)) ctx hook outcome edited c = (c', r)"
    and "control_apply (\<lambda>cfg. Inr (json cfg)) ctx hook outcome edited d = (d', q)"
  shows "same_but_passwords c' d' \<and> r = q"
  using assms
  by (auto simp: same_but_passwords_def control_apply_def save_file_def Let_def validate_keep_secrets
      config_redacted_def without_secrets_keep split: sum.splits write_outcome.splits option.splits)

lemma same_draws: "same_but_passwords c d \<Longrightarrow> listen_of c = listen_of d"
  by (simp add: same_but_passwords_def listen_of_def)

lemma same_msg: "same_but_passwords c d \<Longrightarrow> window_msg c m v = window_msg d m v"
  by (cases m) (simp_all add: same_but_passwords_def view_reload_def [abs_def])

lemma same_status: "same_but_passwords c d \<Longrightarrow> refresh_overview src elapsed c = refresh_overview src elapsed d"
  by (rule ext) (simp add: same_but_passwords_def refresh_overview_def control_status_def)

lemma window_step_same:
  assumes "same_but_passwords c d"
    and "window_step (\<lambda>cfg. Inr (json cfg)) ctx hook (v, c) e = ((v1, c1), r)"
    and "window_step (\<lambda>cfg. Inr (json cfg)) ctx hook (v, d) e = ((v2, d2), q)"
  shows "v1 = v2 \<and> same_but_passwords c1 d2 \<and> r = q"
proof (cases e)
  case (WeApplied outcome)
  show ?thesis
  proof (cases "mv_pages v")
    case (Inr p)
    show ?thesis
    proof (cases "cv_saving (pg_settings p)")
      case (Some cfg)
      obtain c' x where c: "control_apply (\<lambda>cfg. Inr (json cfg)) ctx hook outcome cfg c = (c', x)" by fastforce
      obtain d' y where d: "control_apply (\<lambda>cfg. Inr (json cfg)) ctx hook outcome cfg d = (d', y)" by fastforce
      have same: "same_but_passwords c' d'" "x = y" using apply_same [OF assms(1) c d] by auto
      then have "view_applied x c' s = view_applied y d' s" for s
        by (auto simp: view_applied_def view_reload_def same_but_passwords_def Let_def split: sum.split)
      then show ?thesis using assms Inr Some WeApplied c d same by auto
    qed (use assms Inr WeApplied in auto)
  qed (use assms WeApplied in auto)
qed (use assms in \<open>auto simp: same_draws same_msg same_status on_screen_def split: option.splits\<close>)

lemma window_run_same:
  assumes "same_but_passwords c d"
    and "run (window_step (\<lambda>cfg. Inr (json cfg)) ctx hook) (v, c) es = ((v1, c1), rs)"
    and "run (window_step (\<lambda>cfg. Inr (json cfg)) ctx hook) (v, d) es = ((v2, d2), qs)"
  shows "v1 = v2 \<and> same_but_passwords c1 d2 \<and> rs = qs"
  using assms
proof (induction es arbitrary: v c d rs qs)
  case (Cons e es)
  obtain s1 r rs' where c: "window_step (\<lambda>cfg. Inr (json cfg)) ctx hook (v, c) e = (s1, r)"
      "run (window_step (\<lambda>cfg. Inr (json cfg)) ctx hook) s1 es = ((v1, c1), rs')" "rs = r # rs'"
    using Cons.prems(2) by (rule run_ConsE)
  obtain s2 q qs' where d: "window_step (\<lambda>cfg. Inr (json cfg)) ctx hook (v, d) e = (s2, q)"
      "run (window_step (\<lambda>cfg. Inr (json cfg)) ctx hook) s2 es = ((v2, d2), qs')" "qs = q # qs'"
    using Cons.prems(3) by (rule run_ConsE)
  obtain v' c' w' d' where s: "s1 = (v', c')" "s2 = (w', d')" by fastforce
  from window_step_same [OF Cons.prems(1) c(1) [unfolded s] d(1) [unfolded s]]
  have e: "v' = w'" "same_but_passwords c' d'" "r = q" by blast+
  from Cons.IH [OF e(2) c(2) [unfolded s] d(2) [unfolded s, folded e(1)]] show ?case
    unfolding c(3) d(3) e(3) by blast
qed simp

lemma same_new: "same_but_passwords c d \<Longrightarrow> window_new src backlog c = window_new src backlog d"
  using same_status [of c d src 0]
  by (simp add: window_new_def pages_new_def same_but_passwords_def view_open_def Let_def)

text \<open>C26
  The window tells nothing about the stored passwords. For two controls that differ only in the
  passwords of their configurations, whatever the user does and whatever the proxy reports, every
  frame that is drawn, down to each label and listener, and the result of every save are the
  same.\<close>

theorem window_hides_passwords:
  assumes "config_redacted c = config_redacted d" and "ct_status c = ct_status d" and "ct_path c = ct_path d"
  shows "case (run (window_step (\<lambda>cfg. Inr (json cfg)) ctx hook) (window_new src backlog c, c) es,
               run (window_step (\<lambda>cfg. Inr (json cfg)) ctx hook) (window_new src backlog d, d) es) of
    (((v1, c1), rs), ((v2, d1), qs)) \<Rightarrow>
       window_render fr (listen_of c1) v1 = window_render fr (listen_of d1) v2 \<and> rs = qs"
proof -
  have same: "same_but_passwords c d" using assms by (simp add: same_but_passwords_def)
  obtain v1 c1 rs where c: "run (window_step (\<lambda>cfg. Inr (json cfg)) ctx hook) (window_new src backlog c, c) es
      = ((v1, c1), rs)" by (metis prod.exhaust)
  obtain v2 d1 qs where d: "run (window_step (\<lambda>cfg. Inr (json cfg)) ctx hook) (window_new src backlog d, d) es
      = ((v2, d1), qs)" by (metis prod.exhaust)
  have "run (window_step (\<lambda>cfg. Inr (json cfg)) ctx hook) (window_new src backlog c, d) es = ((v2, d1), qs)"
    using d same_new [OF same, of src backlog] by simp
  from window_run_same [OF same c this] same_draws [of c1 d1]
  show ?thesis unfolding c d by simp
qed

subsection \<open>Ids\<close>

lemma ids_window:
  "ids (window_render fr l v) =
     Id ''zicade'' # (case mv_pages v of
        Inl _ \<Rightarrow> [Id ''start-error'']
      | Inr p \<Rightarrow> Id ''nav'' # Id ''sidebar-listen'' # ids (page_body fr (mv_page v) p))"
  by (simp add: window_render_def sidebar_render_def sidebar_identity_def sidebar_status_def content_of_def
      failed_page_def all_pages_def Let_def split: sum.split)

definition reached :: "sources \<Rightarrow> bool" where
  "reached src \<longleftrightarrow> (\<forall>m. so_metrics src = Some m \<longrightarrow>
     (\<exists>ops. length ops < 2 ^ 64 \<and> m = fst (run tracker_step metrics_default ops)))"

fun event_reached :: "win_event \<Rightarrow> bool" where
  "event_reached (WeOverviewTick src _) = reached src"
| "event_reached (WeConnectionsTick src _) = reached src"
| "event_reached _ = True"

definition rows_distinct :: "pages main_view \<Rightarrow> bool" where
  "rows_distinct v \<longleftrightarrow> (case mv_pages v of Inl _ \<Rightarrow> True
     | Inr p \<Rightarrow> distinct (map sn_id (cv_all (pg_connections p))) \<and> distinct (map sn_id (ov_open (pg_overview p))))"

lemma reached_distinct: "reached src \<Longrightarrow> distinct (map sn_id (control_connections now (so_metrics src)))"
  by (auto simp: reached_def control_connections_def snapshot_ids_distinct split: option.split)

lemma overview_rows_distinct:
  "distinct (map sn_id cs) \<Longrightarrow> distinct (map sn_id (ov_open (overview_refresh st cfg cs now v)))"
  by (auto simp: overview_refresh_def Let_def distinct_map_filter take_map [symmetric] intro: distinct_take)

lemma rows_distinct_new: "reached src \<Longrightarrow> rows_distinct (window_new src backlog c)"
  by (simp add: rows_distinct_def window_new_def main_view_new_def pages_new_def refresh_overview_def
      connections_new_def connections_refresh_def overview_rows_distinct reached_distinct)

lemma rows_distinct_msg: "rows_distinct v \<Longrightarrow> rows_distinct (window_msg c m v)"
  by (cases m) (auto simp: rows_distinct_def show_page_def on_pages_def on_settings_def save_settings_def
      conn_filter_clicked_def split: sum.splits)

lemma rows_distinct_step:
  assumes "rows_distinct v" and "event_reached e" and "window_step to_json ctx hook (v, c) e = ((v', c'), r)"
  shows "rows_distinct v'"
proof (cases e)
  case (WePress fr a g)
  with assms rows_distinct_msg [OF assms(1)] show ?thesis by (auto split: option.splits)
next
  case (WeApplied outcome)
  with assms show ?thesis by (auto simp: rows_distinct_def on_settings_def on_pages_def split: sum.splits prod.splits)
qed (use assms in \<open>auto simp: rows_distinct_def on_settings_def on_pages_def refresh_overview_def connections_refresh_def
    overview_rows_distinct reached_distinct split: sum.splits if_splits\<close>)

lemma rows_distinct_run:
  "rows_distinct v \<Longrightarrow> list_all event_reached es \<Longrightarrow> run (window_step to_json ctx hook) (v, c) es = ((v', c'), rs) \<Longrightarrow>
     rows_distinct v'"
proof (induction es arbitrary: v c rs)
  case (Cons e es)
  from Cons.prems(3) obtain s r rs' where s: "window_step to_json ctx hook (v, c) e = (s, r)"
      "run (window_step to_json ctx hook) s es = ((v', c'), rs')" by (rule run_ConsE)
  obtain v1 c1 where "s = (v1, c1)" by fastforce
  moreover from this s(1) Cons.prems(2) have "rows_distinct v1"
    by (auto intro: rows_distinct_step [OF Cons.prems(1)])
  ultimately show ?case using Cons.IH [of v1 c1] Cons.prems(2) s(2) by auto
qed simp

lemma distinct_numbered:
  "distinct (map (\<lambda>c. IdNum s (unat (sn_id c))) cs) \<longleftrightarrow> distinct (map sn_id cs)"
proof -
  have "inj (\<lambda>i :: u64. IdNum s (unat i))" by (simp add: inj_def word_unat_eq_iff)
  then have "distinct (map (\<lambda>i. IdNum s (unat i)) (map sn_id cs)) \<longleftrightarrow> distinct (map sn_id cs)"
    by (intro distinct_map [THEN trans]) (auto intro: inj_on_subset)
  then show ?thesis by (simp add: comp_def)
qed

lemma distinct_slice: "distinct xs \<Longrightarrow> distinct (in_view visible xs)"
  by (simp add: in_view_def)

lemma page_ids_distinct:
  assumes "rows_distinct v" and "mv_pages v = Inr p"
  shows "distinct (Id ''zicade'' # Id ''nav'' # Id ''sidebar-listen'' # ids (page_body fr (mv_page v) p))"
proof (cases "mv_page v")
  case PageOverview
  then show ?thesis using assms
    by (auto simp: page_body_def ids_overview overview_ids_def distinct_numbered rows_distinct_def)
next
  case PageConnections
  have "distinct (map sn_id (in_view (fr_connections fr) (conn_shown (pg_connections p))))"
    using assms
    by (simp add: rows_distinct_def in_view_def take_map [symmetric] drop_map [symmetric] conn_shown_def Let_def
        distinct_map_filter)
  then show ?thesis using PageConnections
    by (auto simp: page_body_def ids_connections connections_ids_def distinct_numbered)
next
  case PageLogs
  have "distinct (map (IdNum ''log-line'') (in_view (fr_logs fr) [0..<n]))" for n
    by (simp add: distinct_map distinct_slice inj_on_def del: distinct_upt) (simp add: in_view_def)
  then show ?thesis using PageLogs by (auto simp: page_body_def ids_logs logs_ids_def)
next
  case PageSettings
  have "inj_on Id A" for A by (simp add: inj_on_def)
  moreover have "''zicade'' \<notin> set (settings_ids s)" "''nav'' \<notin> set (settings_ids s)" "''sidebar-listen'' \<notin> set (settings_ids s)" for s
    by (auto simp: settings_ids_def auth_ids_def Let_def)
  ultimately show ?thesis using PageSettings settings_ids_distinct
    by (auto simp: page_body_def ids_settings distinct_map)
qed

definition still :: viewport where
  "still = \<lparr>fr_reduce_motion = True, fr_since = 0, fr_connections = (0, 20), fr_logs = (0, 40), fr_clock = (\<lambda>_. None)\<rparr>"

definition with_password :: "string \<Rightarrow> config \<Rightarrow> config" where
  "with_password pw cfg = map_auth_slots (\<lambda>a. a\<lparr>auth_password := Some pw\<rparr>) cfg"

theorem window_hides_passwords_witness:
  "case (run (window_step (\<lambda>cfg. Inr ''{}'') ctx_windows None)
           (window_new \<lparr>so_metrics = None, so_on_corp = None, so_now = 0\<rparr> []
              (control_new (with_password ''secret'' demo_config) ''c.json'' [] ()),
            control_new (with_password ''secret'' demo_config) ''c.json'' [] ())
           [WePress still (AtTitle (shared ''Settings'')) GClick],
         run (window_step (\<lambda>cfg. Inr ''{}'') ctx_windows None)
           (window_new \<lparr>so_metrics = None, so_on_corp = None, so_now = 0\<rparr> []
              (control_new demo_config ''c.json'' [] ()),
            control_new demo_config ''c.json'' [] ())
           [WePress still (AtTitle (shared ''Settings'')) GClick]) of
    (((v1, c1), rs), ((v2, d1), qs)) \<Rightarrow>
       window_render still (listen_of c1) v1 = window_render still (listen_of d1) v2 \<and> rs = qs"
  by (rule window_hides_passwords [where json = "\<lambda>_. ''{}''"]) code_simp+

text \<open>C36
  On every page, after any events, no two elements on screen have the same id, so that what a
  test or a screen reader finds under an id is unique: the rows are numbered by the tracker's
  ids, of which no snapshot holds one twice.\<close>

theorem element_ids_distinct:
  assumes "reached src" and "list_all event_reached events"
  shows "case run (window_step to_json ctx hook) (window_new src backlog c, c) events of
    ((v', c'), _) \<Rightarrow> distinct (ids (window_render fr (listen_of c') v'))"
proof -
  obtain v' c' rs where r: "run (window_step to_json ctx hook) (window_new src backlog c, c) events = ((v', c'), rs)"
    by (metis prod.exhaust)
  have rows: "rows_distinct v'" using rows_distinct_run [OF rows_distinct_new [OF assms(1)] assms(2) r] .
  show ?thesis
  proof (cases "mv_pages v'")
    case (Inl reason)
    then show ?thesis by (simp add: r ids_window)
  next
    case (Inr p)
    then show ?thesis using page_ids_distinct [OF rows Inr, of fr] by (simp add: r ids_window)
  qed
qed

lemma reached_sample: "reached \<lparr>so_metrics = Some sample_metrics, so_on_corp = None, so_now = 7\<rparr>"
proof -
  let ?ops = "[TStart KindTunnel ''a:443'' ''direct'' None 0 0, TSetOpen 1, TStart KindTunnel ''b:443'' ''direct'' None 0 0]"
  have "length ?ops < 2 ^ 64" by simp
  then show ?thesis by (auto simp: reached_def sample_metrics_def intro!: exI [of _ ?ops])
qed

theorem element_ids_distinct_witness:
  "case run (window_step (\<lambda>cfg. Inr ''{}'') ctx_windows None)
      (window_new \<lparr>so_metrics = Some sample_metrics, so_on_corp = None, so_now = 7\<rparr> []
         (control_new demo_config ''c.json'' [] ()), control_new demo_config ''c.json'' [] ())
      [WePress still (AtTitle (shared ''Connections'')) GClick,
       WeConnectionsTick \<lparr>so_metrics = Some sample_metrics, so_on_corp = None, so_now = 7\<rparr> 9] of
    ((v', c'), _) \<Rightarrow> distinct (ids (window_render still (listen_of c') v'))"
  by (rule element_ids_distinct) (simp_all add: reached_sample)

subsection \<open>From the tracker to the screen\<close>

text \<open>C35
  The overview shows the tracker's ledger. After any operations of the proxy, a refresh puts on
  the page, for the eye and for a screen reader: as requests the open and the finished
  connections, as failures the failed ones among them, as bytes those of all of them, each
  request count reading back as its number; and under \<open>In flight\<close> exactly the six newest live
  connections.\<close>

theorem overview_shows_ledger:
  assumes "length ops < 2 ^ 64"
  shows "case run tracker_step metrics_default ops of
     (m, outs) \<Rightarrow>
       let page = overview_render rm since
             (refresh_overview \<lparr>so_metrics = Some m, so_on_corp = cell, so_now = now\<rparr> elapsed c v);
           requests = of_nat (length (mt_open m)) + of_nat (length (finished outs))
       in says page ''stat-requests'' (format_count requests) \<and>
          parse_u64 (filter (\<lambda>ch. ch \<noteq> CHR '','') (format_count requests)) = Some requests \<and>
          says page ''stat-failed'' (format_count (open_sum failed_flag m
            + of_nat (length (filter (\<lambda>x. is_failed (sn_state x)) (finished outs))))) \<and>
          says page ''stat-downloaded'' (format_bytes (open_sum en_down m + sum_list (map sn_down (finished outs)))) \<and>
          says page ''stat-uploaded'' (format_bytes (open_sum en_up m + sum_list (map sn_up (finished outs)))) \<and>
          ids page = overview_ids @ map (\<lambda>x. IdNum ''in-flight'' (unat (sn_id x)))
            (take 6 (filter is_live (tracker_snapshot now m)))"
proof (cases "run tracker_step metrics_default ops")
  case (Pair m outs)
  note b = run_balance [OF Pair assms]
  let ?v = "refresh_overview \<lparr>so_metrics = Some m, so_on_corp = cell, so_now = now\<rparr> elapsed c v"
  have st: "ss_requests_total (ov_status ?v) = mt_total_requests m" "ss_requests_failed (ov_status ?v) = mt_failed_requests m"
    "ss_bytes_in (ov_status ?v) = mt_bytes_in m" "ss_bytes_out (ov_status ?v) = mt_bytes_out m"
    "ov_open ?v = take 6 (filter is_live (tracker_snapshot now m))"
    by (simp_all add: refresh_overview_def overview_refresh_def control_status_def control_connections_def
        recent_rows_def Let_def split: option.split)
  show ?thesis
    unfolding Pair prod.case Let_def
    using overview_says(1,2,4,5) [where v = ?v and rm = rm and since = since]
    by (simp only: st b(1-4) ids_overview count_reads_back simp_thms)
qed

theorem overview_shows_ledger_witness:
  "case run tracker_step metrics_default sample_ops of
     (m, outs) \<Rightarrow>
       let page = overview_render True 0
             (refresh_overview \<lparr>so_metrics = Some m, so_on_corp = None, so_now = 9\<rparr> 0
                (control_new default_config ''c.json'' [] ()) overview_new);
           requests = of_nat (length (mt_open m)) + of_nat (length (finished outs))
       in says page ''stat-requests'' (format_count requests) \<and>
          parse_u64 (filter (\<lambda>ch. ch \<noteq> CHR '','') (format_count requests)) = Some requests \<and>
          says page ''stat-failed'' (format_count (open_sum failed_flag m
            + of_nat (length (filter (\<lambda>x. is_failed (sn_state x)) (finished outs))))) \<and>
          says page ''stat-downloaded'' (format_bytes (open_sum en_down m + sum_list (map sn_down (finished outs)))) \<and>
          says page ''stat-uploaded'' (format_bytes (open_sum en_up m + sum_list (map sn_up (finished outs)))) \<and>
          ids page = overview_ids @ map (\<lambda>x. IdNum ''in-flight'' (unat (sn_id x)))
            (take 6 (filter is_live (tracker_snapshot 9 m)))"
  by (rule overview_shows_ledger) (simp add: sample_ops_def)

end
