(* ===== verification/Preview.thy ===== *)
theory Preview
  imports Window
begin

text \<open>
  The preview, \<^verbatim>\<open>crates/zicade-ui/examples/preview.rs\<close>: the window on sample data,
  without a proxy. Its traffic ticks forever on a thread; a tick is a step here. The lemmas check
  the samples against the model: the configuration is valid, the ids are unique, and each page
  shows what the samples say.
\<close>

subsection \<open>The samples\<close>

record sample_traffic =
  st_bytes_in :: u64
  st_bytes_out :: u64
  st_connections :: "connection_snapshot list"

text \<open>The client's port and the byte counts are computed from the id; durations are in milliseconds.\<close>

definition preview_connection ::
    "u64 \<Rightarrow> string \<Rightarrow> string \<Rightarrow> connection_kind \<Rightarrow> connection_state \<Rightarrow> nat \<Rightarrow> millis \<Rightarrow> connection_snapshot" where
  "preview_connection i target route kind state secs opened =
     \<lparr>sn_id = i, sn_kind = kind, sn_target = target, sn_route = route,
      sn_client = Some (''127.0.0.1:'' @ show_word (52000 + ucast i :: u16)),
      sn_opened_at = opened, sn_duration = secs * 1000,
      sn_up = 1500 * i, sn_down = 48000 * i * i, sn_state = state\<rparr>"

definition preview_connections :: "millis \<Rightarrow> connection_snapshot list" where
  "preview_connections opened =
     (let get = KindHttp ''GET'' in
      [preview_connection 12 ''teams.microsoft.com:443'' ''proxy.example.com:8080'' KindTunnel StOpen 412 opened,
       preview_connection 11 ''github.com:443'' ''direct'' KindTunnel StOpen 95 opened,
       preview_connection 10 ''outlook.office365.com:443'' ''proxy.example.com:8080'' KindTunnel StOpen 1830 opened,
       preview_connection 9 ''crates.io:443'' ''direct'' KindTunnel StConnecting 0 opened,
       preview_connection 8 ''intranet.corp.example:80'' ''direct'' (get (Some 200)) StClosed 1 opened,
       preview_connection 7 ''static.example.net:443'' ''proxy.example.com:8080'' KindTunnel
         (StFailed ''upstream CONNECT failed: 407 after 3 legs'') 2 opened,
       preview_connection 6 ''update.example.com:80'' ''direct'' (get (Some 304)) StClosed 0 opened,
       preview_connection 5 ''api.example.com:443'' ''proxy.example.com:8080'' KindTunnel StClosed 64 opened])"

definition preview_config :: config where
  "preview_config = default_config\<lparr>cfg_routing := default_routing
     \<lparr>rt_mode := ModePac,
      rt_pac := Some (default_pac\<lparr>pac_source := PacAuto, pac_auth := default_auth\<lparr>auth_mode := AuthNegotiate\<rparr>\<rparr>),
      rt_corp_network := Some \<lparr>corp_enabled = True, corp_dns_suffixes = [''corp.example''], corp_poll_seconds = 30\<rparr>\<rparr>\<rparr>"

definition preview_lines :: "(string \<times> string \<times> string) list" where
  "preview_lines =
     [(''INFO'', ''zicade'', ''zicade started in tray mode''),
      (''INFO'', ''zicade::netmon'', ''on the corporate network; using PAC routing''),
      (''INFO'', ''zicade_proxy::tunnel'', ''tunnel established''),
      (''WARN'', ''zicade_proxy::http_forward'', ''upstream CONNECT failed''),
      (''DEBUG'', ''zicade_proxy::upstream'', ''upstream HTTP-forward complete''),
      (''ERROR'', ''zicade_routing::pac'', ''PAC download timed out after 10s''),
      (''INFO'', ''zicade_proxy::tunnel'', ''tunnel closed'')]"

text \<open>The events, one every seven seconds since a minute before \<open>start\<close>.\<close>

definition preview_event :: "u64 \<Rightarrow> nat \<times> string \<times> string \<times> string \<Rightarrow> log_event" where
  "preview_event start line =
     (case line of (i, level, target, message) \<Rightarrow>
        \<lparr>le_seq = 0, le_timestamp = start - 60000 + of_nat i * 7000, le_level = level, le_target = target,
         le_message = message,
         le_fields = (if prefix ''tunnel'' message then [(''target'', ''github.com:443'')] else [])\<rparr>)"

text \<open>The pushes of the one thread there is.\<close>

definition preview_logs :: "u64 \<Rightarrow> log_sys \<Rightarrow> log_sys" where
  "preview_logs start logs =
     fst (run log_step logs (concat (map (\<lambda>line. log_push 0 (preview_event start line)) (enumerate 0 preview_lines))))"

subsection \<open>Ticking\<close>

definition tick_connection :: "connection_snapshot \<Rightarrow> connection_snapshot" where
  "tick_connection c =
     (if sn_state c = StOpen
      then c\<lparr>sn_down := sn_down c + 20000 * sn_id c, sn_up := sn_up c + 900, sn_duration := sn_duration c + 250\<rparr>
      else c)"

definition preview_tick :: "u64 \<times> sample_traffic \<Rightarrow> u64 \<times> sample_traffic" where
  "preview_tick s =
     (case s of (tick, t) \<Rightarrow>
        let tick = tick + 1; wave = tick mod 20
        in (tick, t\<lparr>st_bytes_in := st_bytes_in t + (180000 + wave * 40000),
                    st_bytes_out := st_bytes_out t + (12000 + wave * 1500),
                    st_connections := map tick_connection (st_connections t)\<rparr>))"

subsection \<open>The window on the samples\<close>

definition preview_page :: "string option \<Rightarrow> page" where
  "preview_page arg =
     (if arg = Some ''connections'' then PageConnections else if arg = Some ''logs'' then PageLogs
      else if arg = Some ''settings'' then PageSettings else PageOverview)"

text \<open>The status that is set, with the sample's counters over it.\<close>

definition preview_status :: "sample_traffic \<Rightarrow> status_snapshot" where
  "preview_status t =
     status_default\<lparr>ss_routing_mode := ''pac'', ss_listen_addr := ''127.0.0.1:3129'', ss_on_corp := Some True,
       ss_requests_total := 1284, ss_active_connections := 9, ss_requests_failed := 3,
       ss_bytes_in := st_bytes_in t, ss_bytes_out := st_bytes_out t\<rparr>"

definition preview_traffic :: "millis \<Rightarrow> sample_traffic" where
  "preview_traffic opened = \<lparr>st_bytes_in = 0, st_bytes_out = 0, st_connections = preview_connections opened\<rparr>"

definition preview_window :: "string option \<Rightarrow> u64 \<Rightarrow> sample_traffic \<Rightarrow> pages main_view" where
  "preview_window arg start t =
     (let c = control_new preview_config ''zicade-preview-config.json'' [] ();
          pages = \<lparr>pg_overview = overview_refresh (preview_status t) (config_redacted c) (st_connections t) 0 overview_new,
                   pg_connections = connections_new (st_connections t) 0,
                   pg_logs = logs_new (log_recent (lg_store (preview_logs start (log_start 256)))),
                   pg_settings = view_open c\<rparr>
      in show_page (preview_page arg) (main_view_new (Inr pages)))"

subsection \<open>The samples in the model\<close>

lemma preview_config_valid: "validate preview_config ctx_windows = Inr ()"
  by code_simp

lemma preview_ids_distinct: "distinct (map sn_id (preview_connections opened))"
  by (simp add: preview_connections_def preview_connection_def Let_def)

lemma tick_keeps_ids: "map sn_id (st_connections (snd (preview_tick s))) = map sn_id (st_connections (snd s))"
  by (auto simp: preview_tick_def tick_connection_def Let_def split: prod.split)

lemma preview_page_on_screen: "mv_page (preview_window arg start t) = preview_page arg"
  by (simp add: preview_window_def show_page_def Let_def)

text \<open>The sample window's rows are distinct after any number of ticks.\<close>

lemma preview_rows_distinct:
  "rows_distinct (preview_window arg start (snd ((preview_tick ^^ n) (0, preview_traffic opened))))"
proof -
  have "map sn_id (st_connections (snd ((preview_tick ^^ n) (0, preview_traffic opened)))) =
      map sn_id (preview_connections opened)"
    by (induction n) (simp_all add: tick_keeps_ids preview_traffic_def)
  then have "distinct (map sn_id (st_connections (snd ((preview_tick ^^ n) (0, preview_traffic opened)))))"
    by (simp add: preview_ids_distinct)
  then show ?thesis
    by (simp add: rows_distinct_def preview_window_def main_view_new_def show_page_def connections_new_def
        connections_refresh_def overview_rows_distinct Let_def)
qed

text \<open>What the overview says of the samples.\<close>

lemma preview_overview_says:
  "says (overview_render rm since (overview_refresh (preview_status t) preview_config cs now v))
     ''stat-requests'' ''1,284''"
  "says (overview_render rm since (overview_refresh (preview_status t) preview_config cs now v))
     ''stat-routing'' ''Routing each request with the PAC script, on the corporate network''"
proof -
  let ?v = "overview_refresh (preview_status t) preview_config cs now v"
  have count: "format_count 1284 = ''1,284''"
    by (simp add: format_count_def show_word_def show_int.simps char_of_def)
  have "ss_requests_total (ov_status ?v) = 1284"
    by (simp add: overview_refresh_def preview_status_def Let_def)
  then show "says (overview_render rm since ?v) ''stat-requests'' ''1,284''"
    using overview_says(1) [of rm since ?v] count by simp
  have "ov_routing ?v = ''Routing each request with the PAC script, on the corporate network''"
    by (simp add: overview_refresh_def preview_status_def routing_sentence_def preview_config_def Let_def)
  then show "says (overview_render rm since ?v) ''stat-routing''
      ''Routing each request with the PAC script, on the corporate network''"
    using overview_says(6) [of rm since ?v] by simp
qed

text \<open>The filter on failures leaves the one that failed, and the labels are sentences.\<close>

lemma preview_failed_row:
  "map conn_describe (conn_shown (conn_filter_clicked 2 (connections_new (preview_connections 0) 0))) =
     [''Failed: upstream CONNECT failed: 407 after 3 legs, HTTPS static.example.net:443 via proxy.example.com:8080, up 10 KB, down 2.2 MB'']"
proof -
  have shown: "conn_shown (conn_filter_clicked n (connections_new cs 0)) =
      filter (filter_admits (if n < length conn_filters then fst (conn_filters ! n) else FilterAll)) cs" for n cs
    by (simp add: conn_shown_def conn_filter_clicked_def connections_new_def connections_refresh_def input_new_def
        trim_def trim_matches_def trim_start_matches_def trim_end_matches_def to_lowercase_def)
  have state: "sn_state (preview_connection i t r k s d w) = s" for i t r k s d w
    by (simp add: preview_connection_def)
  have "conn_shown (conn_filter_clicked 2 (connections_new (preview_connections 0) 0)) =
      [preview_connection 7 ''static.example.net:443'' ''proxy.example.com:8080'' KindTunnel
         (StFailed ''upstream CONNECT failed: 407 after 3 legs'') 2 0]"
    by (simp add: shown conn_filters_def preview_connections_def state Let_def)
  moreover have "format_bytes 10500 = ''10 KB''" "format_bytes 2352000 = ''2.2 MB''" by code_simp+
  ultimately show ?thesis by (simp add: conn_describe_def preview_connection_def)
qed

end
