(* ===== verification/Splice.thy ===== *)
theory Splice
  imports Tunnel Traces
begin

text \<open>
  The tunnel of \<^verbatim>\<open>crates/zicade-proxy/src/tunnel.rs\<close> as it runs: the two pumps interleave
  between their awaits, under the \<^verbatim>\<open>select!\<close> of \<^verbatim>\<open>splice\<close>, its wait policy and the clocks
  of the two timeouts. A pump can be dropped anywhere, also in the middle of a write. The
  lemmas show that every execution is one of \<open>splice\<close> and \<open>pump\<close> of the theory \<open>Tunnel\<close>,
  which take the timing and the fates of the writes as arguments, that its work is bounded
  by the bytes to relay, and that a close stays in reach.
\<close>

subsection \<open>One pump\<close>

text \<open>
  Where the loop of a pump awaits: the next read; the rest of a chunk of \<open>n\<close> bytes being
  written for \<open>t\<close> milliseconds; the shutdown of the sink. \<open>RpSettled\<close>: it has returned.\<close>

datatype relay_phase =
    RpReading
  | RpWriting bytes nat millis
  | RpFinishing
  | RpSettled "pump_error + unit"

record relay =
  ry_source :: socket
  ry_sink :: sink
  ry_counter :: u64
  ry_phase :: relay_phase

text \<open>What an await of a pump can resolve to; \<open>RvAccepted k\<close> are \<open>k\<close> bytes taken by the sink.\<close>

datatype relay_event = RvRead | RvAccepted nat | RvRefused io_error | RvTimeout | RvShutdown

definition relay_settle :: "string \<Rightarrow> io_error \<Rightarrow> relay \<Rightarrow> relay" where
  "relay_settle op err f = f\<lparr>ry_phase := RpSettled (Inl \<lparr>pe_op = op, pe_err = err\<rparr>)\<rparr>"

definition sink_take :: "bytes \<Rightarrow> relay \<Rightarrow> relay" where
  "sink_take b f = f\<lparr>ry_sink := (ry_sink f)\<lparr>si_got := si_got (ry_sink f) @ b\<rparr>\<rparr>"

text \<open>One step of a pump, with the chunks it reports as relayed; \<open>None\<close>: it awaits something else.\<close>

fun relay_step :: "relay_event \<Rightarrow> relay_phase \<Rightarrow> relay \<Rightarrow> (relay \<times> nat list) option" where
  "relay_step RvRead RpReading f =
     (case read buffer_size (ry_source f) of
        (Failed err, r) \<Rightarrow> Some (relay_settle ''read'' err (f\<lparr>ry_source := r\<rparr>), [])
      | (Stalled, r) \<Rightarrow> None
      | (Done b, r) \<Rightarrow>
          Some (f\<lparr>ry_source := r, ry_phase := (if b = [] then RpFinishing else RpWriting b (length b) 0)\<rparr>, []))"
| "relay_step (RvAccepted k) (RpWriting b n t) f =
     (if k = 0 \<or> length b < k then None
      else if k < length b then Some ((sink_take (take k b) f)\<lparr>ry_phase := RpWriting (drop k b) n t\<rparr>, [])
      else Some ((sink_take b f)\<lparr>ry_counter := ry_counter f + of_nat n, ry_phase := RpReading\<rparr>, [n]))"
| "relay_step (RvRefused err) (RpWriting b n t) f = Some (relay_settle ''write'' err f, [])"
| "relay_step RvTimeout (RpWriting b n t) f =
     (if write_stall_timeout \<le> t then Some (relay_settle ''write'' write_stalled f, []) else None)"
| "relay_step RvShutdown RpFinishing f =
     Some (f\<lparr>ry_sink := (ry_sink f)\<lparr>si_shutdown := True\<rparr>, ry_phase := RpSettled (Inr ())\<rparr>, [])"
| "relay_step _ _ f = None"

text \<open>Time passes up to the next deadline only: the timeout of the write, when one is under way.\<close>

fun relay_wait :: "millis \<Rightarrow> relay_phase \<Rightarrow> relay_phase option" where
  "relay_wait d (RpWriting b n t) =
     (if t + d \<le> write_stall_timeout then Some (RpWriting b n (t + d)) else None)"
| "relay_wait d p = Some p"

definition relay_start :: "socket \<Rightarrow> relay" where
  "relay_start r = \<lparr>ry_source = r, ry_sink = \<lparr>si_fates = [], si_got = [], si_shutdown = False\<rparr>,
     ry_counter = 0, ry_phase = RpReading\<rparr>"

subsection \<open>The two pumps\<close>

fun other_way :: "direction \<Rightarrow> direction" where
  "other_way ClientToUpstream = UpstreamToClient"
| "other_way UpstreamToClient = ClientToUpstream"

text \<open>
  Before the first pump settles; then, with which one did, its result, the wait policy and the
  time since; then the outcomes of both and the time from the first to the end.\<close>

datatype splice_stage =
    SgRacing
  | SgDraining direction "pump_error + unit" wait millis
  | SgClosed pump_outcome pump_outcome millis

record duplex =
  dx_up :: relay
  dx_down :: relay
  dx_stage :: splice_stage
  dx_chunks :: "(direction \<times> nat) list"
  dx_metrics :: metrics

fun relay_of :: "direction \<Rightarrow> duplex \<Rightarrow> relay" where
  "relay_of ClientToUpstream s = dx_up s"
| "relay_of UpstreamToClient s = dx_down s"

fun set_relay :: "direction \<Rightarrow> relay \<Rightarrow> duplex \<Rightarrow> duplex" where
  "set_relay ClientToUpstream f s = s\<lparr>dx_up := f\<rparr>"
| "set_relay UpstreamToClient f s = s\<lparr>dx_down := f\<rparr>"

fun count_op :: "u64 \<Rightarrow> direction \<times> nat \<Rightarrow> tracker_op" where
  "count_op i (ClientToUpstream, n) = TAddUp i (of_nat n)"
| "count_op i (UpstreamToClient, n) = TAddDown i (of_nat n)"

text \<open>A pump has stepped: the chunk it relayed, if any, is counted on the tracked connection.\<close>

definition relayed_by :: "u64 \<Rightarrow> direction \<Rightarrow> relay \<times> nat list \<Rightarrow> duplex \<Rightarrow> duplex" where
  "relayed_by i dir fl s =
     (set_relay dir (fst fl) s)
       \<lparr>dx_chunks := dx_chunks s @ map (Pair dir) (snd fl),
        dx_metrics := fst (run tracker_step (dx_metrics s) (map (count_op i \<circ> Pair dir) (snd fl)))\<rparr>"

definition splice_close :: "u64 \<Rightarrow> pump_outcome \<Rightarrow> pump_outcome \<Rightarrow> millis \<Rightarrow> duplex \<Rightarrow> duplex" where
  "splice_close i c2u u2c t s =
     s\<lparr>dx_stage := SgClosed c2u u2c t,
       dx_metrics := (case sr_fail (splice_report_of c2u u2c) of
                        Some reason \<Rightarrow> tracked_fail i reason (dx_metrics s)
                      | None \<Rightarrow> dx_metrics s)\<rparr>"

text \<open>Both settled, in this order, with the outcomes in the order of the report.\<close>

definition splice_end :: "u64 \<Rightarrow> direction \<Rightarrow> pump_error + unit \<Rightarrow> pump_outcome \<Rightarrow> millis \<Rightarrow> duplex \<Rightarrow> duplex" where
  "splice_end i first r out t s =
     (case first of
        ClientToUpstream \<Rightarrow> splice_close i (from_res r) out t s
      | UpstreamToClient \<Rightarrow> splice_close i out (from_res r) t s)"

definition first_settled :: "u64 \<Rightarrow> direction \<Rightarrow> pump_error + unit \<Rightarrow> duplex \<Rightarrow> duplex" where
  "first_settled i dir r s =
     (case wait_for r dir of
        WaitNone \<Rightarrow> splice_end i dir r OutDropped 0 s
      | w \<Rightarrow> s\<lparr>dx_stage := SgDraining dir r w 0\<rparr>)"

datatype splice_event = SvRelay direction relay_event | SvPass millis | SvGraceOver

abbreviation relay_steps :: "direction \<Rightarrow> relay_event \<Rightarrow> duplex \<Rightarrow> (relay \<times> nat list) option" where
  "relay_steps dir e s \<equiv> relay_step e (ry_phase (relay_of dir s)) (relay_of dir s)"

inductive splice_step :: "u64 \<Rightarrow> duplex \<Rightarrow> splice_event \<Rightarrow> duplex \<Rightarrow> bool" for i where
  Race: "dx_stage s = SgRacing \<Longrightarrow> relay_steps dir e s = Some fl \<Longrightarrow> \<forall>r. ry_phase (fst fl) \<noteq> RpSettled r \<Longrightarrow>
    splice_step i s (SvRelay dir e) (relayed_by i dir fl s)"
| First: "dx_stage s = SgRacing \<Longrightarrow> relay_steps dir e s = Some fl \<Longrightarrow> ry_phase (fst fl) = RpSettled r \<Longrightarrow>
    splice_step i s (SvRelay dir e) (first_settled i dir r (relayed_by i dir fl s))"
| Drain: "dx_stage s = SgDraining first q w t \<Longrightarrow> dir = other_way first \<Longrightarrow> relay_steps dir e s = Some fl \<Longrightarrow>
    \<forall>r. ry_phase (fst fl) \<noteq> RpSettled r \<Longrightarrow> splice_step i s (SvRelay dir e) (relayed_by i dir fl s)"
| Second: "dx_stage s = SgDraining first q w t \<Longrightarrow> dir = other_way first \<Longrightarrow> relay_steps dir e s = Some fl \<Longrightarrow>
    ry_phase (fst fl) = RpSettled r \<Longrightarrow>
    splice_step i s (SvRelay dir e) (splice_end i first q (from_res r) t (relayed_by i dir fl s))"
| GraceOver: "dx_stage s = SgDraining first q WaitGrace t \<Longrightarrow> close_grace \<le> t \<Longrightarrow>
    splice_step i s SvGraceOver (splice_end i first q OutDropped t s)"
| PassRacing: "dx_stage s = SgRacing \<Longrightarrow> relay_wait d (ry_phase (dx_up s)) = Some p \<Longrightarrow>
    relay_wait d (ry_phase (dx_down s)) = Some q \<Longrightarrow>
    splice_step i s (SvPass d) (s\<lparr>dx_up := (dx_up s)\<lparr>ry_phase := p\<rparr>, dx_down := (dx_down s)\<lparr>ry_phase := q\<rparr>\<rparr>)"
| PassDraining: "dx_stage s = SgDraining first q w t \<Longrightarrow> dir = other_way first \<Longrightarrow>
    (w = WaitGrace \<longrightarrow> t + d \<le> close_grace) \<Longrightarrow> relay_wait d (ry_phase (relay_of dir s)) = Some p \<Longrightarrow>
    splice_step i s (SvPass d)
      ((set_relay dir ((relay_of dir s)\<lparr>ry_phase := p\<rparr>) s)\<lparr>dx_stage := SgDraining first q w (t + d)\<rparr>)"

inductive_cases splice_stepE: "splice_step i s e s'"

definition splice_start :: "u64 \<Rightarrow> socket \<Rightarrow> socket \<Rightarrow> metrics \<Rightarrow> duplex" where
  "splice_start i client peer m =
     \<lparr>dx_up = relay_start client, dx_down = relay_start peer, dx_stage = SgRacing,
      dx_chunks = [], dx_metrics = set_open i m\<rparr>"

subsection \<open>A pump refines its functional description\<close>

definition result_of :: "pump_error + unit \<Rightarrow> pump_result" where
  "result_of r = (case r of Inr _ \<Rightarrow> PumpDone | Inl e \<Rightarrow> PumpFailed e)"

abbreviation fresh_sink :: "write_fate list \<Rightarrow> sink" where
  "fresh_sink fates \<equiv> \<lparr>si_fates = fates, si_got = [], si_shutdown = False\<rparr>"

text \<open>
  A pump of the source \<open>src\<close> that has relayed the chunks \<open>ns\<close>: for some fates of the writes so
  far, whatever the later ones, \<open>pump\<close> on the source is \<open>pump\<close> from where this one stands. In
  the middle of a write, of the chunk \<open>c\<close> that the last read gave.\<close>

definition mid_write :: "socket \<Rightarrow> nat list \<Rightarrow> socket \<Rightarrow> sink \<Rightarrow> bytes \<Rightarrow> nat \<Rightarrow> bool" where
  "mid_write src ns r w b n \<longleftrightarrow>
     (\<exists>fs q c g. read buffer_size q = (Done c, r) \<and> c \<noteq> [] \<and> n = length c \<and> length b \<le> n \<and>
        drop (n - length b) c = b \<and> si_got w = g @ take (n - length b) c \<and>
        (\<forall>gs. pump src (fresh_sink (fs @ gs)) [] = pump q \<lparr>si_fates = gs, si_got = g, si_shutdown = False\<rparr> ns))"

definition phase_ok :: "socket \<Rightarrow> nat list \<Rightarrow> socket \<Rightarrow> sink \<Rightarrow> relay_phase \<Rightarrow> bool" where
  "phase_ok src ns r w p \<longleftrightarrow>
     (case p of
        RpReading \<Rightarrow> \<not> si_shutdown w \<and>
          (\<exists>fs. \<forall>gs. pump src (fresh_sink (fs @ gs)) [] = pump r (w\<lparr>si_fates := gs\<rparr>) ns)
      | RpWriting b n t \<Rightarrow> b \<noteq> [] \<and> t \<le> write_stall_timeout \<and> \<not> si_shutdown w \<and> mid_write src ns r w b n
      | RpFinishing \<Rightarrow> \<not> si_shutdown w \<and>
          (\<exists>fs. pump src (fresh_sink fs) [] = (PumpDone, r, w\<lparr>si_shutdown := True\<rparr>, ns))
      | RpSettled q \<Rightarrow> (\<exists>fs. pump src (fresh_sink fs) [] = (result_of q, r, w, ns)))"

definition relay_ok :: "socket \<Rightarrow> nat list \<Rightarrow> relay \<Rightarrow> bool" where
  "relay_ok src ns f \<longleftrightarrow> ry_counter f = of_nat (sum_list ns) \<and> si_fates (ry_sink f) = [] \<and>
     sk_end (ry_source f) = sk_end src \<and> phase_ok src ns (ry_source f) (ry_sink f) (ry_phase f)"

lemma relay_start_ok: "relay_ok src [] (relay_start src)"
  by (simp add: relay_ok_def relay_start_def phase_ok_def) (rule exI [of _ "[]"], simp)

lemma sink_eta: "si_shutdown w = b \<Longrightarrow> w\<lparr>si_fates := fs\<rparr> = \<lparr>si_fates = fs, si_got = si_got w, si_shutdown = b\<rparr>"
  by simp

lemma read_ok:
  assumes ok: "relay_ok src ns f" and p: "ry_phase f = RpReading" and s: "relay_step RvRead RpReading f = Some (f', ls)"
  shows "relay_ok src (ns @ ls) f'"
proof -
  obtain fs where fs: "\<And>gs. pump src (fresh_sink (fs @ gs)) [] = pump (ry_source f) ((ry_sink f)\<lparr>si_fates := gs\<rparr>) ns"
    and down: "\<not> si_shutdown (ry_sink f)" and fates: "si_fates (ry_sink f) = []"
    using ok p by (auto simp: relay_ok_def phase_ok_def)
  have here: "pump src (fresh_sink fs) [] = pump (ry_source f) (ry_sink f) ns"
    using fs [of "[]"] fates by (cases "ry_sink f") simp
  obtain y r where y: "read buffer_size (ry_source f) = (y, r)" by fastforce
  have pos: "0 < buffer_size" by (simp add: buffer_size_def)
  have "end": "sk_end r = sk_end src"
    using y pos ok by (cases rule: read_cases) (auto simp: relay_ok_def)
  show ?thesis
  proof (cases y)
    case (Done c)
    show ?thesis
    proof (cases "c = []")
      case True
      then show ?thesis
        using s y Done ok here "end" down
        by (auto simp: relay_ok_def phase_ok_def pump.simps [of "ry_source f"])
    next
      case False
      have "phase_ok src ns r (ry_sink f) (RpWriting c (length c) 0)"
        using False down y Done fs sink_eta [of "ry_sink f" False] by (auto simp: phase_ok_def mid_write_def)
      then show ?thesis using s y Done False ok "end" by (auto simp: relay_ok_def)
    qed
  next
    case (Failed e)
    then show ?thesis
      using s y ok here "end"
      by (auto simp: relay_ok_def phase_ok_def relay_settle_def result_of_def pump.simps [of "ry_source f"])
  qed (use s y in simp)
qed

lemma write_ok:
  assumes ok: "relay_ok src ns f" and p: "ry_phase f = RpWriting b n t" and s: "relay_step e (RpWriting b n t) f = Some (f', ls)"
  shows "relay_ok src (ns @ ls) f'"
proof -
  let ?j = "n - length b"
  obtain fs q c g where q: "read buffer_size q = (Done c, ry_source f)" "c \<noteq> []" "n = length c" "length b \<le> n"
    and b: "drop ?j c = b" "si_got (ry_sink f) = g @ take ?j c"
    and fs: "\<And>gs. pump src (fresh_sink (fs @ gs)) [] = pump q \<lparr>si_fates = gs, si_got = g, si_shutdown = False\<rparr> ns"
    and w: "b \<noteq> []" "t \<le> write_stall_timeout" "\<not> si_shutdown (ry_sink f)" "si_fates (ry_sink f) = []"
    using ok p by (auto simp: relay_ok_def phase_ok_def mid_write_def)
  have failed: "relay_ok src ns (relay_settle ''write'' err f)"
    if "sink_write c \<lparr>si_fates = [fate], si_got = g, si_shutdown = False\<rparr> = (Inl err, \<lparr>si_fates = [], si_got = g @ take ?j c, si_shutdown = False\<rparr>)"
    for fate err
  proof -
    have "pump q \<lparr>si_fates = [fate], si_got = g, si_shutdown = False\<rparr> ns
        = (PumpFailed \<lparr>pe_op = ''write'', pe_err = err\<rparr>, ry_source f, \<lparr>si_fates = [], si_got = g @ take ?j c, si_shutdown = False\<rparr>, ns)"
      using that q by (simp add: pump.simps [of q])
    moreover have "\<lparr>si_fates = [], si_got = g @ take ?j c, si_shutdown = False\<rparr> = ry_sink f" using b w by simp
    ultimately show ?thesis
      using ok fs [of "[fate]"] by (auto simp: relay_ok_def phase_ok_def relay_settle_def result_of_def)
  qed
  show ?thesis
  proof (cases e)
    case (RvAccepted k)
    show ?thesis
    proof (cases "k < length b")
      case True
      have j: "n - length (drop k b) = ?j + k" using True q by simp
      have "drop (?j + k) c = drop k b" and "take (?j + k) c = take ?j c @ take k b"
        using b(1) by (simp add: add.commute flip: drop_drop) (simp add: take_add b(1))
      then have "phase_ok src ns (ry_source f) (ry_sink (sink_take (take k b) f)) (RpWriting (drop k b) n t)"
        using True w q b fs unfolding phase_ok_def mid_write_def sink_take_def
        by (simp add: j) (intro exI [of _ fs] exI [of _ q] exI [of _ c] exI [of _ g], simp)
      then show ?thesis using s RvAccepted True ok by (auto simp: relay_ok_def sink_take_def split: if_splits)
    next
      case False
      then have f': "f' = (sink_take b f)\<lparr>ry_counter := ry_counter f + of_nat n, ry_phase := RpReading\<rparr>" "ls = [n]"
        using s RvAccepted by (auto split: if_splits)
      have got: "si_got (ry_sink f) @ b = g @ c" using b by (metis append.assoc append_take_drop_id)
      have w': "(ry_sink (sink_take b f))\<lparr>si_fates := gs\<rparr> = \<lparr>si_fates = gs, si_got = g @ c, si_shutdown = False\<rparr>" for gs
        using w got by (cases "ry_sink f") (simp add: sink_take_def)
      have "pump src (fresh_sink ((fs @ [WriteOk]) @ gs)) []
          = pump (ry_source f) ((ry_sink (sink_take b f))\<lparr>si_fates := gs\<rparr>) (ns @ [n])" for gs
        using fs [of "WriteOk # gs"] q unfolding w' by (simp add: pump.simps [of q] sink_write_def)
      moreover have "\<not> si_shutdown (ry_sink (sink_take b f))" using w by (simp add: sink_take_def)
      ultimately have "phase_ok src (ns @ [n]) (ry_source f) (ry_sink (sink_take b f)) RpReading"
        unfolding phase_ok_def relay_phase.case by blast
      then show ?thesis using ok f' by (simp add: relay_ok_def sink_take_def)
    qed
  next
    case (RvRefused err)
    then show ?thesis using s failed [of "WriteErr ?j err" err] by (simp add: sink_write_def)
  next
    case RvTimeout
    then show ?thesis using s failed [of "WriteStall ?j" write_stalled] by (simp add: sink_write_def split: if_splits)
  qed (use s in simp_all)
qed

lemma relay_step_ok:
  assumes "relay_ok src ns f" and "relay_step e (ry_phase f) f = Some (f', ls)"
  shows "relay_ok src (ns @ ls) f'"
proof (cases "ry_phase f")
  case RpReading
  then show ?thesis using assms by (cases e) (auto intro: read_ok [OF assms(1) RpReading] simp del: relay_step.simps(1))
next
  case (RpWriting b n t)
  with assms show ?thesis by (auto intro: write_ok)
next
  case RpFinishing
  then show ?thesis using assms by (cases e) (auto simp: relay_ok_def phase_ok_def result_of_def)
qed (use assms in \<open>cases e; simp\<close>)

lemma relay_wait_settled: "relay_wait d p = Some q \<Longrightarrow> q = RpSettled r \<longleftrightarrow> p = RpSettled r"
  by (cases p) (auto split: if_splits)

lemma relay_wait_ok:
  "relay_ok src ns f \<Longrightarrow> relay_wait d (ry_phase f) = Some p \<Longrightarrow> relay_ok src ns (f\<lparr>ry_phase := p\<rparr>)"
  by (cases "ry_phase f") (auto simp: relay_ok_def phase_ok_def split: if_splits)

lemma pump_interrupted:
  "\<exists>x r' w'. pump r (w\<lparr>si_fates := [WriteErr 0 e]\<rparr>) ns = (x, r', w', ns) \<and> si_got w' = si_got w"
proof -
  obtain y t where y: "read buffer_size r = (y, t)" by fastforce
  show ?thesis by (cases y) (simp_all add: pump.simps [of r] y sink_write_def)
qed

text \<open>
  Wherever a pump is stopped, the sink has what \<open>pump\<close> gives it when the next write fails
  there, and the same chunks were counted.\<close>

lemma relay_is_pump:
  assumes "relay_ok src ns f"
  obtains fs x r w where "pump src (fresh_sink fs) [] = (x, r, w, ns)" and "si_got w = si_got (ry_sink f)"
    and "\<And>q. ry_phase f = RpSettled q \<Longrightarrow> x = result_of q \<and> w = ry_sink f"
proof (cases "ry_phase f")
  case RpReading
  then obtain fs where fs: "\<And>gs. pump src (fresh_sink (fs @ gs)) [] = pump (ry_source f) ((ry_sink f)\<lparr>si_fates := gs\<rparr>) ns"
    using assms by (auto simp: relay_ok_def phase_ok_def)
  obtain x r w where xw: "pump (ry_source f) ((ry_sink f)\<lparr>si_fates := [WriteErr 0 write_stalled]\<rparr>) ns = (x, r, w, ns)"
    "si_got w = si_got (ry_sink f)"
    using pump_interrupted by blast
  show ?thesis
    by (rule that [of "fs @ [WriteErr 0 write_stalled]" x r w]) (use fs xw RpReading in simp_all)
next
  case (RpWriting b n t)
  then obtain fs q c g where q: "read buffer_size q = (Done c, ry_source f)" "c \<noteq> []"
    and g: "si_got (ry_sink f) = g @ take (n - length b) c"
    and fs: "\<And>gs. pump src (fresh_sink (fs @ gs)) [] = pump q \<lparr>si_fates = gs, si_got = g, si_shutdown = False\<rparr> ns"
    using assms by (auto simp: relay_ok_def phase_ok_def mid_write_def)
  let ?w = "\<lparr>si_fates = [], si_got = si_got (ry_sink f), si_shutdown = False\<rparr>"
  have "pump src (fresh_sink (fs @ [WriteErr (n - length b) write_stalled])) []
      = (PumpFailed \<lparr>pe_op = ''write'', pe_err = write_stalled\<rparr>, ry_source f, ?w, ns)"
    unfolding fs using q g by (simp add: pump.simps [of q] sink_write_def)
  then show ?thesis by (rule that) (simp_all add: RpWriting)
next
  case RpFinishing
  with assms obtain fs where "pump src (fresh_sink fs) [] = (PumpDone, ry_source f, (ry_sink f)\<lparr>si_shutdown := True\<rparr>, ns)"
    by (auto simp: relay_ok_def phase_ok_def)
  then show ?thesis by (rule that) (simp_all add: RpFinishing)
next
  case (RpSettled q)
  with assms obtain fs where "pump src (fresh_sink fs) [] = (result_of q, ry_source f, ry_sink f, ns)"
    by (auto simp: relay_ok_def phase_ok_def)
  then show ?thesis using RpSettled by (intro that) auto
qed

text \<open>The count lags behind the bytes delivered by less than one buffer.\<close>

lemma pump_lag:
  "pump r w ns = (x, r', w', ns') \<Longrightarrow> length (si_got w') + sum_list ns \<le> length (si_got w) + sum_list ns' + buffer_size"
proof (induction r w ns arbitrary: x r' w' ns' rule: pump.induct)
  case (1 r w ns)
  have pos: "0 < buffer_size" by (simp add: buffer_size_def)
  obtain y t where y: "read buffer_size r = (y, t)" by fastforce
  from y pos show ?case
  proof (cases rule: read_cases)
    case (Data b)
    obtain z w1 where z: "sink_write b w = (z, w1)" by fastforce
    show ?thesis
    proof (cases z)
      case (Inl e)
      with sink_write_cases [OF z] obtain n where "si_got w1 = si_got w @ take n b" by auto
      then show ?thesis using "1.prems" y z Data(1-3) Inl by (auto simp: pump.simps [of r w ns])
    next
      case (Inr u)
      have "pump t w1 (ns @ [length b]) = (x, r', w', ns')"
        using "1.prems" y z Data(1,2) Inr by (simp add: pump.simps [of r w ns])
      from "1.IH" [OF y [symmetric] Data(1) Data(2) z [symmetric] Inr this] sink_write_cases [OF z] Inr
      show ?thesis by simp
    qed
  next
    case Quiet
    then show ?thesis using "1.prems" y by (cases "sk_end r") (auto simp: pump.simps [of r w ns])
  qed
qed

lemma relay_relays:
  assumes "relay_ok src ns f"
  shows "prefix (si_got (ry_sink f)) (rx_bytes src)" and "sum_list ns \<le> length (si_got (ry_sink f))"
    and "length (si_got (ry_sink f)) \<le> sum_list ns + buffer_size"
proof -
  from assms obtain fs x r w where p: "pump src (fresh_sink fs) [] = (x, r, w, ns)" "si_got w = si_got (ry_sink f)"
    by (rule relay_is_pump)
  from pump_relayed [OF p(1)] p(2)
  show "prefix (si_got (ry_sink f)) (rx_bytes src)" and "sum_list ns \<le> length (si_got (ry_sink f))" by auto
  from pump_lag [OF p(1)] p(2) show "length (si_got (ry_sink f)) \<le> sum_list ns + buffer_size" by simp
qed

text \<open>
  A pump that has returned without a write failing delivered and counted everything; at the
  clean end of its source it also half-closed the sink.\<close>

lemma relay_finished:
  assumes "relay_ok src ns f" and "ry_phase f = RpSettled q" and "\<forall>e. q = Inl e \<longrightarrow> pe_op e = ''read''"
  shows "si_got (ry_sink f) = rx_bytes src" and "sum_list ns = length (rx_bytes src)"
    and "q = Inr () \<Longrightarrow> si_shutdown (ry_sink f) \<and> sk_end src = EndEof"
proof -
  from assms obtain fs x r w where p: "pump src (fresh_sink fs) [] = (x, r, w, ns)" "x = result_of q" "w = ry_sink f"
    by (metis relay_is_pump)
  from pump_relayed [OF p(1)] p(2,3) assms(3)
  show "si_got (ry_sink f) = rx_bytes src" and "sum_list ns = length (rx_bytes src)"
    and "q = Inr () \<Longrightarrow> si_shutdown (ry_sink f) \<and> sk_end src = EndEof"
    by (auto simp: result_of_def split: sum.splits)
qed

subsection \<open>Bounded work\<close>

definition relay_weight :: "relay \<Rightarrow> nat" where
  "relay_weight f =
     (case ry_phase f of
        RpReading \<Rightarrow> 2 * length (rx_bytes (ry_source f)) + 2
      | RpWriting b n t \<Rightarrow> 2 * length (rx_bytes (ry_source f)) + 2 + length b
      | RpFinishing \<Rightarrow> 1
      | RpSettled r \<Rightarrow> 0)"

lemma relay_step_weight:
  assumes "relay_step e (ry_phase f) f = Some (f', ls)" and "\<forall>b n t. ry_phase f = RpWriting b n t \<longrightarrow> b \<noteq> []"
  shows "relay_weight f' < relay_weight f"
proof (cases "ry_phase f")
  case RpReading
  obtain y r where y: "read buffer_size (ry_source f) = (y, r)" by fastforce
  have pos: "0 < buffer_size" by (simp add: buffer_size_def)
  from y pos show ?thesis
    using assms RpReading
    by (cases rule: read_cases; cases e) (auto simp: relay_weight_def relay_settle_def Suc_le_eq split: rx_end.splits)
next
  case (RpWriting b n t)
  then show ?thesis using assms
    by (cases e) (auto simp: relay_weight_def relay_settle_def sink_take_def split: if_splits)
qed (use assms in \<open>cases e; auto simp: relay_weight_def\<close>)+

lemma relay_wait_weight: "relay_wait d (ry_phase f) = Some p \<Longrightarrow> relay_weight (f\<lparr>ry_phase := p\<rparr>) = relay_weight f"
  by (cases "ry_phase f") (auto simp: relay_weight_def split: if_splits)

text \<open>A pump whose source will end has a next step until it has returned.\<close>

lemma relay_goes_on:
  assumes "relay_ok src ns f" and "sk_end src \<noteq> EndStall" and "\<forall>r. ry_phase f \<noteq> RpSettled r"
  shows "\<exists>e fl. relay_step e (ry_phase f) f = Some fl"
proof (cases "ry_phase f")
  case RpReading
  obtain y r where y: "read buffer_size (ry_source f) = (y, r)" by fastforce
  have pos: "0 < buffer_size" by (simp add: buffer_size_def)
  have "relay_step RvRead RpReading f \<noteq> None"
    using y pos assms(1,2) by (cases rule: read_cases) (auto simp: y relay_ok_def split: rx_end.splits)
  then show ?thesis using RpReading by (metis not_None_eq)
next
  case (RpWriting b n t)
  then have "b \<noteq> []" using assms(1) by (simp add: relay_ok_def phase_ok_def)
  then have "relay_step (RvAccepted (length b)) (RpWriting b n t) f \<noteq> None" by simp
  then show ?thesis using RpWriting by (metis not_None_eq)
next
  case RpFinishing
  then show ?thesis by (metis relay_step.simps(5))
qed (use assms in simp)

subsection \<open>Every execution is a splice\<close>

definition sent_by :: "direction \<Rightarrow> (direction \<times> nat) list \<Rightarrow> nat list" where
  "sent_by dir chunks = map snd (filter (\<lambda>c. fst c = dir) chunks)"

definition source_of :: "socket \<Rightarrow> socket \<Rightarrow> direction \<Rightarrow> socket" where
  "source_of client peer dir = (case dir of ClientToUpstream \<Rightarrow> client | UpstreamToClient \<Rightarrow> peer)"

abbreviation settled_as :: "direction \<Rightarrow> duplex \<Rightarrow> pump_error + unit \<Rightarrow> bool" where
  "settled_as dir s r \<equiv> ry_phase (relay_of dir s) = RpSettled r"

definition running :: "direction \<Rightarrow> duplex \<Rightarrow> bool" where
  "running dir s \<longleftrightarrow> (\<forall>r. \<not> settled_as dir s r)"

text \<open>How the second pump ended: it settled, or it was dropped.\<close>

definition ended_as :: "pump_outcome \<Rightarrow> direction \<Rightarrow> duplex \<Rightarrow> bool" where
  "ended_as out dir s \<longleftrightarrow> (out = OutDropped \<and> running dir s) \<or> (\<exists>r. out = from_res r \<and> settled_as dir s r)"

definition counted :: "u64 \<Rightarrow> (direction \<times> nat) list \<Rightarrow> metrics \<Rightarrow> metrics" where
  "counted i chunks m = fst (run tracker_step m (TSetOpen i # map (count_op i) chunks))"

text \<open>The outcomes of a direction, in the order of the report.\<close>

fun outcome_of :: "direction \<Rightarrow> pump_outcome \<times> pump_outcome \<Rightarrow> pump_outcome" where
  "outcome_of ClientToUpstream outs = fst outs"
| "outcome_of UpstreamToClient outs = snd outs"

definition stage_ok :: "u64 \<Rightarrow> metrics \<Rightarrow> duplex \<Rightarrow> splice_stage \<Rightarrow> bool" where
  "stage_ok i m s sg \<longleftrightarrow>
     (case sg of
        SgRacing \<Rightarrow> running ClientToUpstream s \<and> running UpstreamToClient s \<and> dx_metrics s = counted i (dx_chunks s) m
      | SgDraining first r w t \<Rightarrow> settled_as first s r \<and> running (other_way first) s \<and> w = wait_for r first \<and>
          w \<noteq> WaitNone \<and> (w = WaitGrace \<longrightarrow> t \<le> close_grace) \<and> dx_metrics s = counted i (dx_chunks s) m
      | SgClosed c2u u2c t \<Rightarrow> ended_as c2u ClientToUpstream s \<and> ended_as u2c UpstreamToClient s \<and>
          (\<exists>first r other. settled_as first s r \<and> splice_outcomes first r other = Some ((c2u, u2c), t)) \<and>
          dx_metrics s = fst (run tracker_step m (splice_ops i (dx_chunks s) (splice_report_of c2u u2c))))"

definition relays_ok :: "socket \<Rightarrow> socket \<Rightarrow> duplex \<Rightarrow> bool" where
  "relays_ok client peer s \<longleftrightarrow>
     (\<forall>dir. relay_ok (source_of client peer dir) (sent_by dir (dx_chunks s)) (relay_of dir s))"

definition duplex_ok :: "u64 \<Rightarrow> socket \<Rightarrow> socket \<Rightarrow> metrics \<Rightarrow> duplex \<Rightarrow> bool" where
  "duplex_ok i client peer m s \<longleftrightarrow> relays_ok client peer s \<and> stage_ok i m s (dx_stage s)"

lemma relay_of_set_relay [simp]: "relay_of dir (set_relay dir' f s) = (if dir = dir' then f else relay_of dir s)"
  by (cases dir; cases dir') simp_all

lemma set_relay_rest [simp]:
  "dx_stage (set_relay dir f s) = dx_stage s" "dx_chunks (set_relay dir f s) = dx_chunks s"
  "dx_metrics (set_relay dir f s) = dx_metrics s"
  by (cases dir; simp)+

lemma other_way_neq [simp]: "other_way dir \<noteq> dir" "dir \<noteq> other_way dir"
  by (cases dir; simp)+

lemma relay_of_update [simp]:
  "relay_of dir (s\<lparr>dx_stage := sg\<rparr>) = relay_of dir s" "relay_of dir (s\<lparr>dx_chunks := cs\<rparr>) = relay_of dir s"
  "relay_of dir (s\<lparr>dx_metrics := m\<rparr>) = relay_of dir s"
  by (cases dir; simp)+

lemma sent_by_append: "sent_by dir (cs @ ds) = sent_by dir cs @ sent_by dir ds"
  by (simp add: sent_by_def)

lemma sent_by_map: "sent_by dir (map (Pair dir') ns) = (if dir = dir' then ns else [])"
  by (induction ns) (auto simp: sent_by_def)

lemma relayed_by_fields [simp]:
  "relay_of d (relayed_by i dir fl s) = (if d = dir then fst fl else relay_of d s)"
  "dx_stage (relayed_by i dir fl s) = dx_stage s"
  "dx_chunks (relayed_by i dir fl s) = dx_chunks s @ map (Pair dir) (snd fl)"
  by (simp_all add: relayed_by_def)

lemma splice_close_fields [simp]:
  "relay_of d (splice_close i c2u u2c t s) = relay_of d s"
  "dx_stage (splice_close i c2u u2c t s) = SgClosed c2u u2c t"
  "dx_chunks (splice_close i c2u u2c t s) = dx_chunks s"
  by (cases d) (simp_all add: splice_close_def)

lemma splice_end_fields [simp]:
  "relay_of d (splice_end i first r out t s) = relay_of d s"
  "dx_chunks (splice_end i first r out t s) = dx_chunks s"
  by (simp_all add: splice_end_def split: direction.split)

lemma first_settled_fields [simp]:
  "relay_of d (first_settled i dir r s) = relay_of d s" "dx_chunks (first_settled i dir r s) = dx_chunks s"
  by (simp_all add: first_settled_def split: wait.split)

lemma splice_ops_counts:
  "splice_ops i chunks report =
     (TSetOpen i # map (count_op i) chunks) @ (case sr_fail report of Some reason \<Rightarrow> [TFail i reason] | None \<Rightarrow> [])"
proof -
  have "(\<lambda>(dir, n). case dir of ClientToUpstream \<Rightarrow> TAddUp i (of_nat n) | UpstreamToClient \<Rightarrow> TAddDown i (of_nat n)) = count_op i"
    by (rule ext) (auto split: direction.split)
  then show ?thesis by (simp add: splice_ops_def)
qed

lemma counted_append:
  "counted i (cs @ ds) m = fst (run tracker_step (counted i cs m) (map (count_op i) ds))"
  by (simp add: counted_def run_append split: prod.split)

lemma counted_relayed:
  "dx_metrics s = counted i (dx_chunks s) m \<Longrightarrow>
     dx_metrics (relayed_by i dir fl s) = counted i (dx_chunks (relayed_by i dir fl s)) m"
  unfolding relayed_by_fields counted_append by (simp add: relayed_by_def)

text \<open>A close leaves the tracker as \<open>splice_ops\<close> says.\<close>

lemma counted_close:
  assumes "dx_metrics s = counted i (dx_chunks s) m"
  shows "dx_metrics (splice_close i c2u u2c t s) = fst (run tracker_step m (splice_ops i (dx_chunks s) (splice_report_of c2u u2c)))"
  unfolding splice_ops_counts run_append
  using assms by (auto simp: splice_close_def counted_def split: option.split prod.split)

text \<open>The end of the drain, at a time that the policy allows.\<close>

lemma splice_end_ok:
  assumes "settled_as first s r" and "ended_as out (other_way first) s"
    and "drain_other (wait_for r first) other = Some (out, t)"
    and "dx_metrics s = counted i (dx_chunks s) m"
  shows "stage_ok i m (splice_end i first r out t s) (dx_stage (splice_end i first r out t s))"
proof -
  have r: "ended_as (from_res r) first s" using assms(1) by (auto simp: ended_as_def)
  have "ended_as q d (splice_close i c2u u2c t s) = ended_as q d s"
    and "settled_as d (splice_close i c2u u2c t s) q' = settled_as d s q'" for q d q' c2u u2c
    by (simp_all add: ended_as_def running_def)
  moreover have "splice_outcomes first r other =
      Some (case first of ClientToUpstream \<Rightarrow> (from_res r, out) | UpstreamToClient \<Rightarrow> (out, from_res r), t)"
    using assms(3) by (cases first) (simp_all add: splice_outcomes_def)
  then have "\<exists>d q x. settled_as d s q \<and> splice_outcomes d q x =
      Some (case first of ClientToUpstream \<Rightarrow> (from_res r, out) | UpstreamToClient \<Rightarrow> (out, from_res r), t)"
    using assms(1) by blast
  ultimately show ?thesis
    using assms(2) r counted_close [OF assms(4)]
    by (cases first) (simp_all add: splice_end_def stage_ok_def)
qed

lemma first_settled_ok:
  assumes "settled_as dir s r" and "running (other_way dir) s" and "dx_metrics s = counted i (dx_chunks s) m"
  shows "stage_ok i m (first_settled i dir r s) (dx_stage (first_settled i dir r s))"
proof (cases "wait_for r dir")
  case WaitNone
  then have "drain_other (wait_for r dir) None = Some (OutDropped, 0)" by (simp add: drain_other_def)
  with splice_end_ok [OF assms(1) _ this assms(3)] assms(2) WaitNone
  show ?thesis by (simp add: first_settled_def ended_as_def)
qed (use assms in \<open>simp_all add: first_settled_def stage_ok_def running_def\<close>)

lemma relays_ok_step:
  assumes "relays_ok client peer s" and "relay_steps dir e s = Some fl"
  shows "relays_ok client peer (relayed_by i dir fl s)"
proof -
  obtain f' ls where fl: "fl = (f', ls)" by fastforce
  have "relay_ok (source_of client peer dir) (sent_by dir (dx_chunks s) @ ls) f'"
    using assms fl by (intro relay_step_ok) (auto simp: relays_ok_def)
  then show ?thesis using assms(1) by (auto simp: relays_ok_def fl sent_by_append sent_by_map)
qed

lemma splice_step_ok:
  assumes "duplex_ok i client peer m s" and "splice_step i s e s'"
  shows "duplex_ok i client peer m s'"
proof -
  have ok: "relays_ok client peer s" and sg: "stage_ok i m s (dx_stage s)" using assms(1) by (simp_all add: duplex_ok_def)
  from assms(2) show ?thesis
  proof (cases rule: splice_step.cases)
    case (Race dir e fl)
    then show ?thesis
      using relays_ok_step [OF ok Race(4)] sg counted_relayed [of s i m dir fl]
      by (cases dir) (auto simp: duplex_ok_def stage_ok_def running_def)
  next
    case (First dir e fl r)
    let ?s = "relayed_by i dir fl s"
    have "settled_as dir ?s r" and "running (other_way dir) ?s" and "dx_metrics ?s = counted i (dx_chunks ?s) m"
      using First sg counted_relayed [of s i m dir fl] by (cases dir; simp add: stage_ok_def running_def)+
    from first_settled_ok [OF this] relays_ok_step [OF ok First(4)]
    show ?thesis by (simp add: First duplex_ok_def relays_ok_def)
  next
    case (Drain first q w t dir e fl)
    then show ?thesis
      using relays_ok_step [OF ok Drain(5)] sg counted_relayed [of s i m dir fl]
      by (auto simp: duplex_ok_def stage_ok_def running_def)
  next
    case (Second first q w t dir e fl r)
    let ?s = "relayed_by i dir fl s"
    have was: "settled_as first s q" "w = wait_for q first" "w \<noteq> WaitNone" "w = WaitGrace \<longrightarrow> t \<le> close_grace"
      "dx_metrics s = counted i (dx_chunks s) m"
      using sg unfolding Second(3) by (auto simp: stage_ok_def)
    have "drain_other (wait_for q first) (Some (t, r)) = Some (from_res r, t)"
      using was by (cases w) (simp_all add: drain_other_def)
    moreover have "settled_as first ?s q" and "ended_as (from_res r) (other_way first) ?s"
      using was Second by (auto simp: ended_as_def)
    ultimately show ?thesis
      using splice_end_ok [of first ?s q] relays_ok_step [OF ok Second(5)] counted_relayed was(5)
      by (simp add: Second duplex_ok_def relays_ok_def)
  next
    case (GraceOver first q t)
    have was: "settled_as first s q" "WaitGrace = wait_for q first" "t \<le> close_grace" "running (other_way first) s"
      "dx_metrics s = counted i (dx_chunks s) m"
      using sg GraceOver by (simp_all add: stage_ok_def)
    have "drain_other (wait_for q first) None = Some (OutDropped, t)"
      using was(2,3) GraceOver by (simp add: drain_other_def flip: was(2))
    from splice_end_ok [OF was(1) _ this was(5)] was(4) ok
    show ?thesis by (simp add: GraceOver duplex_ok_def relays_ok_def ended_as_def)
  next
    case (PassRacing d p q)
    have same: "dx_stage s' = dx_stage s" "dx_chunks s' = dx_chunks s" "dx_metrics s' = dx_metrics s"
      by (simp_all add: PassRacing(2))
    have "relay_ok (source_of client peer dir) (sent_by dir (dx_chunks s)) (relay_of dir s')" for dir
    proof -
      have "relay_ok (source_of client peer dir) (sent_by dir (dx_chunks s)) (relay_of dir s)"
        using ok by (simp add: relays_ok_def)
      then show ?thesis using PassRacing(2,4,5) by (cases dir) (simp_all add: relay_wait_ok)
    qed
    moreover have "running dir s'" for dir
      using sg PassRacing relay_wait_settled by (cases dir) (auto simp: stage_ok_def running_def)
    ultimately show ?thesis using sg PassRacing(3) same by (simp add: duplex_ok_def relays_ok_def stage_ok_def)
  next
    case (PassDraining first q w t dir d p)
    have was: "settled_as first s q" "running (other_way first) s" "w = wait_for q first" "w \<noteq> WaitNone"
      "dx_metrics s = counted i (dx_chunks s) m"
      using sg unfolding PassDraining(3) by (auto simp: stage_ok_def)
    have "relays_ok client peer s'"
      using ok relay_wait_ok PassDraining(2,6) by (auto simp: relays_ok_def)
    moreover have "running (other_way first) s'" and "settled_as first s' q"
      using was(1,2) PassDraining(2,4,6) relay_wait_settled by (auto simp: running_def)
    ultimately show ?thesis using was PassDraining(2,5) by (simp add: duplex_ok_def stage_ok_def)
  qed
qed

lemma splice_start_ok: "duplex_ok i client peer m (splice_start i client peer m)"
proof -
  have "relay_of dir (splice_start i client peer m) = relay_start (source_of client peer dir)" for dir
    by (cases dir) (simp_all add: splice_start_def source_of_def)
  then have "relays_ok client peer (splice_start i client peer m)"
    by (simp add: relays_ok_def relay_start_ok splice_start_def sent_by_def)
  then show ?thesis
    by (simp add: duplex_ok_def stage_ok_def running_def splice_start_def relay_start_def counted_def)
qed

subsection \<open>The work of an execution\<close>

fun is_relay :: "splice_event \<Rightarrow> bool" where
  "is_relay (SvRelay dir e) \<longleftrightarrow> True"
| "is_relay _ \<longleftrightarrow> False"

fun is_closed :: "splice_stage \<Rightarrow> bool" where
  "is_closed (SgClosed c2u u2c t) \<longleftrightarrow> True"
| "is_closed _ \<longleftrightarrow> False"

definition duplex_weight :: "duplex \<Rightarrow> nat" where
  "duplex_weight s = relay_weight (dx_up s) + relay_weight (dx_down s)"

lemma duplex_weight_rest [simp]:
  "duplex_weight (s\<lparr>dx_stage := sg\<rparr>) = duplex_weight s" "duplex_weight (s\<lparr>dx_metrics := m\<rparr>) = duplex_weight s"
  "duplex_weight (s\<lparr>dx_chunks := cs\<rparr>) = duplex_weight s"
  "duplex_weight (splice_end i first r out t s) = duplex_weight s"
  "duplex_weight (first_settled i dir r s) = duplex_weight s"
  by (simp_all add: duplex_weight_def splice_end_def splice_close_def first_settled_def
    split: direction.split wait.split)

lemma duplex_weight_relay:
  assumes "relay_weight f < relay_weight (relay_of dir s)"
  shows "duplex_weight (set_relay dir f s) < duplex_weight s"
  using assms by (cases dir) (simp_all add: duplex_weight_def)

lemma relayed_weight:
  assumes "duplex_ok i client peer m s" and "relay_steps dir e s = Some fl"
  shows "duplex_weight (relayed_by i dir fl s) < duplex_weight s"
proof -
  have "relay_ok (source_of client peer dir) (sent_by dir (dx_chunks s)) (relay_of dir s)"
    using assms(1) by (simp add: duplex_ok_def relays_ok_def)
  then have "relay_weight (fst fl) < relay_weight (relay_of dir s)"
    using assms(2) by (cases fl) (auto intro!: relay_step_weight simp: relay_ok_def phase_ok_def)
  then show ?thesis by (simp add: relayed_by_def duplex_weight_relay)
qed

lemma splice_step_weight:
  assumes "duplex_ok i client peer m s" and "splice_step i s e s'"
  shows "duplex_weight s' + (if is_relay e then 1 else 0) \<le> duplex_weight s"
  using assms(2)
proof (cases rule: splice_step.cases)
  case (PassRacing d p q)
  then show ?thesis by (simp add: duplex_weight_def relay_wait_weight)
next
  case (PassDraining first q w t dir d p)
  then show ?thesis by (cases dir) (simp_all add: duplex_weight_def relay_wait_weight)
qed (use relayed_weight [OF assms(1)] in \<open>simp_all add: Suc_le_eq\<close>)

lemma race_enabled:
  assumes "dx_stage s = SgRacing" and "relay_steps dir e s = Some fl"
  shows "\<exists>s'. splice_step i s (SvRelay dir e) s'"
  using Race [OF assms] First [OF assms] by (cases "\<exists>r. ry_phase (fst fl) = RpSettled r") blast+

lemma drain_enabled:
  assumes "dx_stage s = SgDraining first q w t" and "relay_steps (other_way first) e s = Some fl"
  shows "\<exists>s'. splice_step i s (SvRelay (other_way first) e) s'"
  using Drain [OF assms(1) refl assms(2)] Second [OF assms(1) refl assms(2)]
  by (cases "\<exists>r. ry_phase (fst fl) = RpSettled r") blast+

lemma splice_goes_on:
  assumes "duplex_ok i client peer m s" and "sk_end client \<noteq> EndStall" and "sk_end peer \<noteq> EndStall"
    and "\<not> is_closed (dx_stage s)"
  shows "\<exists>e s'. splice_step i s e s' \<and> is_relay e"
proof -
  have "\<exists>e fl. relay_steps dir e s = Some fl" if "running dir s" for dir
    using relay_goes_on [of "source_of client peer dir" "sent_by dir (dx_chunks s)" "relay_of dir s"] assms(1-3) that
    by (auto simp: duplex_ok_def relays_ok_def running_def source_of_def split: direction.split)
  note steps = this
  show ?thesis
  proof (cases "dx_stage s")
    case SgRacing
    then have "running ClientToUpstream s" using assms(1) by (simp add: duplex_ok_def stage_ok_def)
    with steps obtain e fl where "relay_steps ClientToUpstream e s = Some fl" by blast
    then show ?thesis using race_enabled [OF SgRacing] is_relay.simps(1) by blast
  next
    case (SgDraining first q w t)
    then have "running (other_way first) s" using assms(1) by (simp add: duplex_ok_def stage_ok_def)
    with steps obtain e fl where "relay_steps (other_way first) e s = Some fl" by blast
    then show ?thesis using drain_enabled [OF SgDraining] is_relay.simps(1) by blast
  qed (use assms(4) in simp)
qed

interpretation splicing: wearing "splice_step i" "duplex_ok i client peer m" duplex_weight is_relay
  for i client peer m
  by unfold_locales (fact splice_step_ok, fact splice_step_weight)

text \<open>With sources that end, at an EOF or a reset, the tunnel can always go on to its close.\<close>

definition ends_ok :: "u64 \<Rightarrow> socket \<Rightarrow> socket \<Rightarrow> metrics \<Rightarrow> duplex \<Rightarrow> bool" where
  "ends_ok i client peer m s \<longleftrightarrow>
     duplex_ok i client peer m s \<and> sk_end client \<noteq> EndStall \<and> sk_end peer \<noteq> EndStall"

interpretation closing: ending "splice_step i" "ends_ok i client peer m" duplex_weight is_relay "\<lambda>s. is_closed (dx_stage s)"
  for i client peer m
proof unfold_locales
  show "ends_ok i client peer m t" if "ends_ok i client peer m s" and "splice_step i s e t" for s e t
    using that splice_step_ok by (auto simp: ends_ok_def)
  show "duplex_weight t + (if is_relay e then 1 else 0) \<le> duplex_weight s"
    if "ends_ok i client peer m s" and "splice_step i s e t" for s e t
    using that splice_step_weight ends_ok_def by blast
  show "\<exists>e t. splice_step i s e t \<and> is_relay e" if "ends_ok i client peer m s" and "\<not> is_closed (dx_stage s)" for s
    using that splice_goes_on ends_ok_def by blast
qed

subsection \<open>Executing the steps\<close>

text \<open>Each event has at most one successor, which \<open>splice_next\<close> computes.\<close>

definition splice_next :: "u64 \<Rightarrow> splice_event \<Rightarrow> duplex \<Rightarrow> duplex option" where
  "splice_next i ev s =
     (case ev of
        SvRelay dir e \<Rightarrow>
          (case relay_steps dir e s of
             None \<Rightarrow> None
           | Some fl \<Rightarrow>
               (case dx_stage s of
                  SgRacing \<Rightarrow>
                    Some (case ry_phase (fst fl) of
                            RpSettled r \<Rightarrow> first_settled i dir r (relayed_by i dir fl s)
                          | _ \<Rightarrow> relayed_by i dir fl s)
                | SgDraining first q w t \<Rightarrow>
                    if dir = first then None
                    else Some (case ry_phase (fst fl) of
                                 RpSettled r \<Rightarrow> splice_end i first q (from_res r) t (relayed_by i dir fl s)
                               | _ \<Rightarrow> relayed_by i dir fl s)
                | SgClosed _ _ _ \<Rightarrow> None))
      | SvGraceOver \<Rightarrow>
          (case dx_stage s of
             SgDraining first q w t \<Rightarrow>
               if w = WaitGrace \<and> close_grace \<le> t then Some (splice_end i first q OutDropped t s) else None
           | _ \<Rightarrow> None)
      | SvPass d \<Rightarrow>
          (case dx_stage s of
             SgRacing \<Rightarrow>
               (case (relay_wait d (ry_phase (dx_up s)), relay_wait d (ry_phase (dx_down s))) of
                  (Some p, Some q) \<Rightarrow>
                    Some (s\<lparr>dx_up := (dx_up s)\<lparr>ry_phase := p\<rparr>, dx_down := (dx_down s)\<lparr>ry_phase := q\<rparr>\<rparr>)
                | _ \<Rightarrow> None)
           | SgDraining first q w t \<Rightarrow>
               (case relay_wait d (ry_phase (relay_of (other_way first) s)) of
                  Some p \<Rightarrow>
                    if w = WaitGrace \<and> close_grace < t + d then None
                    else Some ((set_relay (other_way first) ((relay_of (other_way first) s)\<lparr>ry_phase := p\<rparr>) s)
                                 \<lparr>dx_stage := SgDraining first q w (t + d)\<rparr>)
                | None \<Rightarrow> None)
           | SgClosed _ _ _ \<Rightarrow> None))"

lemma other_way_iff: "dir \<noteq> first \<longleftrightarrow> dir = other_way first"
  by (cases dir; cases first) simp_all

lemma splice_next_relay:
  assumes "splice_next i (SvRelay dir e) s = Some s'"
  shows "splice_step i s (SvRelay dir e) s'"
proof -
  from assms obtain fl where fl: "relay_steps dir e s = Some fl" by (auto simp: splice_next_def split: option.splits)
  show ?thesis
  proof (cases "dx_stage s")
    case SgRacing
    with assms fl show ?thesis
      by (cases "ry_phase (fst fl)") (auto simp: splice_next_def intro: Race First)
  next
    case (SgDraining first q w t)
    with assms fl have dir: "dir = other_way first"
      by (auto simp: splice_next_def simp flip: other_way_iff split: if_splits)
    with assms fl SgDraining show ?thesis
      using Drain [OF SgDraining dir fl] Second [OF SgDraining dir fl]
      by (cases "ry_phase (fst fl)") (auto simp: splice_next_def)
  qed (use assms fl in \<open>simp add: splice_next_def\<close>)
qed

lemma splice_next_pass:
  assumes "splice_next i (SvPass d) s = Some s'"
  shows "splice_step i s (SvPass d) s'"
proof (cases "dx_stage s")
  case SgRacing
  with assms PassRacing [OF SgRacing] show ?thesis by (auto simp: splice_next_def split: option.splits)
next
  case (SgDraining first q w t)
  with assms PassDraining [OF SgDraining refl] show ?thesis
    by (auto simp: splice_next_def split: option.splits if_splits)
qed (use assms in \<open>simp add: splice_next_def\<close>)

lemma splice_next_step:
  assumes "splice_next i e s = Some s'"
  shows "splice_step i s e s'"
proof (cases e)
  case (SvRelay dir e)
  then show ?thesis using assms splice_next_relay by simp
next
  case (SvPass d)
  then show ?thesis using assms splice_next_pass by simp
next
  case SvGraceOver
  then show ?thesis using assms
    by (auto simp: splice_next_def intro: GraceOver split: splice_stage.splits if_splits)
qed

fun splice_run :: "u64 \<Rightarrow> splice_event list \<Rightarrow> duplex \<Rightarrow> duplex option" where
  "splice_run i [] s = Some s"
| "splice_run i (e # es) s = (case splice_next i e s of None \<Rightarrow> None | Some t \<Rightarrow> splice_run i es t)"

lemma splice_run_trace: "splice_run i es s = Some s' \<Longrightarrow> trace (splice_step i) s es s'"
proof (induction es arbitrary: s)
  case (Cons e es)
  then obtain t where t: "splice_next i e s = Some t" and rest: "splice_run i es t = Some s'"
    by (auto split: option.splits)
  have "trace (splice_step i) s [e] t" by (rule trace_one) (rule splice_next_step [OF t])
  with trace_append [OF Cons.IH [OF rest]] show ?case by fastforce
qed (simp add: trace.Here)

subsection \<open>What an execution amounts to\<close>

text \<open>Two tunnels to apply the properties to: the client says hi and ends; the upstream answers and resets.\<close>

definition demo_client :: socket where
  "demo_client = \<lparr>sk_segs = [''hi''], sk_end = EndEof, sk_writes = [], sk_sent = []\<rparr>"

definition demo_peer :: socket where
  "demo_peer = \<lparr>sk_segs = [''ok''], sk_end = EndErr (IoError KConnectionReset ''reset''), sk_writes = [], sk_sent = []\<rparr>"

definition demo_events :: "splice_event list" where
  "demo_events =
     [SvRelay ClientToUpstream RvRead, SvRelay ClientToUpstream (RvAccepted 1), SvRelay UpstreamToClient RvRead,
      SvPass 20, SvRelay ClientToUpstream (RvAccepted 1), SvRelay UpstreamToClient (RvAccepted 2),
      SvRelay ClientToUpstream RvRead, SvRelay ClientToUpstream RvShutdown, SvPass 30, SvRelay UpstreamToClient RvRead]"

definition demo_outcomes :: "pump_outcome \<times> pump_outcome" where
  "demo_outcomes = (OutEof, OutFailed \<lparr>pe_op = ''read'', pe_err = IoError KConnectionReset ''reset''\<rparr>)"

lemma demo_reads:
  "read buffer_size \<lparr>sk_segs = [[c, d]], sk_end = x, sk_writes = ws, sk_sent = ts\<rparr> =
     (Done [c, d], \<lparr>sk_segs = [], sk_end = x, sk_writes = ws, sk_sent = ts\<rparr>)"
  "read buffer_size \<lparr>sk_segs = [], sk_end = EndEof, sk_writes = ws, sk_sent = ts\<rparr> =
     (Done [], \<lparr>sk_segs = [], sk_end = EndEof, sk_writes = ws, sk_sent = ts\<rparr>)"
  "read buffer_size \<lparr>sk_segs = [], sk_end = EndErr e, sk_writes = ws, sk_sent = ts\<rparr> =
     (Failed e, \<lparr>sk_segs = [], sk_end = EndErr e, sk_writes = ws, sk_sent = ts\<rparr>)"
  by (simp_all add: read_def buffer_size_def)

lemma demo_splice_run:
  "\<exists>s. splice_run i demo_events (splice_start i demo_client demo_peer m) = Some s \<and>
     dx_stage s = SgClosed (fst demo_outcomes) (snd demo_outcomes) 30 \<and>
     dx_chunks s = [(ClientToUpstream, 2), (UpstreamToClient, 2)]"
  by (simp add: demo_events_def splice_start_def relay_start_def demo_client_def demo_peer_def splice_next_def
      demo_reads relayed_by_def sink_take_def relay_settle_def first_settled_def wait_for_def splice_end_def
      splice_close_def from_res_def demo_outcomes_def write_stall_timeout_def)

lemma demo_trace:
  obtains s where "trace (splice_step i) (splice_start i demo_client demo_peer m) demo_events s"
    and "dx_stage s = SgClosed (fst demo_outcomes) (snd demo_outcomes) 30"
    and "dx_chunks s = [(ClientToUpstream, 2), (UpstreamToClient, 2)]"
  using demo_splice_run splice_run_trace by blast

lemma relay_shut:
  assumes "relay_ok src ns f"
  shows "si_shutdown (ry_sink f) \<longleftrightarrow> ry_phase f = RpSettled (Inr ())"
proof (cases "ry_phase f")
  case (RpSettled q)
  with assms obtain fs x r w where p: "pump src (fresh_sink fs) [] = (x, r, w, ns)" "x = result_of q" "w = ry_sink f"
    by (metis relay_is_pump)
  from pump_relayed [OF p(1)] p(2,3) RpSettled show ?thesis by (cases q) (auto simp: result_of_def)
qed (use assms in \<open>simp_all add: relay_ok_def phase_ok_def\<close>)

lemma relay_outcome:
  assumes ok: "relay_ok src ns f" and out: "out = OutDropped \<or> (\<exists>r. out = from_res r \<and> ry_phase f = RpSettled r)"
  shows "\<exists>fates x r w. pump src (fresh_sink fates) [] = (x, r, w, ns) \<and> si_got w = si_got (ry_sink f) \<and>
    (case out of OutEof \<Rightarrow> x = PumpDone | OutFailed e \<Rightarrow> x = PumpFailed e | OutDropped \<Rightarrow> True)"
proof -
  from ok obtain fs x r w where "pump src (fresh_sink fs) [] = (x, r, w, ns)" "si_got w = si_got (ry_sink f)"
    and "\<And>q. ry_phase f = RpSettled q \<Longrightarrow> x = result_of q \<and> w = ry_sink f" using relay_is_pump by metis
  moreover have "case out of OutEof \<Rightarrow> x = PumpDone | OutFailed e \<Rightarrow> x = PumpFailed e | OutDropped \<Rightarrow> True"
    using out
  proof (elim disjE exE conjE)
    fix q
    assume "out = from_res q" and "ry_phase f = RpSettled q"
    with calculation(3) show ?thesis by (cases q) (auto simp: from_res_def result_of_def)
  qed simp
  ultimately show ?thesis by blast
qed

text \<open>C14
  The interleaved tunnel implements its description. However the awaits of the two pumps
  resolve, in whatever order, whenever one fails, stalls or is dropped in the middle of a
  chunk: a tunnel that has closed leaves the tracker and returns exactly as \<open>splice\<close> says for
  the order and the time in which the directions settled, and each direction delivered and
  counted what \<open>pump\<close> does for some fates of the writes, with the outcome as its result.\<close>

theorem tunnel_runs_are_splices:
  assumes "trace (splice_step i) (splice_start i client peer m) es s" and "dx_stage s = SgClosed c2u u2c t"
  shows "(\<exists>first r other. splice_outcomes first r other = Some ((c2u, u2c), t) \<and>
      splice i (dx_chunks s) first r other m = Some (dx_metrics s, sr_result (splice_report_of c2u u2c))) \<and>
    (\<forall>dir. \<exists>fates x r w.
      pump (source_of client peer dir) (fresh_sink fates) [] = (x, r, w, sent_by dir (dx_chunks s)) \<and>
      si_got w = si_got (ry_sink (relay_of dir s)) \<and>
      (case outcome_of dir (c2u, u2c) of
         OutEof \<Rightarrow> x = PumpDone | OutFailed e \<Rightarrow> x = PumpFailed e | OutDropped \<Rightarrow> True))"
proof (intro conjI allI)
  have ok: "duplex_ok i client peer m s" using splicing.trace_kept [OF assms(1) splice_start_ok] .
  then have st: "stage_ok i m s (SgClosed c2u u2c t)" using assms(2) by (simp add: duplex_ok_def)
  then obtain first r other where "splice_outcomes first r other = Some ((c2u, u2c), t)"
    by (auto simp: stage_ok_def)
  then show "\<exists>first r other. splice_outcomes first r other = Some ((c2u, u2c), t) \<and>
      splice i (dx_chunks s) first r other m = Some (dx_metrics s, sr_result (splice_report_of c2u u2c))"
    using st by (intro exI [of _ first] exI [of _ r] exI [of _ other]) (simp add: stage_ok_def splice_def Let_def)
  show "\<exists>fates x r w.
      pump (source_of client peer dir) (fresh_sink fates) [] = (x, r, w, sent_by dir (dx_chunks s)) \<and>
      si_got w = si_got (ry_sink (relay_of dir s)) \<and>
      (case outcome_of dir (c2u, u2c) of
         OutEof \<Rightarrow> x = PumpDone | OutFailed e \<Rightarrow> x = PumpFailed e | OutDropped \<Rightarrow> True)" for dir
  proof (rule relay_outcome)
    show "relay_ok (source_of client peer dir) (sent_by dir (dx_chunks s)) (relay_of dir s)"
      using ok by (simp add: duplex_ok_def relays_ok_def)
    show "outcome_of dir (c2u, u2c) = OutDropped \<or>
        (\<exists>r. outcome_of dir (c2u, u2c) = from_res r \<and> settled_as dir s r)"
      using st by (cases dir) (auto simp: stage_ok_def ended_as_def)
  qed
qed

theorem tunnel_runs_are_splices_witness:
  "\<exists>first r other m'. splice 7 [(ClientToUpstream, 2), (UpstreamToClient, 2)] first r other metrics_default =
     Some (m', sr_result (splice_report_of (fst demo_outcomes) (snd demo_outcomes)))"
proof -
  obtain s where s: "trace (splice_step 7) (splice_start 7 demo_client demo_peer metrics_default) demo_events s"
    "dx_stage s = SgClosed (fst demo_outcomes) (snd demo_outcomes) 30"
    "dx_chunks s = [(ClientToUpstream, 2), (UpstreamToClient, 2)]" by (rule demo_trace)
  from tunnel_runs_are_splices [OF s(1,2)] s(3) show ?thesis by auto
qed

text \<open>C16
  A tunnel does bounded work and its close stays in reach. An execution has at most two steps
  of the pumps for each byte that the sources send, and four more; and as long as the tunnel
  has not closed, it can be run on to a close without any time passing, provided that
  both sources end, at an EOF or a reset. A source that stays open is waited for, for ever.\<close>

theorem tunnel_winds_up:
  assumes "trace (splice_step i) (splice_start i client peer m) es s"
  shows "length (filter is_relay es) \<le> 2 * (length (rx_bytes client) + length (rx_bytes peer)) + 4 \<and>
    (sk_end client \<noteq> EndStall \<and> sk_end peer \<noteq> EndStall \<longrightarrow>
      (\<exists>more s'. trace (splice_step i) s more s' \<and> list_all is_relay more \<and> is_closed (dx_stage s')))"
proof (intro conjI impI)
  let ?s = "splice_start i client peer m"
  have "duplex_weight ?s = 2 * (length (rx_bytes client) + length (rx_bytes peer)) + 4"
    by (simp add: duplex_weight_def splice_start_def relay_start_def relay_weight_def)
  with splicing.trace_work [OF assms splice_start_ok]
  show "length (filter is_relay es) \<le> 2 * (length (rx_bytes client) + length (rx_bytes peer)) + 4" by simp
  assume "sk_end client \<noteq> EndStall \<and> sk_end peer \<noteq> EndStall"
  then have "ends_ok i client peer m s"
    using splicing.trace_kept [OF assms splice_start_ok] by (simp add: ends_ok_def)
  from closing.trace_ends [OF this]
  show "\<exists>more s'. trace (splice_step i) s more s' \<and> list_all is_relay more \<and> is_closed (dx_stage s')" by blast
qed

theorem tunnel_winds_up_witness:
  "length (filter is_relay demo_events) \<le> 12 \<and>
   (\<exists>more s'. trace (splice_step 7) (splice_start 7 demo_client demo_peer metrics_default) more s' \<and> is_closed (dx_stage s'))"
proof -
  obtain s where s: "trace (splice_step 7) (splice_start 7 demo_client demo_peer metrics_default) demo_events s"
    by (rule demo_trace)
  from tunnel_winds_up [OF s] have "length (filter is_relay demo_events) \<le> 12"
    by (simp add: demo_client_def demo_peer_def rx_bytes_def)
  moreover from tunnel_winds_up [OF trace.Here]
  have "\<exists>more s'. trace (splice_step 7) (splice_start 7 demo_client demo_peer metrics_default) more s' \<and>
      list_all is_relay more \<and> is_closed (dx_stage s')"
    by (simp add: demo_client_def demo_peer_def)
  ultimately show ?thesis by blast
qed

lemma duplex_metrics:
  assumes "duplex_ok i client peer m s"
  obtains report where "dx_metrics s = fst (run tracker_step m (splice_ops i (dx_chunks s) report))"
proof -
  have "counted i chunks m = fst (run tracker_step m (splice_ops i chunks \<lparr>sr_result = Inr (), sr_fail = None, sr_teardown_reset = False\<rparr>))"
    for chunks by (simp add: counted_def splice_ops_counts)
  then show ?thesis
    using assms that by (cases "dx_stage s") (auto simp: duplex_ok_def stage_ok_def)
qed

text \<open>
  A chunk that the sink takes only slowly fails like one that it does not take at all: the
  timeout covers the whole \<^verbatim>\<open>write_all\<close> of the chunk and is not reset when bytes are taken.
  After \<open>trickle n\<close> the sink has taken a byte in each of \<open>n\<close> seconds.\<close>

fun trickle :: "nat \<Rightarrow> relay \<Rightarrow> relay option" where
  "trickle 0 f = Some f"
| "trickle (Suc n) f =
     (case relay_wait 1000 (ry_phase f) of
        None \<Rightarrow> None
      | Some p \<Rightarrow>
          (case relay_step (RvAccepted 1) p (f\<lparr>ry_phase := p\<rparr>) of
             None \<Rightarrow> None
           | Some (f', _) \<Rightarrow> trickle n f'))"

lemma trickle_advances:
  assumes "ry_phase f = RpWriting b k t" and "n < length b" and "t + 1000 * n \<le> write_stall_timeout"
  shows "\<exists>f'. trickle n f = Some f' \<and> ry_phase f' = RpWriting (drop n b) k (t + 1000 * n) \<and>
    si_got (ry_sink f') = si_got (ry_sink f) @ take n b"
  using assms
proof (induction n arbitrary: f b t)
  case (Suc n)
  let ?f = "(sink_take (take 1 b) (f\<lparr>ry_phase := RpWriting b k (t + 1000)\<rparr>))\<lparr>ry_phase := RpWriting (drop 1 b) k (t + 1000)\<rparr>"
  have "\<exists>f'. trickle n ?f = Some f' \<and> ry_phase f' = RpWriting (drop n (drop 1 b)) k (t + 1000 + 1000 * n) \<and>
      si_got (ry_sink f') = si_got (ry_sink ?f) @ take n (drop 1 b)"
    using Suc.prems by (intro Suc.IH) auto
  moreover have "trickle (Suc n) f = trickle n ?f" using Suc.prems by (cases b) auto
  moreover have "take 1 b @ take n (drop 1 b) = take (Suc n) b" using Suc.prems by (cases b) simp_all
  ultimately show ?case by (auto simp: sink_take_def)
qed (simp add: assms)

lemma slow_sink_fails_as_stalled:
  assumes "ry_phase f = RpWriting b k 0" and "60 < length b"
  shows "\<exists>f' f''. trickle 60 f = Some f' \<and> si_got (ry_sink f') = si_got (ry_sink f) @ take 60 b \<and>
    relay_step RvTimeout (ry_phase f') f' = Some (f'', []) \<and>
    ry_phase f'' = RpSettled (Inl \<lparr>pe_op = ''write'', pe_err = write_stalled\<rparr>)"
  using trickle_advances [OF assms(1), of 60] assms(2)
  by (auto simp: write_stall_timeout_def relay_settle_def)

end
