(* ===== verification/System.thy ===== *)
theory System
  imports Window Http_Forward Splice
begin

text \<open>
  Components joined. The window and the application act on one control
  (\<^verbatim>\<open>apps/zicade/src/tray.rs\<close> hands the control of \<^verbatim>\<open>App::start\<close> to
  \<^verbatim>\<open>zicade_ui::run\<close>), so their steps interleave on one state: an event of the window may end
  with the apply hook, and the network monitor and the accept loop run beside it. And a
  \<^verbatim>\<open>CONNECT\<close> through an upstream passes from the handler through the handshake to the pumps.
  The lemmas carry the components' invariants over to the joined state.
\<close>

subsection \<open>The application behind its window\<close>

record system =
  sy_window :: "pages main_view"
  sy_app :: app

text \<open>\<open>detected\<close> are the suffixes that the gate would see at the time.\<close>

datatype system_event = SyWindow win_event "string list" | SyMonitor "string list" | SyAccept

definition system_start :: "sources \<Rightarrow> log_event list \<Rightarrow> app \<Rightarrow> system" where
  "system_start src backlog a = \<lparr>sy_window = window_new src backlog (ap_control a), sy_app = a\<rparr>"

fun system_step ::
    "b64_encode \<Rightarrow> io_error + unit \<Rightarrow> (config \<Rightarrow> string + string) \<Rightarrow> validation_ctx
     \<Rightarrow> system \<Rightarrow> system_event \<Rightarrow> system \<times> (control_error + unit) option" where
  "system_step enc spawned to_json ctx s (SyWindow e detected) =
     (case window_step to_json ctx (Some (apply_hook enc spawned detected)) (sy_window s, ap_control (sy_app s)) e of
        ((v, c), r) \<Rightarrow> (\<lparr>sy_window = v, sy_app = share_routing ((sy_app s)\<lparr>ap_control := c\<rparr>)\<rparr>, r))"
| "system_step enc spawned to_json ctx s (SyMonitor detected) =
     (s\<lparr>sy_app := fst (app_step enc spawned to_json ctx (sy_app s) (AoMonitor detected))\<rparr>, None)"
| "system_step enc spawned to_json ctx s SyAccept =
     (s\<lparr>sy_app := fst (app_step enc spawned to_json ctx (sy_app s) AoAccept)\<rparr>, None)"

text \<open>The suffixes that the gate last saw.\<close>

fun system_seen :: "string list \<Rightarrow> system_event \<times> (control_error + unit) option \<Rightarrow> string list" where
  "system_seen d (SyWindow _ d', Some (Inr _)) = d'"
| "system_seen d (SyMonitor d', _) = d'"
| "system_seen d _ = d"

subsection \<open>What the window shows is what runs\<close>

text \<open>The form's reference copy is the configuration in force, and the address is the bound one.\<close>

definition in_step :: "string \<Rightarrow> pages main_view \<Rightarrow> 'w control \<Rightarrow> bool" where
  "in_step bound_addr v c \<longleftrightarrow>
     (\<exists>p. mv_pages v = Inr p \<and> cv_saved (pg_settings p) = from_config (config_redacted c)) \<and>
     ss_listen_addr (ct_status c) = bound_addr"

lemma view_step_cases:
  assumes "view_step to_json ctx hook (v, c) op = ((v', c'), r)"
  obtains (quiet) "r = None" "c' = c" "cv_saved v' = cv_saved v \<or> cv_saved v' = from_config (config_redacted c)"
    | (applied) cfg outcome x where "r = Some x" "cv_saving v = Some cfg"
        "control_apply to_json ctx hook outcome cfg c = (c', x)" "v' = view_applied x c' v"
  using assms
  by (cases op) (auto simp: view_reload_def view_save_def Let_def split: option.splits prod.splits sum.splits if_splits)

lemma view_step_saved:
  assumes step: "view_step to_json ctx hook (v, c) op = ((v', c'), r)"
    and saved: "cv_saved v = from_config (config_redacted c)"
  shows "cv_saved v' = from_config (config_redacted c') \<and> ss_listen_addr (ct_status c') = ss_listen_addr (ct_status c)"
  using step
proof (cases rule: view_step_cases)
  case quiet
  with saved show ?thesis by auto
next
  case (applied cfg outcome x)
  from applied(3) show ?thesis
  proof (cases rule: control_apply_cases)
    case applied
    then show ?thesis using \<open>v' = view_applied x c' v\<close> by (simp add: view_applied_def view_reload_def Let_def)
  next
    case (invalid e)
    then show ?thesis using saved \<open>v' = view_applied x c' v\<close> by (simp add: view_applied_def Let_def)
  next
    case (unsaved e)
    from unsaved_same [OF unsaved(2)] obtain disk where "c' = c\<lparr>ct_disk := disk\<rparr>" by blast
    then show ?thesis using saved unsaved(1) \<open>v' = view_applied x c' v\<close>
      by (simp add: view_applied_def Let_def config_redacted_def)
  qed
qed

text \<open>A step of the window is none for the control, or the apply of a configuration.\<close>

lemma window_step_control:
  assumes p: "mv_pages v = Inr p" and step: "window_step to_json ctx hook (v, c) e = ((v', c'), r)"
  obtains (quiet) "r = None" "c' = c"
    | (applied) cfg outcome x where "r = Some x" "control_apply to_json ctx hook outcome cfg c = (c', x)"
proof (cases "form_op (v, c) e")
  case None
  then show ?thesis using window_step_form [OF p step] quiet by auto
next
  case (Some op)
  with window_step_form [OF p step] obtain w where "view_step to_json ctx hook (pg_settings p, c) op = ((w, c'), r)"
    by auto
  then show ?thesis by (cases rule: view_step_cases) (use quiet applied in blast)+
qed

lemma window_step_in_step:
  assumes "in_step b v c" and step: "window_step to_json ctx hook (v, c) e = ((v', c'), r)"
  shows "in_step b v' c'"
proof -
  obtain p where p: "mv_pages v = Inr p" "cv_saved (pg_settings p) = from_config (config_redacted c)"
    and b: "ss_listen_addr (ct_status c) = b" using assms(1) by (auto simp: in_step_def)
  from window_step_form [OF p(1) step] obtain q where q: "mv_pages v' = Inr q"
    "case form_op (v, c) e of
       Some op \<Rightarrow> view_step to_json ctx hook (pg_settings p, c) op = ((pg_settings q, c'), r)
     | None \<Rightarrow> pg_settings q = pg_settings p \<and> c' = c \<and> r = None" by blast
  show ?thesis
  proof (cases "form_op (v, c) e")
    case None
    then show ?thesis using q p(2) b by (simp add: in_step_def)
  next
    case (Some op)
    with q(2) have "view_step to_json ctx hook (pg_settings p, c) op = ((pg_settings q, c'), r)" by simp
    from view_step_saved [OF this p(2)] show ?thesis using q(1) b by (simp add: in_step_def)
  qed
qed

definition system_ok :: "b64_encode \<Rightarrow> io_error + unit \<Rightarrow> validation_ctx \<Rightarrow> string list \<Rightarrow> string \<Rightarrow> system \<Rightarrow> bool" where
  "system_ok enc spawned ctx d b s \<longleftrightarrow>
     agree enc spawned ctx d (sy_app s) \<and> in_step b (sy_window s) (ap_control (sy_app s))"

lemma share_routing_agree: "agree enc spawned ctx d a \<Longrightarrow> share_routing a = a"
  by (cases a; cases "ap_server a") (simp add: agree_def Let_def share_routing_def routing_current_def routing_set_def)

lemma ap_control_share [simp]: "ap_control (share_routing a) = ap_control a"
  by (simp add: share_routing_def)

lemma app_step_in_step:
  assumes "app_step enc spawned to_json ctx a op = (a', x)" and "\<And>cfg d w. op \<noteq> AoApply cfg d w"
    and "in_step b v (ap_control a)"
  shows "in_step b v (ap_control a')"
  using assms by (cases op) (auto simp: in_step_def config_redacted_def Let_def split: prod.splits)

lemma system_step_ok:
  assumes ok: "system_ok enc spawned ctx d b s" and step: "system_step enc spawned to_json ctx s e = (s', r)"
  shows "system_ok enc spawned ctx (system_seen d (e, r)) b s'"
proof (cases e)
  case (SyWindow w d')
  let ?hook = "apply_hook enc spawned d'" and ?a = "sy_app s"
  have ag: "agree enc spawned ctx d ?a" and ins: "in_step b (sy_window s) (ap_control ?a)"
    using ok by (simp_all add: system_ok_def)
  obtain p where p: "mv_pages (sy_window s) = Inr p" using ins by (auto simp: in_step_def)
  obtain v c where w: "window_step to_json ctx (Some ?hook) (sy_window s, ap_control ?a) w = ((v, c), r)"
    and s': "s' = \<lparr>sy_window = v, sy_app = share_routing (?a\<lparr>ap_control := c\<rparr>)\<rparr>"
    using step SyWindow by (auto split: prod.splits)
  have "in_step b v c" by (rule window_step_in_step [OF ins w])
  moreover have "agree enc spawned ctx (system_seen d (e, r)) (share_routing (?a\<lparr>ap_control := c\<rparr>))"
    using p w
  proof (cases rule: window_step_control)
    case quiet
    then show ?thesis using ag SyWindow by (simp add: share_routing_agree)
  next
    case (applied cfg outcome x)
    then have "app_step enc spawned to_json ctx ?a (AoApply cfg d' outcome)
        = (share_routing (?a\<lparr>ap_control := c\<rparr>), AaApplied x)" by simp
    from app_step_agree [OF ag this] show ?thesis using SyWindow applied(1) by (cases x) simp_all
  qed
  ultimately show ?thesis by (simp add: system_ok_def s')
next
  case (SyMonitor d')
  obtain a x where a: "app_step enc spawned to_json ctx (sy_app s) (AoMonitor d') = (a, x)" by fastforce
  then show ?thesis
    using ok step SyMonitor app_step_agree [OF _ a] app_step_in_step [OF a] by (auto simp: system_ok_def)
next
  case SyAccept
  obtain a x where a: "app_step enc spawned to_json ctx (sy_app s) AoAccept = (a, x)" by fastforce
  then show ?thesis
    using ok step SyAccept app_step_agree [OF _ a] app_step_in_step [OF a] by (auto simp: system_ok_def)
qed

lemma system_run_ok:
  "system_ok enc spawned ctx d b s \<Longrightarrow> run (system_step enc spawned to_json ctx) s es = (s', rs) \<Longrightarrow>
     system_ok enc spawned ctx (foldl system_seen d (zip es rs)) b s'"
proof (induction es arbitrary: s d rs)
  case (Cons e es)
  from Cons.prems(2) obtain t x ys where
    "system_step enc spawned to_json ctx s e = (t, x)" "run (system_step enc spawned to_json ctx) t es = (s', ys)"
    "rs = x # ys" by (rule run_ConsE)
  with Cons system_step_ok show ?case by fastforce
qed simp

lemma system_start_ok:
  assumes "app_start enc spawned ctx ip_ok (Inr b) path disk d cfg (fst (init_tracing (cfg_logging cfg))) = Inr a"
  shows "system_ok enc spawned ctx d b (system_start src backlog a)"
proof -
  have "ss_listen_addr (ct_status (ap_control a)) = b"
    using assms by (auto simp: app_start_def and_then_Inr_iff control_set_status_def Let_def)
  then show ?thesis
    using app_start_agree [OF assms]
    by (simp add: system_ok_def in_step_def system_start_def window_new_def main_view_new_def pages_new_def
        view_open_def Let_def)
qed

lemma window_says_address:
  "mv_pages v = Inr p \<Longrightarrow> says (window_render fr (Some b) v) ''sidebar-listen'' b"
  by (simp add: says_def window_render_def sidebar_render_def sidebar_status_def Let_def)

subsection \<open>A tunnel from end to end\<close>

text \<open>The socket a \<^verbatim>\<open>CONNECT\<close> starts on: the one taken from the pool, or else the one dialed.\<close>

definition first_socket ::
    "'k upstream_pool option \<Rightarrow> millis \<Rightarrow> ('k \<Rightarrow> try_read) \<Rightarrow> ('k \<Rightarrow> socket) \<Rightarrow> socket outcome \<Rightarrow> socket option" where
  "first_socket pool now probe peer dial =
     (case (case pool of None \<Rightarrow> None | Some p \<Rightarrow> snd (pool_take True now probe p)) of
        Some h \<Rightarrow> Some (peer h)
      | None \<Rightarrow> (case dial of Done s \<Rightarrow> Some s | _ \<Rightarrow> None))"

lemma connect_on_first_socket:
  assumes "first_socket pool now probe peer dial = Some s"
  obtains reused where
    "\<And>s'. connect_handshake enc dec mk astep s reused (ut_auth target) dst = (LegOk (), s') \<Longrightarrow>
       fst (connect_via_upstream enc dec mk astep target dst pool now probe peer dial) = Inr s'"
proof (cases "case pool of None \<Rightarrow> None | Some p \<Rightarrow> snd (pool_take True now probe p)")
  case None
  then have d: "dial = Done s" using assms by (simp add: first_socket_def split: outcome.splits)
  show ?thesis
    by (rule that [of False])
      (use None d in \<open>auto simp: connect_via_upstream_def try_connect_def into_io_def split: option.splits prod.splits\<close>)
next
  case (Some h)
  then have s: "s = peer h" using assms by (simp add: first_socket_def)
  show ?thesis
    by (rule that [of True])
      (use Some s in \<open>auto simp: connect_via_upstream_def try_connect_def into_io_def split: option.splits prod.splits\<close>)
qed

text \<open>What the tracker hears of a splice: its download count grows by the relayed chunks.\<close>

fun tunnel_op :: "u64 \<Rightarrow> tracker_op \<Rightarrow> bool" where
  "tunnel_op i (TSetOpen j) = True"
| "tunnel_op i (TAddUp j n) = (j = i)"
| "tunnel_op i (TAddDown j n) = (j = i)"
| "tunnel_op i (TFail j r) = True"
| "tunnel_op i _ = False"

fun down_bytes :: "tracker_op \<Rightarrow> u64" where
  "down_bytes (TAddDown j n) = n"
| "down_bytes _ = 0"

fun up_bytes :: "tracker_op \<Rightarrow> u64" where
  "up_bytes (TAddUp j n) = n"
| "up_bytes _ = 0"

lemma tunnel_op_step:
  assumes "i \<in> fst ` set (mt_open m)" and "tunnel_op i op" and "tracker_step m op = (m', a)"
  shows "i \<in> fst ` set (mt_open m') \<and> mt_bytes_in m' = mt_bytes_in m + down_bytes op \<and>
    mt_bytes_out m' = mt_bytes_out m + up_bytes op"
proof -
  have "map fst (mt_open m') = map fst (mt_open m)" using assms(2) keys_frame [OF assms(3)] by (cases op) auto
  then have "i \<in> fst ` set (mt_open m')" using assms(1) by (metis list.set_map)
  then show ?thesis
    using assms
    by (cases op)
      (auto simp: add_up_def add_down_def add_bytes_eq set_open_def tracked_fail_def incr_failed_def
        split: option.splits if_splits)
qed

lemma run_tunnel_ops:
  "i \<in> fst ` set (mt_open m) \<Longrightarrow> list_all (tunnel_op i) ops \<Longrightarrow>
     mt_bytes_in (fst (run tracker_step m ops)) = mt_bytes_in m + sum_list (map down_bytes ops) \<and>
     mt_bytes_out (fst (run tracker_step m ops)) = mt_bytes_out m + sum_list (map up_bytes ops)"
proof (induction ops arbitrary: m)
  case (Cons op ops)
  obtain t a where t: "tracker_step m op = (t, a)" by fastforce
  have "i \<in> fst ` set (mt_open t) \<and> mt_bytes_in t = mt_bytes_in m + down_bytes op \<and>
      mt_bytes_out t = mt_bytes_out m + up_bytes op"
    using tunnel_op_step [OF Cons.prems(1) _ t] Cons.prems(2) by simp
  with Cons.IH [of t] Cons.prems(2) show ?case unfolding run_fst_Cons by (simp add: t add.assoc)
qed simp

lemma tracked_start_holds: "tracked_start kind dst route client wall now m = (m', i) \<Longrightarrow>
    i \<in> fst ` set (mt_open m') \<and> mt_bytes_in m' = mt_bytes_in m"
proof -
  have "k \<in> fst ` set (bt_insert k v xs)" for k :: u64 and v :: entry and xs
    using map_of_SomeD [of "bt_insert k v xs" k v] by force
  then show "tracked_start kind dst route client wall now m = (m', i) \<Longrightarrow>
      i \<in> fst ` set (mt_open m') \<and> mt_bytes_in m' = mt_bytes_in m"
    by (auto simp: tracked_start_def incr_request_def Let_def)
qed

lemma splice_bytes:
  assumes "i \<in> fst ` set (mt_open m)"
  shows "mt_bytes_in (fst (run tracker_step m (splice_ops i chunks report)))
      = mt_bytes_in m + of_nat (sum_list (sent_by UpstreamToClient chunks))"
    and "mt_bytes_out (fst (run tracker_step m (splice_ops i chunks report)))
      = mt_bytes_out m + of_nat (sum_list (sent_by ClientToUpstream chunks))"
proof -
  have "list_all (tunnel_op i) (splice_ops i chunks report)"
    by (auto simp: splice_ops_def list_all_iff split: direction.split option.split)
  note sums = run_tunnel_ops [OF assms this]
  have "sum_list (map down_bytes (splice_ops i chunks report)) = of_nat (sum_list (sent_by UpstreamToClient chunks))"
    and "sum_list (map up_bytes (splice_ops i chunks report)) = of_nat (sum_list (sent_by ClientToUpstream chunks))"
    by (induction chunks) (auto simp: splice_ops_def sent_by_def split: direction.split option.split)
  with sums show "mt_bytes_in (fst (run tracker_step m (splice_ops i chunks report)))
      = mt_bytes_in m + of_nat (sum_list (sent_by UpstreamToClient chunks))"
    and "mt_bytes_out (fst (run tracker_step m (splice_ops i chunks report)))
      = mt_bytes_out m + of_nat (sum_list (sent_by ClientToUpstream chunks))" by simp_all
qed

text \<open>What is known of a tunnel at any moment of an execution.\<close>

lemma tunnel_reached:
  assumes "trace (splice_step i) (splice_start i client peer m) es s"
  shows "relay_ok (source_of client peer dir) (sent_by dir (dx_chunks s)) (relay_of dir s)"
    and "i \<in> fst ` set (mt_open m) \<Longrightarrow> mt_bytes_out (dx_metrics s) = mt_bytes_out m + ry_counter (dx_up s)"
    and "i \<in> fst ` set (mt_open m) \<Longrightarrow> mt_bytes_in (dx_metrics s) = mt_bytes_in m + ry_counter (dx_down s)"
proof -
  have ok: "duplex_ok i client peer m s" using splicing.trace_kept [OF assms splice_start_ok] .
  then have relays: "relay_ok (source_of client peer dir) (sent_by dir (dx_chunks s)) (relay_of dir s)" for dir
    by (simp add: duplex_ok_def relays_ok_def)
  then show "relay_ok (source_of client peer dir) (sent_by dir (dx_chunks s)) (relay_of dir s)" .
  obtain report where "dx_metrics s = fst (run tracker_step m (splice_ops i (dx_chunks s) report))"
    using ok by (rule duplex_metrics)
  with splice_bytes [of i m] relays [of ClientToUpstream] relays [of UpstreamToClient]
  show "i \<in> fst ` set (mt_open m) \<Longrightarrow> mt_bytes_out (dx_metrics s) = mt_bytes_out m + ry_counter (dx_up s)"
    and "i \<in> fst ` set (mt_open m) \<Longrightarrow> mt_bytes_in (dx_metrics s) = mt_bytes_in m + ry_counter (dx_down s)"
    by (simp_all add: relay_ok_def)
qed

lemma tunnel_download:
  assumes "trace (splice_step i) (splice_start i client peer m) es s"
  shows "prefix (si_got (ry_sink (dx_down s))) (rx_bytes peer)"
    and "ry_phase (dx_down s) = RpSettled q \<Longrightarrow> \<forall>e. q = Inl e \<longrightarrow> pe_op e = ''read'' \<Longrightarrow>
      si_got (ry_sink (dx_down s)) = rx_bytes peer \<and> ry_counter (dx_down s) = of_nat (length (rx_bytes peer))"
proof -
  have ok: "relay_ok peer (sent_by UpstreamToClient (dx_chunks s)) (dx_down s)"
    using tunnel_reached(1) [OF assms, of UpstreamToClient] by (simp add: source_of_def)
  then show "prefix (si_got (ry_sink (dx_down s))) (rx_bytes peer)" by (rule relay_relays)
  assume "ry_phase (dx_down s) = RpSettled q" and "\<forall>e. q = Inl e \<longrightarrow> pe_op e = ''read''"
  from relay_finished(1,2) [OF ok this] ok
  show "si_got (ry_sink (dx_down s)) = rx_bytes peer \<and> ry_counter (dx_down s) = of_nat (length (rx_bytes peer))"
    by (simp add: relay_ok_def)
qed

text \<open>C15
  The live numbers of a tunnel are the bytes that moved. At every moment of every execution,
  also in the middle of a write and after a failure, each sink has a prefix of what its source
  sent; the counter of the direction is the tracker's growth since the tunnel began; and it
  lags behind what the sink has by at most the one buffer that is being written. A sink is
  half-closed only after its source ended cleanly and everything was delivered.\<close>

theorem tunnel_counts_live:
  assumes "trace (splice_step i) (splice_start i client peer m) es s" and "i \<in> fst ` set (mt_open m)"
  shows "mt_bytes_out (dx_metrics s) = mt_bytes_out m + ry_counter (dx_up s) \<and>
    mt_bytes_in (dx_metrics s) = mt_bytes_in m + ry_counter (dx_down s) \<and>
    (\<forall>dir. prefix (si_got (ry_sink (relay_of dir s))) (rx_bytes (source_of client peer dir)) \<and>
       (\<exists>n. ry_counter (relay_of dir s) = of_nat n \<and> n \<le> length (si_got (ry_sink (relay_of dir s))) \<and>
          length (si_got (ry_sink (relay_of dir s))) \<le> n + 262144) \<and>
       (si_shutdown (ry_sink (relay_of dir s)) \<longrightarrow>
          si_got (ry_sink (relay_of dir s)) = rx_bytes (source_of client peer dir) \<and>
          sk_end (source_of client peer dir) = EndEof))"
proof (intro conjI allI impI)
  note relays = tunnel_reached(1) [OF assms(1)]
  show "mt_bytes_out (dx_metrics s) = mt_bytes_out m + ry_counter (dx_up s)"
    and "mt_bytes_in (dx_metrics s) = mt_bytes_in m + ry_counter (dx_down s)"
    using tunnel_reached(2,3) [OF assms] by simp_all
  fix dir
  note rel = relay_relays [OF relays [of dir]]
  show "prefix (si_got (ry_sink (relay_of dir s))) (rx_bytes (source_of client peer dir))" by (rule rel(1))
  show "\<exists>n. ry_counter (relay_of dir s) = of_nat n \<and> n \<le> length (si_got (ry_sink (relay_of dir s))) \<and>
      length (si_got (ry_sink (relay_of dir s))) \<le> n + 262144"
    using rel(2,3) relays [of dir] by (intro exI [of _ "sum_list (sent_by dir (dx_chunks s))"]) (simp add: relay_ok_def buffer_size_def)
  assume "si_shutdown (ry_sink (relay_of dir s))"
  then have "ry_phase (relay_of dir s) = RpSettled (Inr ())" using relay_shut [OF relays] by simp
  from relay_finished [OF relays this]
  show "si_got (ry_sink (relay_of dir s)) = rx_bytes (source_of client peer dir)"
    and "sk_end (source_of client peer dir) = EndEof" by simp_all
qed

text \<open>A tunnel on a connection that the tracker has open.\<close>

definition demo_metrics :: "u64 \<times> metrics" where
  "demo_metrics = prod.swap (tracked_start KindTunnel ''h:443'' ''direct'' None 0 0 metrics_default)"

theorem tunnel_counts_live_witness:
  "\<exists>s. trace (splice_step (fst demo_metrics)) (splice_start (fst demo_metrics) demo_client demo_peer (snd demo_metrics)) demo_events s \<and>
     mt_bytes_in (dx_metrics s) = mt_bytes_in (snd demo_metrics) + ry_counter (dx_down s) \<and>
     prefix (si_got (ry_sink (dx_up s))) ''hi''"
proof -
  let ?i = "fst demo_metrics" and ?m = "snd demo_metrics"
  obtain s where s: "trace (splice_step ?i) (splice_start ?i demo_client demo_peer ?m) demo_events s" by (rule demo_trace)
  have i: "?i \<in> fst ` set (mt_open ?m)"
    using tracked_start_holds [of KindTunnel "''h:443''" "''direct''" None 0 0 metrics_default ?m ?i]
    by (simp add: demo_metrics_def)
  note live = tunnel_counts_live [OF s i]
  then have "mt_bytes_in (dx_metrics s) = mt_bytes_in ?m + ry_counter (dx_down s)" by blast
  moreover from live have "prefix (si_got (ry_sink (relay_of ClientToUpstream s))) (rx_bytes (source_of demo_client demo_peer ClientToUpstream))"
    by blast
  ultimately show ?thesis using s by (auto simp: source_of_def demo_client_def rx_bytes_def)
qed

text \<open>A granted handshake of the first socket is the answer of the handler.\<close>

lemma connect_served:
  assumes "rq_method parts = ''CONNECT''" and "authority_target (rq_uri parts) = Some dst"
    and "nw_dial nw target dst = Inr peer"
    and "tracked_start KindTunnel dst (ut_addr target) (ce_remote client) wall now m = (m', i)"
  shows "proxy_service nw parts (RoutingUpstream target) client wall now m =
     (m', 200, BgSplice \<lparr>ti_client_remote = ce_remote client, ti_client_local = ce_local client,
                        ti_target = dst, ti_upstream = Some (ut_addr target)\<rparr> peer)"
  using assms by (simp add: proxy_service_def route_label_def handle_connect_upstream_def)

end
