(* ===== verification/Spec2Isabelle.thy ===== *)
theory Spec2Isabelle
  imports Server Pac_Router Gate Discovery Observe Control App Form
    Config_Json Win_Tray Win_Sspi Win_Netmon Winhttp Process Win_Process Preview System
begin

text \<open>
  A verification development of Zicade, a loopback HTTP/HTTPS forward proxy for Windows that
  authenticates to a corporate upstream proxy. A client's plain request or
  \<^verbatim>\<open>CONNECT\<close> reaches the accept loop; the live routing decides between the origin
  itself, one configured upstream, or what the PAC script says for the URL; towards an upstream
  the proxy answers 407 challenges with Basic or with an NTLM/Negotiate handshake, one per
  connection. A tracker counts what flows. A gate watches the network adapters and swaps the
  live routing; a window and a tray show and change the configuration through one control
  handle; the log store feeds the window's log page.

  \<^bold>\<open>Theories and sources.\<close> Paths are relative to \<^verbatim>\<open>src/\<close>.

  \<^item> \<^verbatim>\<open>Zicade_Prelude\<close>, \<^verbatim>\<open>Machine\<close>, \<^verbatim>\<open>Traces\<close>: what the components share. Integers, results
    (\<open>Inl\<close> error, \<open>Inr\<close> value), the text operations of \<^verbatim>\<open>str\<close>, integer parsing; operation
    sequences (\<open>run\<close>) and executions of step relations (\<open>trace\<close>), the contracts below, bounded
    rings, I/O errors.
  \<^item> \<^verbatim>\<open>Config\<close> (\<^verbatim>\<open>crates/zicade-config: model.rs, validate.rs, error.rs\<close>): the schema,
    validation, redaction. \<^verbatim>\<open>Config_Json\<close> (the serde attributes of \<^verbatim>\<open>model.rs\<close>, and
    \<^verbatim>\<open>io.rs\<close>): the stored form, as JSON values.
  \<^item> \<^verbatim>\<open>Pac\<close> (\<^verbatim>\<open>crates/zicade-routing\<close>): PAC results, their parser, route decisions.
    \<^verbatim>\<open>Pac_Router\<close> (\<^verbatim>\<open>apps/zicade/src/routing.rs, pac_router.rs\<close>): from a configuration
    to live routing, with the decision cache. \<^verbatim>\<open>Gate\<close> (\<^verbatim>\<open>apps/zicade/src/netmon\<close>): the
    corporate-network gate.
  \<^item> \<^verbatim>\<open>Auth\<close> (\<^verbatim>\<open>crates/zicade-auth\<close>): handshake state machine and headers.
    \<^verbatim>\<open>Upstream_Auth\<close> (\<^verbatim>\<open>crates/zicade-proxy/src/upstream/auth.rs\<close>): which challenge is
    answered, and with what.
  \<^item> \<^verbatim>\<open>Wire\<close>, \<^verbatim>\<open>Pool\<close>, \<^verbatim>\<open>Upstream_Connect\<close>, \<^verbatim>\<open>Upstream_Forward\<close>
    (\<^verbatim>\<open>upstream/wire.rs\<close>, \<^verbatim>\<open>pool.rs\<close>, \<^verbatim>\<open>pool/prewarm.rs\<close>, \<^verbatim>\<open>connect.rs\<close>,
    \<^verbatim>\<open>upstream.rs\<close>): response heads and bodies on a socket, prewarmed sockets, the
    authenticated \<^verbatim>\<open>CONNECT\<close>, forwarding.
  \<^item> \<^verbatim>\<open>Tracker\<close>, \<^verbatim>\<open>Tunnel\<close>, \<^verbatim>\<open>Splice\<close>, \<^verbatim>\<open>Http_Forward\<close>, \<^verbatim>\<open>Server\<close>
    (\<^verbatim>\<open>tracker.rs, metrics.rs, counting.rs\<close>, \<^verbatim>\<open>tunnel.rs\<close>,
    \<^verbatim>\<open>http_forward.rs\<close>, \<^verbatim>\<open>server.rs, error.rs\<close> of \<^verbatim>\<open>zicade-proxy\<close>): the
    counters and connections, the spliced tunnel (its policy, and its two pumps step by step), the
    handlers, the accept loop.
  \<^item> \<^verbatim>\<open>Discovery\<close>, \<^verbatim>\<open>Winhttp\<close>, \<^verbatim>\<open>Win_Sspi\<close>, \<^verbatim>\<open>Win_Netmon\<close>, \<^verbatim>\<open>Win_Tray\<close>
    (\<^verbatim>\<open>crates/zicade-win: winhttp, sspi, netmon, tray\<close>): proxy discovery and its calls,
    security contexts, adapters and waits, the tray's window procedure and pump.
    \<^verbatim>\<open>Win_Process\<close> (\<^verbatim>\<open>lib.rs\<close> of \<^verbatim>\<open>zicade-win\<close>, \<^verbatim>\<open>print_usage\<close>): the process probes and
    the usage text.
  \<^item> \<^verbatim>\<open>Observe\<close> (\<^verbatim>\<open>crates/zicade-observe\<close> and the log buffer of \<^verbatim>\<open>zicade-ui\<close>),
    \<^verbatim>\<open>Control\<close> (\<^verbatim>\<open>crates/zicade-control\<close>), \<^verbatim>\<open>Form\<close> (\<^verbatim>\<open>zicade-ui: form_model.rs,
    choices.rs, views/config\<close>), \<^verbatim>\<open>F64\<close> and \<^verbatim>\<open>Display\<close> (\<^verbatim>\<open>throughput.rs,
    chart_model.rs, connection_rates.rs\<close>), \<^verbatim>\<open>Views\<close> (the state of \<^verbatim>\<open>views\<close>, \<^verbatim>\<open>shell.rs\<close>).
  \<^item> \<^verbatim>\<open>Element\<close>: the element tree the pages build, its identifiers, texts and listeners.
    \<^verbatim>\<open>Draw_Overview\<close>, \<^verbatim>\<open>Draw_Lists\<close>, \<^verbatim>\<open>Draw_Settings\<close> (\<^verbatim>\<open>views/overview\<close>,
    \<^verbatim>\<open>connections.rs, logs.rs\<close>, \<^verbatim>\<open>config/render.rs\<close>): what each page draws of its state.
    \<^verbatim>\<open>Window\<close> (\<^verbatim>\<open>views/mod.rs, sidebar.rs, assets.rs\<close>): the window, and what a click, a
    typed text, a tick or a finished apply does to it. \<^verbatim>\<open>Preview\<close>
    (\<^verbatim>\<open>examples/preview.rs\<close>): the window on made-up traffic.
  \<^item> \<^verbatim>\<open>App\<close>, \<^verbatim>\<open>Process\<close> (\<^verbatim>\<open>apps/zicade/src: cli.rs, lib.rs, app.rs, tray.rs,
    main.rs\<close>): the wiring, and the processes it runs in. \<^verbatim>\<open>System\<close>: the window and the
    application on their shared control, and a \<^verbatim>\<open>CONNECT\<close> from its first socket to its tunnel.

  Every theory opens with how its state and operations correspond to the code. A struct is a
  record, an enum a datatype, a function or method a definition of (nearly) the same name; a
  machine integer keeps its width where it can overflow. What runs concurrently in the code is
  a sequence of operations on one state where the code takes a lock or an atomic
  (\<^verbatim>\<open>Tracker\<close>, \<^verbatim>\<open>Pool\<close>, \<^verbatim>\<open>Gate\<close>, \<^verbatim>\<open>Pac_Router\<close>, \<^verbatim>\<open>Observe\<close>), and an
  \<open>inductive\<close> step relation where tasks interleave freely (\<^verbatim>\<open>Server\<close>, \<^verbatim>\<open>Process\<close>,
  \<^verbatim>\<open>Splice\<close>).

  \<^bold>\<open>What the lemmas show.\<close>

  \<^item> The tunnel: a \<^verbatim>\<open>CONNECT\<close> through the upstream ends granted only behind a complete 200
    head and leaves the stream at the first byte of the tunnel, for every segmentation of the
    peer's bytes; it sends a bounded number of requests, retries only a pooled socket that
    answered nothing, and no socket is handed out twice. The pump relays its source exactly,
    and a close is classified as the rules say. Every interleaving of the two pumps, with writes
    that fail, stall or are cut off in the middle, is one of these splices (a refinement); its work
    is bounded by the bytes, a close stays in reach, and the live counters are right throughout.
  \<^item> Authentication: which offer is acted on, that one connection keeps one keyword, that a
    handshake and a forward are bounded and a 407 never reaches the client.
  \<^item> Routing: the handler of a request does what its routing decides; a connection keeps the
    routing it was accepted with; the gate implements a memoryless gate (a refinement); the PAC
    cache answers only fresh decisions; the bypass matcher is the glob relation.
  \<^item> Configuration: validation is exactly validity; saving and loading, and filling and reading
    the form, are round trips; the redacted configuration has no password member and applying
    it loses none; an apply changes everything together or says why it changed nothing.
  \<^item> Bookkeeping: totals are open plus finished, failures are counted once, each connection
    moves through its states in order; the log page shows each event once.
  \<^item> The processes: in every reachable state of the application routing, log level, status and
    stored configuration agree; the run stops when told to and only then; the tray's pump
    implements its click loop, drains before it quits, and the window's loop ends after it.
  \<^item> The window: clicks, typing and ticks act on the settings exactly as the form's operations do
    (a refinement); neither what is drawn nor what a gesture does depends on a stored password;
    no two elements of a page share an identifier; the overview shows the tracker's figures.
  \<^item> Across the components (below): a tunnel through an upstream from the client's request to the
    last byte, and the window, the stored configuration and the routing in force together.

  \<^bold>\<open>Contracts.\<close> \<open>preserving\<close>, \<open>answering\<close>, \<open>metered\<close>, \<open>implements\<close> and \<open>stutters\<close> (\<^verbatim>\<open>Machine\<close>) state of
  one operation what follows for every sequence: an invariant, a postcondition of each answer,
  a bounded count, a simulation; \<open>kept\<close>, \<open>wearing\<close> and \<open>ending\<close> (\<^verbatim>\<open>Traces\<close>) of one step what
  follows for every execution (\<^verbatim>\<open>Server\<close>, \<^verbatim>\<open>Process\<close>, \<^verbatim>\<open>Splice\<close>): an invariant,
  bounded work, an end in reach. They are interpreted by the handshake, the answers and the
  keyword of a connection (\<^verbatim>\<open>Auth\<close>, \<^verbatim>\<open>Upstream_Auth\<close>), the pool and its registry, the
  gate, the window's loop and the window over its form. \<open>bounded_ring\<close> is the interface of the history of finished
  connections, of the log store and of the view's and the chart's queues. \<open>json_codec\<close>
  (\<^verbatim>\<open>Config_Json\<close>) is the contract of a writer and its reader, interpreted by the sections
  and by the whole configuration.

  \<^bold>\<open>Arguments of the model.\<close> Code that is not in the repository is a parameter: base64 and the
  URI and header parsers, hyper's connection events, the JSON text layer, WinHTTP, SSPI, the
  Win32 and IP helper calls, the file system's outcomes. Where a theorem relies on one, a
  hypothesis states the documented behaviour (\<open>base64_laws\<close>; what the popup menu may return),
  and a witness applies the theorem to a concrete instance.

  \<^bold>\<open>Bounds.\<close> The loops of the code are bounded by the code itself and modelled with its bounds:
  ten legs of a handshake and eleven of a \<^verbatim>\<open>CONNECT\<close> (\<open>handshake_loop\<close>: its counter never runs
  out before the driver stops, \<open>handshake_loop_fuel\<close>), ten rounds of the loopback, the head and
  drain limits of the wire helpers. Loops over a socket are recursions over the bytes it will
  deliver, so they end or stall as the socket does; no other fuel is used.

  \<^bold>\<open>Not modelled.\<close> Text is a sequence of code points up to U+00FF, on which \<^verbatim>\<open>to_lowercase\<close>
  is exact (the few glyphs beyond, in captions, are given by their number); a floating-point
  number is in range, so neither infinite nor subnormal. An element tree is what the code hands to
  the toolkit: layout, painting, focus, scrolling and the toolkit's own widgets are left out, and
  so are log output, pointers and buffer descriptors of the system calls, the resolution of names
  and the dialing of sockets (their outcomes are arguments), threads and runtimes, and the build
  script, which embeds the icon. Timing is in the model where the code compares it: deadlines, the
  pool's and the cache's ages, the drain.
\<close>

section \<open>Across the components\<close>

text \<open>C1
  A tunnel works from end to end. A \<^verbatim>\<open>CONNECT\<close> whose routing is an upstream, on a prewarmed or
  a dialed socket, where the upstream challenges and then grants: the client is answered 200, one
  request per leg has named the client's own target, and what the client then receives is exactly
  what the upstream sent behind its 200 head, from the first byte on, in order, however the two
  directions of the tunnel interleave; all of it once the download has ended without a write to the
  client failing. The download that the tracker reports is the bytes counted on the way.\<close>

theorem connect_end_to_end:
  assumes "rq_method parts = ''CONNECT''" and "authority_target (rq_uri parts) = Some dst"
    and "first_socket pool t probe conns dial = Some s"
    and "initial_header (auth_state_new mk (ut_auth target)) = (st, hdr)"
    and "run (on_challenge enc dec astep) st (map leg_headers legs) = (st', map Inr replies)"
    and "list_all challenge_leg legs" and "granting_head final"
    and "rx_bytes s = conversation legs final @ sent" and "sk_writes s = []"
  shows "case tracked_start KindTunnel dst (ut_addr target) (ce_remote client) wall now m of
    (m1, i) \<Rightarrow>
      \<exists>peer info.
        proxy_service (nw\<lparr>nw_dial := \<lambda>g d. fst (connect_via_upstream enc dec mk astep g d pool t probe conns dial)\<rparr>)
          parts (RoutingUpstream target) client wall now m = (m1, 200, BgSplice info peer) \<and>
        sk_sent peer = sk_sent s @ map (connect_request dst) (hdr # map Some replies) \<and>
        (\<forall>browser es s'. trace (splice_step i) (splice_start i browser peer m1) es s' \<longrightarrow>
           prefix (si_got (ry_sink (dx_down s'))) sent \<and>
           mt_bytes_in (dx_metrics s') = mt_bytes_in m + ry_counter (dx_down s') \<and>
           (\<forall>q. ry_phase (dx_down s') = RpSettled q \<and> (\<forall>e. q = Inl e \<longrightarrow> pe_op e = ''read'') \<longrightarrow>
              si_got (ry_sink (dx_down s')) = sent \<and> ry_counter (dx_down s') = of_nat (length sent)))"
proof -
  obtain m1 i where start: "tracked_start KindTunnel dst (ut_addr target) (ce_remote client) wall now m = (m1, i)"
    by fastforce
  obtain reused where via: "\<And>s'. connect_handshake enc dec mk astep s reused (ut_auth target) dst = (LegOk (), s')
      \<Longrightarrow> fst (connect_via_upstream enc dec mk astep target dst pool t probe conns dial) = Inr s'"
    by (rule connect_on_first_socket [OF assms(3)]) blast
  obtain peer where "connect_handshake enc dec mk astep s reused (ut_auth target) dst = (LegOk (), peer)"
    and rx: "rx_bytes peer = sent"
    and asked: "sk_sent peer = sk_sent s @ map (connect_request dst) (hdr # map Some replies)"
    using connect_handshake_grants [OF assms(4-9)] by blast
  with via have dial: "fst (connect_via_upstream enc dec mk astep target dst pool t probe conns dial) = Inr peer" by blast
  note book = tracked_start_holds [OF start]
  have download: "prefix (si_got (ry_sink (dx_down s'))) sent \<and>
      mt_bytes_in (dx_metrics s') = mt_bytes_in m + ry_counter (dx_down s') \<and>
      (\<forall>q. ry_phase (dx_down s') = RpSettled q \<and> (\<forall>e. q = Inl e \<longrightarrow> pe_op e = ''read'') \<longrightarrow>
         si_got (ry_sink (dx_down s')) = sent \<and> ry_counter (dx_down s') = of_nat (length sent))"
    if "trace (splice_step i) (splice_start i browser peer m1) es s'" for browser es s'
    using tunnel_download [OF that] tunnel_reached(3) [OF that] book by (simp add: rx)
  have served: "proxy_service (nw\<lparr>nw_dial := \<lambda>g d. fst (connect_via_upstream enc dec mk astep g d pool t probe conns dial)\<rparr>)
      parts (RoutingUpstream target) client wall now m =
      (m1, 200, BgSplice \<lparr>ti_client_remote = ce_remote client, ti_client_local = ce_local client,
                         ti_target = dst, ti_upstream = Some (ut_addr target)\<rparr> peer)"
    by (rule connect_served [OF assms(1,2) _ start]) (simp add: dial)
  show ?thesis
    unfolding start prod.case
    by (rule exI, rule exI, rule conjI, rule served, rule conjI, rule asked) (use download in blast)
qed

text \<open>The NTLM conversation of \<open>ntlm_demo\<close>, on a prewarmed socket, with \<^verbatim>\<open>TLS\<close> behind the grant.\<close>

definition demo_request :: request_parts where
  "demo_request =
     \<lparr>rq_method = ''CONNECT'',
      rq_uri = \<lparr>ur_authority = Some \<lparr>au_host = ''h'', au_port = Some 443, au_text = ''h:443''\<rparr>,
                ur_path_and_query = None, ur_text = ''h:443''\<rparr>,
      rq_headers = []\<rparr>"

definition demo_target :: "unit upstream_target" where
  "demo_target = \<lparr>ut_addr = ''proxy:8080'', ut_auth = UaNegotiate (), ut_pool = None\<rparr>"

definition demo_network :: "(unit, unit) network" where
  "demo_network = \<lparr>nw_dial = \<lambda>_ _. Inl (io_other []), nw_resolve = \<lambda>_ _. Inr ChoiceDirect,
     nw_origin = \<lambda>_. Inr 200, nw_via = \<lambda>_ _. Inr 200\<rparr>"

text \<open>A prewarmed socket that is silent when it is taken, and a dial that never ends.\<close>

definition demo_pool :: "nat upstream_pool" where
  "demo_pool = pool_put 0 7 (pool_new ''proxy:8080'' \<lparr>pl_min_idle = 1, pl_idle_timeout = 1000\<rparr>)"

definition demo_probe :: "nat \<Rightarrow> try_read" where
  "demo_probe h = Inl (IoError KWouldBlock ''would block'')"

lemma demo_starts:
  "rq_method demo_request = ''CONNECT''" "authority_target (rq_uri demo_request) = Some ''h:443''"
  "first_socket (Some demo_pool) 10 demo_probe (\<lambda>_. ntlm_socket) Stalled = Some ntlm_socket"
  "initial_header (auth_state_new (\<lambda>_. 0) (ut_auth demo_target)) = (AsNegotiate (hs_new 0) None, None)"
proof -
  have "show_word (443 :: u16) = ''443''" by code_simp
  then show "authority_target (rq_uri demo_request) = Some ''h:443''"
    by (simp add: demo_request_def authority_target_def)
qed (simp_all add: demo_request_def first_socket_def demo_target_def auth_state_new_def demo_pool_def demo_probe_def
    step_defs pool_new_def usable_def young_def entry_open_def is_idle_and_open_def)

definition demo_upload :: "splice_event list" where
  "demo_upload = [SvRelay ClientToUpstream RvRead, SvRelay ClientToUpstream (RvAccepted 2)]"

lemma demo_upload_trace: "\<exists>s'. trace (splice_step i) (splice_start i demo_client peer m) demo_upload s'"
proof -
  have "\<exists>s'. splice_run i demo_upload (splice_start i demo_client peer m) = Some s'"
    by (simp add: demo_upload_def splice_start_def relay_start_def demo_client_def splice_next_def demo_reads relayed_by_def
        sink_take_def)
  then show ?thesis using splice_run_trace by blast
qed

lemma connect_end_to_end_witness:
  "case tracked_start KindTunnel ''h:443'' (ut_addr demo_target) None 0 0 metrics_default of
    (m1, i) \<Rightarrow>
      \<exists>peer info.
        proxy_service (demo_network\<lparr>nw_dial := \<lambda>g d. fst (connect_via_upstream nibble_enc nibble_dec (\<lambda>_. 0) counting_auth g d
            (Some demo_pool) 10 demo_probe (\<lambda>_. ntlm_socket) Stalled)\<rparr>)
          demo_request (RoutingUpstream demo_target) \<lparr>ce_remote = None, ce_local = None\<rparr> 0 0 metrics_default
          = (m1, 200, BgSplice info peer) \<and>
        sk_sent peer = [connect_request ''h:443'' None, connect_request ''h:443'' (Some ''NTLM HE'')] \<and>
        (\<exists>s'. trace (splice_step i) (splice_start i demo_client peer m1) demo_upload s' \<and>
           prefix (si_got (ry_sink (dx_down s'))) ''TLS'')"
  using connect_end_to_end [OF demo_starts ntlm_demo(2-6),
      where m = metrics_default and client = "\<lparr>ce_remote = None, ce_local = None\<rparr>" and nw = demo_network
        and wall = 0 and now = 0]
    ntlm_demo(7) demo_upload_trace
  by (fastforce split: prod.splits)



end
